(* ===== verification/Avian_Prelude.thy ===== *)
theory Avian_Prelude
  imports Main "HOL-Library.Word" "HOL-Library.Sublist"
begin

unbundle bit_operations_syntax

text \<open>
  Shared vocabulary of the development: the byte and buffer types, the error monad every
  fallible operation of the model runs in, and the arithmetic of little-endian byte strings
  on which serialization, script numbers and hashing rest.

  Named collections: \<open>err_simps\<close> holds the rewriting rules of the error monad,
  \<open>le_simps\<close> the rewriting rules of little-endian values.
\<close>

named_theorems err_simps "rewriting rules of the error monad"
named_theorems le_simps "rewriting rules of little-endian byte strings"

type_synonym byte = "8 word"
type_synonym valtype = "byte list"
type_synonym uint256 = "256 word"
type_synonym uint160 = "160 word"

section \<open>Results that may be errors\<close>

text \<open>
  A C++ function that throws, or returns \<open>false\<close> after setting an error code, is modelled by a
  function into a sum: \<open>Inl\<close> is the error and \<open>Inr\<close> the value.  \<open>ebind\<close> sequences two such
  computations and stops at the first error, as the exception or the early return does.
\<close>

definition ebind :: "'e + 'a \<Rightarrow> ('a \<Rightarrow> 'e + 'b) \<Rightarrow> 'e + 'b" where
  "ebind m f = (case m of Inl e \<Rightarrow> Inl e | Inr a \<Rightarrow> f a)"

lemma ebind_Inl [simp, err_simps]: "ebind (Inl e) f = Inl e"
  by (simp add: ebind_def)

lemma ebind_Inr [simp, err_simps]: "ebind (Inr a) f = f a"
  by (simp add: ebind_def)

lemma ebind_eq_Inr [err_simps]: "ebind m f = Inr b \<longleftrightarrow> (\<exists>a. m = Inr a \<and> f a = Inr b)"
  by (cases m) auto

lemma ebind_eq_Inl: "ebind m f = Inl e \<longleftrightarrow> m = Inl e \<or> (\<exists>a. m = Inr a \<and> f a = Inl e)"
  by (cases m) auto

lemma ebind_cong [fundef_cong]:
  "m = m' \<Longrightarrow> (\<And>a. m' = Inr a \<Longrightarrow> f a = g a) \<Longrightarrow> ebind m f = ebind m' g"
  by (cases m') auto

lemma ebind_assoc: "ebind (ebind m f) g = ebind m (\<lambda>x. ebind (f x) g)"
  by (cases m) auto

lemma if_Inl_eq_Inr [err_simps]: "(if c then Inl e else r) = Inr v \<longleftrightarrow> \<not> c \<and> r = Inr v"
  by auto

lemma if_eq_Inl_Inr [err_simps]: "(if c then r else Inl e) = Inr v \<longleftrightarrow> c \<and> r = Inr v"
  by auto

text \<open>\<open>returns m P\<close>: the computation \<open>m\<close> does not fail and its value satisfies \<open>P\<close>.\<close>

definition returns :: "'e + 'a \<Rightarrow> ('a \<Rightarrow> bool) \<Rightarrow> bool" where
  "returns m P \<longleftrightarrow> (\<exists>a. m = Inr a \<and> P a)"

lemma returns_Inr [simp]: "returns (Inr a) P \<longleftrightarrow> P a" and returns_Inl [simp]: "\<not> returns (Inl e) P"
  by (simp_all add: returns_def)

lemma returns_bind: "returns m P \<Longrightarrow> (\<And>a. P a \<Longrightarrow> returns (f a) Q) \<Longrightarrow> returns (ebind m f) Q"
  by (auto simp: returns_def)

lemma returns_mono: "returns m P \<Longrightarrow> (\<And>a. P a \<Longrightarrow> Q a) \<Longrightarrow> returns m Q"
  by (auto simp: returns_def)

section \<open>Bits of words\<close>

lemma bit_unat: "bit (w :: 'a::len word) n \<longleftrightarrow> odd (unat w div 2 ^ n)"
  by (simp add: bit_unsigned_iff flip: bit_nat_def)

lemma unat_and_mask: "unat ((w :: 'a::len word) AND mask n) = unat w mod 2 ^ n"
  unfolding take_bit_eq_mask [symmetric] unsigned_take_bit_eq by (simp add: take_bit_eq_mod)

lemma and_not_eq_diff: "(a :: 'a::len word) AND NOT m = a - (a AND m)"
proof -
  have "(a AND m) + (a AND NOT m) = (a AND m) OR (a AND NOT m)"
    by (rule disjunctive_add) (simp add: bit_simps)
  also have "\<dots> = a" by (rule bit_word_eqI) (auto simp: bit_simps)
  finally show ?thesis by (simp add: algebra_simps)
qed

lemma and_exp_eq: "(w :: 'a::len word) AND 2 ^ n = (if bit w n then 2 ^ n else 0)"
  by (rule bit_word_eqI) (auto simp: bit_simps)

lemma unat_exp: "n < LENGTH('a) \<Longrightarrow> unat (2 ^ n :: 'a::len word) = 2 ^ n"
proof -
  assume "n < LENGTH('a)"
  then have "(2 :: nat) ^ n < 2 ^ LENGTH('a)" by simp
  moreover have "(2 ^ n :: 'a word) = of_nat (2 ^ n)" by simp
  ultimately show ?thesis by (simp only: unat_of_nat mod_less)
qed

lemma unat_or_push_bit:
  fixes r x :: "'a::len word"
  assumes "unat r < 2 ^ k" "2 ^ k * unat x < 2 ^ LENGTH('a)"
  shows "unat (r OR push_bit k x) = unat r + 2 ^ k * unat x"
proof -
  have p: "unat (push_bit k x) = 2 ^ k * unat x"
    unfolding unsigned_push_bit_eq
    using assms(2) by (simp add: push_bit_eq_mult take_bit_eq_mod mult.commute)
  have "unat (r OR push_bit k x) = unat r OR push_bit k (unat x)"
    unfolding unsigned_or_eq p by (simp add: push_bit_eq_mult mult.commute)
  also have "\<dots> = unat r + push_bit k (unat x)"
  proof (rule disjunctive_add [symmetric])
    fix n
    show "\<not> bit (unat r) n \<or> \<not> bit (push_bit k (unat x)) n"
    proof (cases "n < k")
      case False
      then have "(2::nat) ^ k \<le> 2 ^ n" by simp
      with assms(1) have "unat r < 2 ^ n" by linarith
      then show ?thesis by (simp add: bit_nat_def)
    qed (simp add: bit_push_bit_iff)
  qed
  finally show ?thesis by (simp add: push_bit_eq_mult mult.commute)
qed

lemma unat_ucast: "unat (ucast (w :: 'a::len word) :: 'b::len word) = unat w mod 2 ^ LENGTH('b)"
  by (simp only: unsigned_ucast_eq take_bit_eq_mod)

lemma unat_ucast_up:
  assumes "LENGTH('a) \<le> LENGTH('b)"
  shows "unat (ucast (w :: 'a::len word) :: 'b::len word) = unat w"
proof -
  have "unat w < 2 ^ LENGTH('a)" by (rule unsigned_less)
  also have "\<dots> \<le> 2 ^ LENGTH('b)" using assms by (intro power_increasing) auto
  finally show ?thesis by (simp add: unat_ucast)
qed

lemma ucast_ucast_up_down:
  assumes "LENGTH('a) \<le> LENGTH('b)"
  shows "(ucast (ucast (w :: 'a::len word) :: 'b::len word) :: 'a word) = w"
  unfolding word_unat_eq_iff unat_ucast [where 'b = 'a] unat_ucast_up [OF assms]
  by (simp add: unsigned_less)

lemma ucast_ucast_down_up:
  assumes "unat w < 2 ^ LENGTH('b)" "LENGTH('b) \<le> LENGTH('a)"
  shows "(ucast (ucast (w :: 'a::len word) :: 'b::len word) :: 'a word) = w"
  using assms(1) by (simp add: word_unat_eq_iff unat_ucast_up [OF assms(2)] unat_ucast)

section \<open>Little-endian byte strings\<close>

text \<open>
  \<open>le_val\<close> reads a byte string as the number whose least significant byte comes first, and
  \<open>le_bytes n v\<close> is the string of the \<open>n\<close> low bytes of \<open>v\<close>.  They say what a little-endian
  \<open>memcpy\<close> between a byte buffer and an unsigned integer computes.
\<close>

fun le_val :: "byte list \<Rightarrow> nat" where
  "le_val [] = 0"
| "le_val (b # bs) = unat b + 256 * le_val bs"

fun le_bytes :: "nat \<Rightarrow> nat \<Rightarrow> byte list" where
  "le_bytes 0 v = []"
| "le_bytes (Suc n) v = of_nat v # le_bytes n (v div 256)"

lemma byte_unat_less: "unat (b :: byte) < 256"
  using unsigned_less [of b] by simp

lemma byte_unat_le: "unat (b :: byte) \<le> 255"
  using byte_unat_less [of b] by linarith

lemma byte_of_nat_unat: "unat (of_nat n :: byte) = n mod 256"
  by (simp add: unat_of_nat)

lemma length_le_bytes [simp]: "length (le_bytes n v) = n"
  by (induction n arbitrary: v) auto

lemma le_val_less: "le_val bs < 256 ^ length bs"
proof (induction bs)
  case (Cons b bs)
  have "unat b < 256" by (rule byte_unat_less)
  then have "unat b + 256 * le_val bs < 256 * (le_val bs + 1)" by simp
  also have "\<dots> \<le> 256 * 256 ^ length bs" using Cons by (simp add: Suc_le_eq)
  finally show ?case by simp
qed simp

lemma le_val_append [le_simps]: "le_val (xs @ ys) = le_val xs + 256 ^ length xs * le_val ys"
  by (induction xs) (auto simp: algebra_simps)

lemma le_val_le_bytes [le_simps]: "le_val (le_bytes n v) = v mod 256 ^ n"
proof (induction n arbitrary: v)
  case (Suc n)
  have "v mod 256 ^ Suc n = v mod 256 + 256 * (v div 256 mod 256 ^ n)"
    by (simp add: mod_mult2_eq)
  then show ?case using Suc by (simp add: byte_of_nat_unat)
qed simp

lemma le_bytes_le_val [le_simps]: "length bs = n \<Longrightarrow> le_bytes n (le_val bs) = bs"
proof (induction bs arbitrary: n)
  case (Cons b bs)
  have m: "(unat b + 256 * le_val bs) div 256 = le_val bs" by (simp add: byte_unat_less)
  have "(of_nat (unat b + 256 * le_val bs) :: byte) = b"
    unfolding word_unat_eq_iff byte_of_nat_unat by (simp add: byte_unat_less)
  with Cons m show ?case by (cases n) auto
qed simp

lemma le_val_eq_iff: "length xs = length ys \<Longrightarrow> le_val xs = le_val ys \<longleftrightarrow> xs = ys"
  by (metis le_bytes_le_val)

lemma byte_top_bit: "(b :: byte) AND 0x80 \<noteq> 0 \<longleftrightarrow> 128 \<le> unat b"
proof -
  have "b AND 0x80 \<noteq> 0 \<longleftrightarrow> bit b 7" using and_exp_eq [of b 7] by simp
  also have "\<dots> \<longleftrightarrow> odd (unat b div 128)" by (simp add: bit_unat)
  also have "\<dots> \<longleftrightarrow> 128 \<le> unat b"
  proof (cases "128 \<le> unat b")
    case True
    then have "unat b div 128 = 1" using byte_unat_less [of b] by (intro div_nat_eqI) simp_all
    with True show ?thesis by simp
  qed simp
  finally show ?thesis .
qed

lemma byte_low7: "unat ((b :: byte) AND 0x7f) = unat b mod 128"
  using unat_and_mask [of b 7] by (simp add: mask_eq_exp_minus_1)

lemma byte_or_0x80: "unat b < 128 \<Longrightarrow> unat ((b :: byte) OR 0x80) = unat b + 128"
  using unat_or_push_bit [of b 7 1] by simp

text \<open>Reading \<open>n\<close> bytes into an \<open>8 * n\<close>-bit word undoes writing the word as \<open>n\<close> bytes, and only that.\<close>

lemma le_word_iff:
  fixes w :: "'a::len word"
  assumes "LENGTH('a) = 8 * n"
  shows "(\<exists>v. length v = n \<and> s = v @ s' \<and> w = of_nat (le_val v)) \<longleftrightarrow> s = le_bytes n (unat w) @ s'"
proof -
  have pow: "(256 :: nat) ^ n = 2 ^ LENGTH('a)" by (simp add: assms power_mult)
  have "w = of_nat (le_val v) \<longleftrightarrow> v = le_bytes n (unat w)" if "length v = n" for v
  proof -
    have "le_val v < 2 ^ LENGTH('a)" using le_val_less [of v] by (simp add: that pow)
    then have "w = of_nat (le_val v) \<longleftrightarrow> unat w = le_val v"
      by (simp only: word_unat_eq_iff unat_of_nat mod_less)
    also have "\<dots> \<longleftrightarrow> le_val (le_bytes n (unat w)) = le_val v"
      by (simp only: le_val_le_bytes pow mod_less unsigned_less)
    also have "\<dots> \<longleftrightarrow> v = le_bytes n (unat w)" using that by (auto simp: le_val_eq_iff)
    finally show ?thesis .
  qed
  then show ?thesis by auto
qed

end
