(* ===== verification/Serialize.thy ===== *)
theory Serialize
  imports Avian_Prelude
begin

unbundle bit_operations_syntax

text \<open>
  Serialization: \<^verbatim>\<open>src/serialize.h\<close>, the little-endian accessors of \<^verbatim>\<open>src/crypto/common.h\<close> and
  the reading side of \<open>CDataStream\<close> (\<^verbatim>\<open>src/streams.h\<close>).  An output stream is the byte string
  written to it; an input stream is the rest of the bytes, and a reader returns the value with
  the bytes left over, or the exception it throws.

  The locale \<open>codec\<close> is the contract every serializable type offers to the types built from it:
  what is written is read back, whatever follows it.  \<open>canonical_codec\<close> adds that only the
  writer's output is accepted, so that equal values have equal bytes (hashes are taken over
  these bytes).  The codecs of vectors and of pairs are derived once inside the locales.
\<close>

section \<open>Streams\<close>

datatype ser_error =
    EndOfData
  | NonCanonicalCompactSize
  | CompactSizeTooLarge
  | VarIntTooLarge
  | UnknownOptionalData

type_synonym 'a reader = "byte list \<Rightarrow> ser_error + 'a \<times> byte list"

definition MAX_SIZE :: nat where
  "MAX_SIZE = 0x02000000"

definition stream_read :: "nat \<Rightarrow> byte list reader" where
  "stream_read nSize s =
     (if nSize = 0 then Inr ([], s)
      else if length s < nSize then Inl EndOfData
      else Inr (take nSize s, drop nSize s))"

section \<open>Fixed-width integers\<close>

definition ReadLE16 :: "byte list \<Rightarrow> 16 word" where
  "ReadLE16 ptr = of_nat (le_val (take 2 ptr))"

definition ReadLE32 :: "byte list \<Rightarrow> 32 word" where
  "ReadLE32 ptr = of_nat (le_val (take 4 ptr))"

definition ReadLE64 :: "byte list \<Rightarrow> 64 word" where
  "ReadLE64 ptr = of_nat (le_val (take 8 ptr))"

definition WriteLE16 :: "16 word \<Rightarrow> byte list" where
  "WriteLE16 x = le_bytes 2 (unat x)"

definition WriteLE32 :: "32 word \<Rightarrow> byte list" where
  "WriteLE32 x = le_bytes 4 (unat x)"

definition WriteLE64 :: "64 word \<Rightarrow> byte list" where
  "WriteLE64 x = le_bytes 8 (unat x)"

definition ser_writedata8 :: "8 word \<Rightarrow> byte list" where
  "ser_writedata8 obj = [obj]"

definition ser_writedata16 :: "16 word \<Rightarrow> byte list" where
  "ser_writedata16 obj = WriteLE16 obj"

definition ser_writedata32 :: "32 word \<Rightarrow> byte list" where
  "ser_writedata32 obj = WriteLE32 obj"

definition ser_writedata64 :: "64 word \<Rightarrow> byte list" where
  "ser_writedata64 obj = WriteLE64 obj"

definition ser_readdata8 :: "8 word reader" where
  "ser_readdata8 s = ebind (stream_read 1 s) (\<lambda>(obj, s). Inr (hd obj, s))"

definition ser_readdata16 :: "16 word reader" where
  "ser_readdata16 s = ebind (stream_read 2 s) (\<lambda>(obj, s). Inr (ReadLE16 obj, s))"

definition ser_readdata32 :: "32 word reader" where
  "ser_readdata32 s = ebind (stream_read 4 s) (\<lambda>(obj, s). Inr (ReadLE32 obj, s))"

definition ser_readdata64 :: "64 word reader" where
  "ser_readdata64 s = ebind (stream_read 8 s) (\<lambda>(obj, s). Inr (ReadLE64 obj, s))"

section \<open>Compact sizes\<close>

definition GetSizeOfCompactSize :: "64 word \<Rightarrow> nat" where
  "GetSizeOfCompactSize nSize =
     (if nSize < 253 then 1
      else if nSize \<le> 0xffff then 1 + 2
      else if nSize \<le> 0xffffffff then 1 + 4
      else 1 + 8)"

definition WriteCompactSize :: "64 word \<Rightarrow> byte list" where
  "WriteCompactSize nSize =
     (if nSize < 253 then ser_writedata8 (ucast nSize)
      else if nSize \<le> 0xffff then ser_writedata8 253 @ ser_writedata16 (ucast nSize)
      else if nSize \<le> 0xffffffff then ser_writedata8 254 @ ser_writedata32 (ucast nSize)
      else ser_writedata8 255 @ ser_writedata64 nSize)"

definition ReadCompactSize :: "64 word reader" where
  "ReadCompactSize s =
     ebind (ser_readdata8 s) (\<lambda>(chSize, s).
     ebind (if chSize < 253 then Inr (ucast chSize, s)
            else if chSize = 253 then
              ebind (ser_readdata16 s) (\<lambda>(n, s).
                if (ucast n :: 64 word) < 253 then Inl NonCanonicalCompactSize else Inr (ucast n, s))
            else if chSize = 254 then
              ebind (ser_readdata32 s) (\<lambda>(n, s).
                if (ucast n :: 64 word) < 0x10000 then Inl NonCanonicalCompactSize else Inr (ucast n, s))
            else
              ebind (ser_readdata64 s) (\<lambda>(n, s).
                if n < 0x100000000 then Inl NonCanonicalCompactSize else Inr (n, s)))
       (\<lambda>(nSizeRet, s).
          if of_nat MAX_SIZE < nSizeRet then Inl CompactSizeTooLarge else Inr (nSizeRet, s)))"

section \<open>Variable-length integers\<close>

text \<open>
  The template argument \<open>I\<close> enters through \<open>maxI\<close>, its \<open>numeric_limits<I>::max()\<close>.  The guard
  at the head of the reader's loop keeps \<open>n << 7\<close> below it, so no step of the loop wraps.
\<close>

fun GetSizeOfVarInt :: "nat \<Rightarrow> nat" where
  "GetSizeOfVarInt n = (if n \<le> 0x7F then 1 else Suc (GetSizeOfVarInt (n div 128 - 1)))"

fun varint_tmp :: "nat \<Rightarrow> nat \<Rightarrow> byte list" where
  "varint_tmp len n =
     (of_nat (n mod 128) OR (if len \<noteq> 0 then 0x80 else 0x00)) #
     (if n \<le> 0x7F then [] else varint_tmp (Suc len) (n div 128 - 1))"

definition WriteVarInt :: "nat \<Rightarrow> byte list" where
  "WriteVarInt n = rev (varint_tmp 0 n)"

fun varint_loop :: "nat \<Rightarrow> nat \<Rightarrow> nat reader" where
  "varint_loop maxI n [] = Inl EndOfData"
| "varint_loop maxI n (chData # s) =
     (if maxI div 128 < n then Inl VarIntTooLarge
      else let n' = n * 128 + unat (chData AND 0x7F)
           in if chData AND 0x80 \<noteq> 0
              then if n' = maxI then Inl VarIntTooLarge else varint_loop maxI (n' + 1) s
              else Inr (n', s))"

definition ReadVarInt :: "nat \<Rightarrow> nat reader" where
  "ReadVarInt maxI s = varint_loop maxI 0 s"

declare GetSizeOfVarInt.simps [simp del] varint_tmp.simps [simp del]

section \<open>Vectors\<close>

text \<open>A vector of bytes is read in blocks of at most 5000000 bytes.\<close>

function read_blocks :: "nat \<Rightarrow> nat \<Rightarrow> byte list reader" where
  "read_blocks i nSize s =
     (if i < nSize
      then let blk = min (nSize - i) (1 + 4999999)
           in ebind (stream_read blk s) (\<lambda>(v, s).
              ebind (read_blocks (i + blk) nSize s) (\<lambda>(vs, s). Inr (v @ vs, s)))
      else Inr ([], s))"
  by pat_completeness auto
termination
  by (relation "measure (\<lambda>(i, nSize, s). nSize - i)") auto

declare read_blocks.simps [simp del]

definition ser_bytes :: "byte list \<Rightarrow> byte list" where
  "ser_bytes v = WriteCompactSize (of_nat (length v)) @ v"

definition unser_bytes :: "byte list reader" where
  "unser_bytes s = ebind (ReadCompactSize s) (\<lambda>(nSize, s). read_blocks 0 (unat nSize) s)"

definition ser_vector :: "('a \<Rightarrow> byte list) \<Rightarrow> 'a list \<Rightarrow> byte list" where
  "ser_vector ser v = WriteCompactSize (of_nat (length v)) @ concat (map ser v)"

fun unser_elems :: "'a reader \<Rightarrow> nat \<Rightarrow> 'a list reader" where
  "unser_elems unser 0 s = Inr ([], s)"
| "unser_elems unser (Suc n) s =
     ebind (unser s) (\<lambda>(a, s). ebind (unser_elems unser n s) (\<lambda>(as, s). Inr (a # as, s)))"

definition unser_vector :: "'a reader \<Rightarrow> 'a list reader" where
  "unser_vector unser s = ebind (ReadCompactSize s) (\<lambda>(nSize, s). unser_elems unser (unat nSize) s)"

section \<open>The codec contracts\<close>

locale codec =
  fixes ser :: "'a \<Rightarrow> byte list" and unser :: "'a reader" and ok :: "'a \<Rightarrow> bool"
  assumes unser_ser: "ok a \<Longrightarrow> unser (ser a @ s) = Inr (a, s)"
begin

lemma unser_elems_ser:
  "list_all ok as \<Longrightarrow> unser_elems unser (length as) (concat (map ser as) @ s) = Inr (as, s)"
  by (induction as) (simp_all add: unser_ser)

end

locale canonical_codec = codec +
  assumes ser_unser: "unser s = Inr (a, s') \<Longrightarrow> ok a \<and> s = ser a @ s'"
begin

lemma unser_iff: "unser s = Inr (a, s') \<longleftrightarrow> ok a \<and> s = ser a @ s'"
  using unser_ser ser_unser by blast

lemma ser_inject: "ok a \<Longrightarrow> ok b \<Longrightarrow> ser a @ s = ser b @ s' \<Longrightarrow> a = b \<and> s = s'"
  by (metis Inr_inject prod.inject unser_ser)

lemma unser_elems_iff:
  "unser_elems unser n s = Inr (as, s') \<longleftrightarrow>
     length as = n \<and> list_all ok as \<and> s = concat (map ser as) @ s'"
proof (induction n arbitrary: s as)
  case (Suc n)
  show ?case by (cases as) (auto simp: ebind_eq_Inr unser_iff Suc)
qed auto

end

section \<open>Integers\<close>

lemma stream_read_iff: "stream_read n s = Inr (v, s') \<longleftrightarrow> length v = n \<and> s = v @ s'"
  by (auto simp: stream_read_def)

lemma stream_read_append [simp]: "stream_read (length v) (v @ s) = Inr (v, s)"
  by (simp add: stream_read_iff)

lemma ser_readdata8_Cons [simp]: "ser_readdata8 (b # s) = Inr (b, s)"
  by (simp add: ser_readdata8_def stream_read_def)

lemma ser_readdata8_iff: "ser_readdata8 s = Inr (b, s') \<longleftrightarrow> s = b # s'"
  by (cases s) (auto simp: ser_readdata8_def stream_read_def)

lemma ser_readdata16_iff: "ser_readdata16 s = Inr (w, s') \<longleftrightarrow> s = ser_writedata16 w @ s'"
  using le_word_iff [of 2 s s' w]
  by (auto simp: ser_readdata16_def ebind_eq_Inr stream_read_iff ReadLE16_def
      ser_writedata16_def WriteLE16_def)

lemma ser_readdata32_iff: "ser_readdata32 s = Inr (w, s') \<longleftrightarrow> s = ser_writedata32 w @ s'"
  using le_word_iff [of 4 s s' w]
  by (auto simp: ser_readdata32_def ebind_eq_Inr stream_read_iff ReadLE32_def
      ser_writedata32_def WriteLE32_def)

lemma ser_readdata64_iff: "ser_readdata64 s = Inr (w, s') \<longleftrightarrow> s = ser_writedata64 w @ s'"
  using le_word_iff [of 8 s s' w]
  by (auto simp: ser_readdata64_def ebind_eq_Inr stream_read_iff ReadLE64_def
      ser_writedata64_def WriteLE64_def)

interpretation u16: canonical_codec ser_writedata16 ser_readdata16 "\<lambda>_. True"
  by unfold_locales (simp_all add: ser_readdata16_iff)

interpretation u32: canonical_codec ser_writedata32 ser_readdata32 "\<lambda>_. True"
  by unfold_locales (simp_all add: ser_readdata32_iff)

interpretation u64: canonical_codec ser_writedata64 ser_readdata64 "\<lambda>_. True"
  by unfold_locales (simp_all add: ser_readdata64_iff)

section \<open>Compact sizes are canonical\<close>

lemma ReadCompactSize_WriteCompactSize:
  assumes "unat n \<le> MAX_SIZE"
  shows "ReadCompactSize (WriteCompactSize n @ s) = Inr (n, s)"
proof -
  have max: "\<not> of_nat MAX_SIZE < n"
    using assms by (simp add: MAX_SIZE_def word_less_nat_alt)
  consider (b1) "unat n < 253" | (b2) "253 \<le> unat n" "unat n < 2 ^ 16" | (b4) "2 ^ 16 \<le> unat n" "unat n < 2 ^ 32"
    using assms by (fastforce simp: MAX_SIZE_def)
  then show ?thesis
  proof cases
    case b1
    then have "ucast (ucast n :: 8 word) = n" and "(ucast n :: 8 word) < 253"
      by (simp_all add: ucast_ucast_down_up word_less_nat_alt unat_ucast)
    with b1 max show ?thesis
      by (simp add: ReadCompactSize_def WriteCompactSize_def ser_writedata8_def word_less_nat_alt [of n 253])
  next
    case b2
    then have "ucast (ucast n :: 16 word) = n" and "\<not> n < 253" and "n \<le> 0xffff"
      by (simp_all add: ucast_ucast_down_up word_less_nat_alt word_le_nat_alt)
    with max show ?thesis
      by (simp add: ReadCompactSize_def WriteCompactSize_def ser_writedata8_def u16.unser_ser)
  next
    case b4
    then have "ucast (ucast n :: 32 word) = n" and "\<not> n < 253" and "\<not> n \<le> 0xffff"
      and "n \<le> 0xffffffff" and "\<not> n < 0x10000"
      by (simp_all add: ucast_ucast_down_up word_less_nat_alt word_le_nat_alt)
    with max show ?thesis
      by (simp add: ReadCompactSize_def WriteCompactSize_def ser_writedata8_def u32.unser_ser)
  qed
qed

lemma ReadCompactSize_Inr:
  assumes "ReadCompactSize s = Inr (n, s')"
  shows "unat n \<le> MAX_SIZE \<and> s = WriteCompactSize n @ s'"
proof -
  from assms obtain ch t where s: "s = ch # t" and max: "\<not> of_nat MAX_SIZE < n"
    and rd: "(if ch < 253 then Inr (ucast ch, t)
            else if ch = 253 then
              ebind (ser_readdata16 t) (\<lambda>(n, s).
                if (ucast n :: 64 word) < 253 then Inl NonCanonicalCompactSize else Inr (ucast n, s))
            else if ch = 254 then
              ebind (ser_readdata32 t) (\<lambda>(n, s).
                if (ucast n :: 64 word) < 0x10000 then Inl NonCanonicalCompactSize else Inr (ucast n, s))
            else
              ebind (ser_readdata64 t) (\<lambda>(n, s).
                if n < 0x100000000 then Inl NonCanonicalCompactSize else Inr (n, s))) = Inr (n, s')"
    by (auto simp: ReadCompactSize_def ebind_eq_Inr ser_readdata8_iff if_Inl_eq_Inr)
  have le: "unat n \<le> MAX_SIZE" using max by (simp add: MAX_SIZE_def word_less_nat_alt)
  consider (b1) "ch < 253" | (b2) "ch = 253" | (b4) "ch = 254" | (b8) "\<not> ch < 253" "ch \<noteq> 253" "ch \<noteq> 254"
    by blast
  then have "s = WriteCompactSize n @ s'"
  proof cases
    case b1
    with rd have n: "n = ucast ch" and t: "t = s'" by auto
    have "unat n = unat ch" by (simp add: n unat_ucast_up)
    with b1 have "n < 253" by (simp add: word_less_nat_alt)
    with t show ?thesis by (simp add: WriteCompactSize_def ser_writedata8_def s n ucast_ucast_up_down)
  next
    case b2
    with rd obtain w where n: "n = ucast w" "\<not> n < 253" and t: "t = ser_writedata16 w @ s'"
      by (auto simp: ebind_eq_Inr if_Inl_eq_Inr u16.unser_iff)
    have "unat n = unat w" by (simp add: n(1) unat_ucast_up)
    with unsigned_less [of w, where 'a = nat] have "n \<le> 0xffff" by (simp add: word_le_nat_alt)
    with n t b2 show ?thesis by (simp add: WriteCompactSize_def ser_writedata8_def s ucast_ucast_up_down)
  next
    case b4
    with rd obtain w where n: "n = ucast w" "\<not> n < 0x10000" and t: "t = ser_writedata32 w @ s'"
      by (auto simp: ebind_eq_Inr if_Inl_eq_Inr u32.unser_iff)
    from n(2) have "\<not> n < 253" "\<not> n \<le> 0xffff" by (auto simp: word_less_nat_alt word_le_nat_alt)
    moreover have "n \<le> 0xffffffff" using le by (simp add: MAX_SIZE_def word_le_nat_alt)
    ultimately show ?thesis
      using n(1) t b4 by (simp add: WriteCompactSize_def ser_writedata8_def s ucast_ucast_up_down)
  next
    case b8
    with rd have "\<not> n < 0x100000000" by (auto simp: ebind_eq_Inr if_Inl_eq_Inr)
    with le show ?thesis by (simp add: MAX_SIZE_def word_less_nat_alt)
  qed
  with le show ?thesis by simp
qed

interpretation csize: canonical_codec WriteCompactSize ReadCompactSize "\<lambda>n. unat n \<le> MAX_SIZE"
  by unfold_locales (rule ReadCompactSize_WriteCompactSize, assumption, erule ReadCompactSize_Inr)

lemma length_WriteCompactSize: "length (WriteCompactSize n) = GetSizeOfCompactSize n"
  by (simp add: WriteCompactSize_def GetSizeOfCompactSize_def ser_writedata8_def ser_writedata16_def
      ser_writedata32_def ser_writedata64_def WriteLE16_def WriteLE32_def WriteLE64_def)

section \<open>Variable-length integers are canonical\<close>

lemma varint_byte:
  "unat (of_nat (n mod 128) OR (if more then 0x80 else 0x00) :: byte) = n mod 128 + (if more then 128 else 0)"
  using byte_or_0x80 [of "of_nat (n mod 128)"] by (simp add: byte_of_nat_unat)

lemma varint_tmp_more: "0 < len \<Longrightarrow> 0 < len' \<Longrightarrow> varint_tmp len n = varint_tmp len' n"
proof (induction len n arbitrary: len' rule: varint_tmp.induct)
  case (1 len n)
  have "varint_tmp (Suc len) (n div 128 - 1) = varint_tmp (Suc len') (n div 128 - 1)" if "\<not> n \<le> 0x7F"
    by (rule "1.IH" [OF that]) simp_all
  with "1.prems" show ?case
    unfolding varint_tmp.simps [of len n] varint_tmp.simps [of len' n] by simp
qed

lemma varint_loop_tmp:
  assumes "n < maxI" "0 < len"
  shows "varint_loop maxI 0 (rev (varint_tmp len n) @ s) = varint_loop maxI (n + 1) s"
  using assms
proof (induction len n arbitrary: s rule: varint_tmp.induct)
  case (1 len n)
  let ?b = "of_nat (n mod 128) OR (if len \<noteq> 0 then 0x80 else 0x00) :: byte"
  have b: "unat ?b = n mod 128 + 128" using varint_byte [of n "len \<noteq> 0"] "1.prems" by simp
  have top: "?b AND 0x80 \<noteq> 0" unfolding byte_top_bit b by simp
  have low: "unat (?b AND 0x7F) = n mod 128" unfolding byte_low7 b by simp
  show ?case
  proof (cases "n \<le> 0x7F")
    case True
    then show ?thesis
      using "1.prems" top low by (subst varint_tmp.simps) (simp add: Let_def)
  next
    case False
    then have "n div 128 - 1 < maxI" using "1.prems" by linarith
    with "1.IH" [OF False] have IH: "varint_loop maxI 0 (rev (varint_tmp (Suc len) (n div 128 - 1)) @ [?b] @ s) =
        varint_loop maxI (n div 128) ([?b] @ s)"
      using False by simp
    have "n div 128 \<le> maxI div 128" using "1.prems" by (intro div_le_mono) simp
    with IH False "1.prems" top low show ?thesis
      by (subst varint_tmp.simps) (simp add: Let_def)
  qed
qed

lemma ReadVarInt_WriteVarInt:
  assumes "n \<le> maxI"
  shows "ReadVarInt maxI (WriteVarInt n @ s) = Inr (n, s)"
proof -
  let ?b = "of_nat (n mod 128) :: byte"
  have "unat ?b = n mod 128" by (simp only: byte_of_nat_unat) simp
  then have top: "\<not> ?b AND 0x80 \<noteq> 0" and low: "unat (?b AND 0x7F) = n mod 128"
    by (simp_all add: byte_top_bit byte_low7 del: of_nat_mod)
  show ?thesis
  proof (cases "n \<le> 0x7F")
    case True
    then show ?thesis
      using top low by (simp add: ReadVarInt_def WriteVarInt_def varint_tmp.simps [of 0 n])
  next
    case False
    then have "n div 128 - 1 < maxI" using assms by linarith
    then have "varint_loop maxI 0 (rev (varint_tmp 1 (n div 128 - 1)) @ [?b] @ s) =
        varint_loop maxI (n div 128) ([?b] @ s)"
      using varint_loop_tmp [of "n div 128 - 1" maxI 1 "[?b] @ s"] False by simp
    moreover have "n div 128 \<le> maxI div 128" using assms by (intro div_le_mono)
    ultimately show ?thesis
      using False top low by (simp add: ReadVarInt_def WriteVarInt_def varint_tmp.simps [of 0 n])
  qed
qed

lemma varint_tmp_step:
  assumes "unat ch mod 128 = low" "(128 \<le> unat ch) = (0 < len)"
  shows "rev (varint_tmp len (n * 128 + low)) = (if n = 0 then [] else rev (varint_tmp 1 (n - 1))) @ [ch]"
proof -
  have low: "low < 128" using assms(1) by auto
  have "(of_nat ((n * 128 + low) mod 128) OR (if len \<noteq> 0 then 0x80 else 0x00) :: byte) = ch"
    unfolding word_unat_eq_iff varint_byte using assms low byte_unat_less [of ch]
    by (cases "128 \<le> unat ch") (auto simp: mod_if [of "unat ch" 128])
  moreover have "varint_tmp (Suc len) m = varint_tmp 1 m" for m by (rule varint_tmp_more) simp_all
  ultimately show ?thesis using low by (subst varint_tmp.simps) auto
qed

lemma varint_loop_Inr:
  assumes "varint_loop maxI n s = Inr (r, s')" and dvd: "128 dvd Suc maxI"
  shows "r \<le> maxI \<and> (if n = 0 then [] else rev (varint_tmp 1 (n - 1))) @ s = WriteVarInt r @ s'"
  using assms
proof (induction maxI n s rule: varint_loop.induct)
  case (2 maxI n ch s)
  let ?low = "unat (ch AND 0x7F)" let ?n' = "n * 128 + ?low"
  have low: "unat ch mod 128 = ?low" by (simp add: byte_low7)
  from "2.prems"(1) have le: "n \<le> maxI div 128" by (auto split: if_splits)
  have "?low < 128" by (simp add: byte_low7)
  show ?case
  proof (cases "ch AND 0x80 \<noteq> 0")
    case True
    with "2.prems"(1) le have "varint_loop maxI (?n' + 1) s = Inr (r, s')" and "?n' \<noteq> maxI"
      by (auto simp: Let_def split: if_splits)
    with "2.IH" "2.prems"(2) le True have "r \<le> maxI \<and> rev (varint_tmp 1 ?n') @ s = WriteVarInt r @ s'"
      by (simp add: Let_def)
    then show ?thesis using varint_tmp_step [OF low, of 1 n] True by (simp add: byte_top_bit)
  next
    case False
    with "2.prems"(1) le have r: "r = ?n'" "s = s'" by (auto simp: Let_def split: if_splits)
    have "n * 128 + ?low < 128 * Suc n" using \<open>?low < 128\<close> by simp
    also have "128 * Suc n \<le> Suc maxI"
    proof -
      obtain k where k: "Suc maxI = 128 * k" using "2.prems"(2) by (elim dvdE)
      then have "maxI div 128 < k" by (intro less_mult_imp_div_less) simp
      with le k show ?thesis by simp
    qed
    finally have "?n' \<le> maxI" by simp
    then show ?thesis using varint_tmp_step [OF low, of 0 n] False
      by (simp add: byte_top_bit WriteVarInt_def r)
  qed
qed simp

text \<open>
  C19. Variable-length integers are one-to-one, as the comment in \<^verbatim>\<open>serialize.h\<close> promises: for an
  integer type whose maximum is \<open>2\<^sup>k - 1\<close> with \<open>k \<ge> 7\<close>, the reader returns \<open>n\<close> and the rest
  \<open>s'\<close> exactly on the writer's output for \<open>n\<close> followed by \<open>s'\<close>; every other input is refused.
\<close>

theorem varint_canonical:
  assumes "128 dvd Suc maxI"
  shows "ReadVarInt maxI s = Inr (n, s') \<longleftrightarrow> n \<le> maxI \<and> s = WriteVarInt n @ s'"
  using assms ReadVarInt_WriteVarInt [of n maxI s'] varint_loop_Inr [of maxI 0 s n s']
  by (auto simp: ReadVarInt_def)

theorem varint_canonical_witness:
  "128 dvd Suc (2 ^ 32 - 1) \<and> ReadVarInt (2 ^ 32 - 1) [0x82, 0xFE, 0x7F, 0x05] = Inr (65535, [0x05])"
proof -
  have d: "128 dvd Suc (2 ^ 32 - 1)" by simp
  have "WriteVarInt 65535 = [0x82, 0xFE, 0x7F]" by (simp add: WriteVarInt_def varint_tmp.simps)
  then have "ReadVarInt (2 ^ 32 - 1) [0x82, 0xFE, 0x7F, 0x05] = Inr (65535, [0x05])"
    using varint_canonical [OF d] by simp
  with d show ?thesis by blast
qed

text \<open>
  Compact sizes are one-to-one up to \<open>MAX_SIZE\<close>: the reader accepts exactly the writer's
  encoding of a size of at most \<open>MAX_SIZE\<close>, so longer encodings of the same size are refused.
\<close>

theorem compact_size_canonical:
  "ReadCompactSize s = Inr (n, s') \<longleftrightarrow> unat n \<le> MAX_SIZE \<and> s = WriteCompactSize n @ s'"
  by (rule csize.unser_iff)

lemma length_varint_tmp: "length (varint_tmp len n) = GetSizeOfVarInt n"
proof (induction len n rule: varint_tmp.induct)
  case (1 len n)
  then show ?case by (subst varint_tmp.simps, subst GetSizeOfVarInt.simps) simp
qed

lemma length_WriteVarInt: "length (WriteVarInt n) = GetSizeOfVarInt n"
  by (simp add: WriteVarInt_def length_varint_tmp)

section \<open>Vectors\<close>

lemma stream_read_split:
  "stream_read (m + n) s =
     ebind (stream_read m s) (\<lambda>(v, s). ebind (stream_read n s) (\<lambda>(w, s). Inr (v @ w, s)))"
  by (auto simp: stream_read_def take_add add.commute)

lemma read_blocks_eq: "read_blocks i n s = stream_read (n - i) s"
proof (induction i n s rule: read_blocks.induct)
  case (1 i n s)
  show ?case
  proof (cases "i < n")
    case True
    let ?blk = "min (n - i) (1 + 4999999)"
    have "read_blocks (i + ?blk) n t = stream_read (n - (i + ?blk)) t"
      if "stream_read ?blk s = Inr (v, t)" for v t
      using "1.IH" [OF True refl that refl] by simp
    then have "read_blocks i n s =
        ebind (stream_read ?blk s) (\<lambda>(v, s). ebind (stream_read (n - (i + ?blk)) s) (\<lambda>(w, s). Inr (v @ w, s)))"
      using True by (subst read_blocks.simps) (auto simp: Let_def intro!: ebind_cong)
    also have "\<dots> = stream_read (?blk + (n - (i + ?blk))) s" by (rule stream_read_split [symmetric])
    also have "?blk + (n - (i + ?blk)) = n - i" by auto
    finally show ?thesis .
  qed (simp add: read_blocks.simps stream_read_def)
qed

lemma unat_length_le_MAX_SIZE: "n \<le> MAX_SIZE \<Longrightarrow> unat (of_nat n :: 64 word) = n"
  by (simp add: MAX_SIZE_def unat_of_nat)

interpretation bytes: canonical_codec ser_bytes unser_bytes "\<lambda>v. length v \<le> MAX_SIZE"
proof
  fix v s :: "byte list" assume "length v \<le> MAX_SIZE"
  then show "unser_bytes (ser_bytes v @ s) = Inr (v, s)"
    by (simp add: unser_bytes_def ser_bytes_def csize.unser_ser unat_length_le_MAX_SIZE read_blocks_eq)
next
  fix s v s' assume "unser_bytes s = Inr (v, s')"
  then show "length v \<le> MAX_SIZE \<and> s = ser_bytes v @ s'"
    by (auto simp: unser_bytes_def ser_bytes_def ebind_eq_Inr csize.unser_iff read_blocks_eq stream_read_iff)
qed

context codec
begin

lemma vector_codec: "codec (ser_vector ser) (unser_vector unser) (\<lambda>v. length v \<le> MAX_SIZE \<and> list_all ok v)"
proof
  fix v s assume "length v \<le> MAX_SIZE \<and> list_all ok v"
  then show "unser_vector unser (ser_vector ser v @ s) = Inr (v, s)"
    by (simp add: unser_vector_def ser_vector_def csize.unser_ser unat_length_le_MAX_SIZE unser_elems_ser)
qed

end

context canonical_codec
begin

lemma vector_canonical:
  "canonical_codec (ser_vector ser) (unser_vector unser) (\<lambda>v. length v \<le> MAX_SIZE \<and> list_all ok v)"
proof (intro canonical_codec.intro vector_codec, unfold_locales)
  fix s v s' assume "unser_vector unser s = Inr (v, s')"
  then show "(length v \<le> MAX_SIZE \<and> list_all ok v) \<and> s = ser_vector ser v @ s'"
    by (auto simp: unser_vector_def ser_vector_def ebind_eq_Inr csize.unser_iff unser_elems_iff)
qed

end

end
