(* ===== verification/Script_Num.thy ===== *)
theory Script_Num
  imports Avian_Prelude
begin

unbundle bit_operations_syntax

text \<open>
  Script numbers: class \<open>CScriptNum\<close> of \<^verbatim>\<open>src/script/script.h\<close>.  A script number is an
  \<open>int64_t\<close> (the field \<open>m_value\<close>, modelled by \<open>int\<close>) that travels on the interpreter's stack as
  a sign-magnitude, least-significant-byte-first byte string.  The theory models the decoding
  constructor with its size and minimality checks, the encoder and the conversion to \<open>int\<close>,
  and shows that the two directions are inverse and that the minimal encoding is unique.
\<close>

section \<open>The class\<close>

datatype scriptnum_error = ScriptNumOverflow | NonMinimalScriptNum

text \<open>The accumulation loop of \<open>set_vch\<close>: byte \<open>i\<close> is or-ed in at bit \<open>8 * i\<close>.\<close>

fun set_vch_loop :: "nat \<Rightarrow> valtype \<Rightarrow> 64 word \<Rightarrow> 64 word" where
  "set_vch_loop i [] result = result"
| "set_vch_loop i (b # bs) result =
     set_vch_loop (Suc i) bs (result OR push_bit (8 * i) (ucast b))"

definition set_vch :: "valtype \<Rightarrow> int" where
  "set_vch vch =
     (if vch = [] then 0
      else let result = set_vch_loop 0 vch 0
           in if last vch AND 0x80 \<noteq> 0
              then - sint (result AND NOT (push_bit (8 * (length vch - 1)) 0x80))
              else sint result)"

definition is_minimal_num :: "valtype \<Rightarrow> bool" where
  "is_minimal_num vch \<longleftrightarrow>
     (vch = [] \<or> last vch AND 0x7f \<noteq> 0 \<or>
      (1 < length vch \<and> vch ! (length vch - 2) AND 0x80 \<noteq> 0))"

definition nDefaultMaxNumSize :: nat where
  "nDefaultMaxNumSize = 4"

definition CScriptNum :: "valtype \<Rightarrow> bool \<Rightarrow> nat \<Rightarrow> scriptnum_error + int" where
  "CScriptNum vch fRequireMinimal nMaxNumSize =
     (if nMaxNumSize < length vch then Inl ScriptNumOverflow
      else if fRequireMinimal \<and> \<not> is_minimal_num vch then Inl NonMinimalScriptNum
      else Inr (set_vch vch))"

function scriptnum_magnitude :: "64 word \<Rightarrow> valtype" where
  "scriptnum_magnitude absvalue =
     (if absvalue = 0 then []
      else ucast (absvalue AND 0xff) # scriptnum_magnitude (drop_bit 8 absvalue))"
  by pat_completeness auto
termination
proof (relation "measure unat")
  fix a :: "64 word"
  assume "a \<noteq> 0"
  then have "0 < unat a" by (simp add: unat_gt_0)
  then have "unat a div 256 < unat a" by simp
  then show "(drop_bit 8 a, a) \<in> measure unat" 
    by (simp only: in_measure unat_drop_bit_eq) (simp add: drop_bit_eq_div)
qed simp

declare scriptnum_magnitude.simps [simp del]

definition scriptnum_serialize :: "int \<Rightarrow> valtype" where
  "scriptnum_serialize value =
     (if value = 0 then []
      else let neg = value < 0;
               result = scriptnum_magnitude (of_int (if neg then - value else value))
           in if last result AND 0x80 \<noteq> 0 then result @ [if neg then 0x80 else 0]
              else if neg then butlast result @ [last result OR 0x80]
              else result)"

definition getint :: "int \<Rightarrow> int" where
  "getint m_value =
     (if 2 ^ 31 - 1 < m_value then 2 ^ 31 - 1
      else if m_value < - (2 ^ 31) then - (2 ^ 31)
      else m_value)"

section \<open>The value a byte string denotes\<close>

text \<open>
  The reference reading of a script number: the magnitude is the little-endian value with the
  top bit of the last byte cleared, and that bit is the sign.
\<close>

definition num_value :: "valtype \<Rightarrow> int" where
  "num_value vch =
     (if vch = [] then 0
      else (if last vch AND 0x80 \<noteq> 0 then - 1 else 1) *
           int (le_val (butlast vch) + 256 ^ (length vch - 1) * unat (last vch AND 0x7f)))"


lemma num_value_snoc:
  "num_value (ys @ [b]) =
     (if 128 \<le> unat b then - 1 else 1) * int (le_val ys + 256 ^ length ys * (unat b mod 128))"
  by (simp add: num_value_def byte_top_bit byte_low7)

lemma set_vch_loop_value:
  assumes "i + length bs \<le> 8" "unat r < 256 ^ i"
  shows "unat (set_vch_loop i bs r) = unat r + 256 ^ i * le_val bs"
  using assms
proof (induction bs arbitrary: i r)
  case (Cons b bs)
  let ?r' = "r OR push_bit (8 * i) (ucast b)"
  have pow: "(256 :: nat) ^ i = 2 ^ (8 * i)" by (simp add: power_mult)
  have ub: "unat (ucast b :: 64 word) = unat b"
    by (simp add: unsigned_ucast_eq take_bit_nat_eq_self_iff order_less_trans [OF byte_unat_less])
  have "unat b * 256 ^ i < 256 * 256 ^ i" by (simp add: byte_unat_less)
  also have "\<dots> = (256 :: nat) ^ Suc i" by simp
  also have le8: "\<dots> \<le> 256 ^ 8" using Cons.prems(1) by (intro power_increasing) auto
  finally have fits: "2 ^ (8 * i) * unat (ucast b :: 64 word) < 2 ^ LENGTH(64)"
    by (simp add: ub pow mult.commute)
  have r': "unat ?r' = unat r + 256 ^ i * unat b"
    using unat_or_push_bit [OF _ fits, of r] Cons.prems(2) by (simp add: ub pow)
  have "unat r + 256 ^ i * unat b < 256 ^ i * (unat b + 1)"
    using Cons.prems(2) by (simp add: algebra_simps)
  also have "\<dots> \<le> 256 ^ i * 256" by (intro mult_le_mono2) (simp add: Suc_le_eq byte_unat_less)
  finally have "unat ?r' < 256 ^ Suc i" by (simp add: r')
  with Cons.IH [of "Suc i" ?r'] Cons.prems(1)
  have "unat (set_vch_loop (Suc i) bs ?r') = unat ?r' + 256 ^ Suc i * le_val bs" by simp
  then show ?case unfolding set_vch_loop.simps r' by (simp add: algebra_simps)
qed simp

lemma sint_of_small:
  assumes "unat (w :: 64 word) < 2 ^ 63"
  shows "sint w = int (unat w)"
proof -
  have u: "uint w = int (unat w)" by simp
  have "int (unat w) < 2 ^ 63" using assms by (metis of_nat_less_iff of_nat_numeral of_nat_power)
  then have "signed_take_bit 63 (int (unat w)) = int (unat w)"
    by (intro signed_take_bit_int_eq_self) linarith+
  then show ?thesis by (simp only: sint_uint u) simp
qed

lemma set_vch_eq_num_value:
  assumes "length vch \<le> 8"
  shows "set_vch vch = num_value vch"
proof (cases vch rule: rev_cases)
  case (snoc ys b)
  let ?k = "length ys" and ?r = "set_vch_loop 0 vch 0"
  have r: "unat ?r = le_val ys + 256 ^ ?k * unat b"
    using set_vch_loop_value [of 0 vch 0] assms by (simp add: snoc le_val_append)
  have pow: "(2 :: nat) ^ (8 * ?k + 7) = 256 ^ ?k * 128" by (simp add: power_add power_mult)
  have lt: "le_val ys < 256 ^ ?k" by (rule le_val_less)
  have le63: "(256 :: nat) ^ ?k * 128 \<le> 2 ^ 63"
    using assms power_increasing [of ?k 7 "256 :: nat"] by (simp add: snoc)
  show ?thesis
  proof (cases "128 \<le> unat b")
    case True
    define c where "c = unat b - 128"
    have b: "unat b = c + 128" and c: "c < 128" using True byte_unat_less [of b] by (auto simp: c_def)
    have small: "le_val ys + 256 ^ ?k * c < 256 ^ ?k * 128"
    proof -
      have "le_val ys + 256 ^ ?k * c < 256 ^ ?k * (c + 1)" using lt by (simp add: algebra_simps)
      also have "\<dots> \<le> 256 ^ ?k * 128" using c by (intro mult_le_mono2) simp
      finally show ?thesis .
    qed
    have r2: "unat ?r = (le_val ys + 256 ^ ?k * c) + 256 ^ ?k * 128"
      by (simp add: r b algebra_simps)
    have "unat ?r div (256 ^ ?k * 128) = 1"
      using small by (intro div_nat_eqI) (simp_all add: r2)
    then have "bit ?r (8 * ?k + 7)" by (simp add: bit_unat pow)
    then have "?r AND NOT (2 ^ (8 * ?k + 7)) = ?r - 2 ^ (8 * ?k + 7)"
      by (simp add: and_not_eq_diff and_exp_eq)
    moreover have "push_bit (8 * ?k) (0x80 :: 64 word) = 2 ^ (8 * ?k + 7)"
      by (simp add: push_bit_eq_mult power_add)
    ultimately have d: "?r AND NOT (push_bit (8 * ?k) 0x80) = ?r - 2 ^ (8 * ?k + 7)" by (simp only:)
    have "unat (2 ^ (8 * ?k + 7) :: 64 word) = 256 ^ ?k * 128"
      unfolding pow [symmetric] using assms by (intro unat_exp) (simp add: snoc)
    then have u: "unat (?r AND NOT (push_bit (8 * ?k) 0x80)) = le_val ys + 256 ^ ?k * c"
      unfolding d unat_sub_if' by (simp add: r2)
    then have "sint (?r AND NOT (push_bit (8 * ?k) 0x80)) = int (le_val ys + 256 ^ ?k * c)"
      using small le63 by (subst sint_of_small) linarith+
    moreover have "unat b mod 128 = c" using c by (simp add: b)
    ultimately show ?thesis
      using True by (simp add: snoc set_vch_def byte_top_bit num_value_snoc)
  next
    case False
    then have "unat ?r < 2 ^ 63"
    proof -
      have "le_val ys + 256 ^ ?k * unat b < 256 ^ ?k * (unat b + 1)" using lt by (simp add: algebra_simps)
      also have "\<dots> \<le> 256 ^ ?k * 128" using False by (intro mult_le_mono2) simp
      finally show ?thesis using le63 by (simp add: r)
    qed
    then have "sint ?r = int (unat ?r)" by (rule sint_of_small)
    with False show ?thesis
      by (simp add: snoc set_vch_def byte_top_bit num_value_snoc r [unfolded snoc])
  qed
qed (simp add: set_vch_def num_value_def)

section \<open>The encoder\<close>

lemma unat_and_0xff: "unat (a AND 0xff :: 64 word) = unat a mod 256"
  using unat_and_mask [of a 8] by (simp add: mask_eq_exp_minus_1)

lemma unat_magnitude_byte: "unat (ucast (a AND 0xff :: 64 word) :: byte) = unat a mod 256"
  unfolding unsigned_ucast_eq unat_and_0xff by (simp add: take_bit_eq_mod)

lemma unat_drop_byte: "unat (drop_bit 8 (a :: 64 word)) = unat a div 256"
  by (simp only: unat_drop_bit_eq) (simp add: drop_bit_eq_div)

lemma le_val_magnitude: "le_val (scriptnum_magnitude a) = unat a"
proof (induction a rule: scriptnum_magnitude.induct)
  case (1 a)
  then show ?case
    by (subst scriptnum_magnitude.simps)
       (simp add: unat_magnitude_byte unat_drop_byte)
qed

lemma magnitude_of_le_val:
  assumes "length bs \<le> 8" "bs \<noteq> [] \<Longrightarrow> last bs \<noteq> 0"
  shows "scriptnum_magnitude (of_nat (le_val bs)) = bs"
  using assms
proof (induction bs)
  case Nil
  then show ?case by (simp add: scriptnum_magnitude.simps)
next
  case (Cons b bs)
  let ?a = "of_nat (le_val (b # bs)) :: 64 word"
  have "le_val (b # bs) < 256 ^ length (b # bs)" by (rule le_val_less)
  also have "\<dots> \<le> 256 ^ 8" using Cons.prems(1) by (intro power_increasing) auto
  finally have lt: "le_val (b # bs) < 2 ^ 64" by simp
  then have u: "unat ?a = le_val (b # bs)" by (simp add: unat_of_nat del: of_nat_add le_val.simps)
  have "le_val bs \<noteq> 0 \<or> bs = []"
    using Cons.prems(2) by (cases bs rule: rev_cases) (auto simp: le_val_append unat_eq_zero)
  then have "unat ?a \<noteq> 0" using Cons.prems(2) unfolding u by (auto simp: unat_eq_zero)
  then have nz: "?a \<noteq> 0" by (metis unat_0)
  have hd: "ucast (?a AND 0xff) = b"
    unfolding word_unat_eq_iff unat_magnitude_byte u by (simp add: byte_unat_less)
  have tl: "drop_bit 8 ?a = of_nat (le_val bs)"
    unfolding word_unat_eq_iff unat_drop_byte u using lt by (simp add: byte_unat_less unat_of_nat)
  have "scriptnum_magnitude (of_nat (le_val bs)) = bs"
    using Cons.prems by (intro Cons.IH) (auto split: if_splits)
  then show ?case
    by (subst scriptnum_magnitude.simps) (simp only: nz hd tl if_False)
qed

lemma magnitude_last: "a \<noteq> 0 \<Longrightarrow> scriptnum_magnitude a \<noteq> [] \<and> last (scriptnum_magnitude a) \<noteq> 0"
proof (induction a rule: scriptnum_magnitude.induct)
  case (1 a)
  show ?case
  proof (cases "drop_bit 8 a = 0")
    case True
    then have "unat a div 256 = 0" by (metis unat_0 unat_drop_byte)
    then have "unat (ucast (a AND 0xff) :: byte) = unat a"
      unfolding unat_magnitude_byte by simp
    with "1.prems" have "(ucast (a AND 0xff) :: byte) \<noteq> 0" by (metis unat_0 unat_eq_zero)
    with "1.prems" True show ?thesis
      by (simp add: scriptnum_magnitude.simps [of a] scriptnum_magnitude.simps [of 0])
  next
    case False
    with "1.IH" "1.prems" show ?thesis by (simp add: scriptnum_magnitude.simps [of a])
  qed
qed

lemma length_magnitude: "unat a < 256 ^ n \<Longrightarrow> length (scriptnum_magnitude a) \<le> n"
proof (induction a arbitrary: n rule: scriptnum_magnitude.induct)
  case (1 a)
  show ?case
  proof (cases "a = 0")
    case False
    then have "0 < unat a" by (simp add: unat_gt_0)
    with "1.prems" obtain m where n: "n = Suc m" by (cases n) auto
    with "1.prems" have "unat (drop_bit 8 a) < 256 ^ m"
      unfolding unat_drop_byte by (simp add: less_mult_imp_div_less mult.commute)
    with False "1.IH" show ?thesis by (subst scriptnum_magnitude.simps) (simp add: n)
  qed (simp add: scriptnum_magnitude.simps)
qed

lemma serialize_cases:
  assumes "v \<noteq> 0" "\<bar>v\<bar> < 2 ^ 64"
  obtains ys b where "scriptnum_magnitude (of_int \<bar>v\<bar>) = ys @ [b]" "b \<noteq> 0"
    "int (le_val ys + 256 ^ length ys * unat b) = \<bar>v\<bar>"
    "scriptnum_serialize v =
       (if 128 \<le> unat b then ys @ [b, if v < 0 then 0x80 else 0]
        else ys @ [if v < 0 then b OR 0x80 else b])"
proof -
  define a :: "64 word" where "a = of_int \<bar>v\<bar>"
  have "uint a = \<bar>v\<bar>" using assms(2) by (simp add: a_def uint_word_of_int)
  then have ua: "int (unat a) = \<bar>v\<bar>" by simp
  then have "a \<noteq> 0" using assms(1) by auto
  then obtain ys b where m: "scriptnum_magnitude a = ys @ [b]" and b: "b \<noteq> 0"
    using magnitude_last [of a] by (cases "scriptnum_magnitude a" rule: rev_cases) auto
  have "le_val (ys @ [b]) = unat a" using le_val_magnitude [of a] by (simp add: m)
  then have "int (le_val ys + 256 ^ length ys * unat b) = \<bar>v\<bar>"
    using ua by (simp add: le_val_append)
  moreover have "scriptnum_serialize v =
       (if 128 \<le> unat b then ys @ [b, if v < 0 then 0x80 else 0]
        else ys @ [if v < 0 then b OR 0x80 else b])"
  proof -
    have "(if v < 0 then - v else v) = \<bar>v\<bar>" by simp
    then show ?thesis
      using assms(1) by (simp add: scriptnum_serialize_def byte_top_bit m flip: a_def del: of_int_abs)
  qed
  ultimately show thesis using that [of ys b] m b by (simp add: a_def)
qed

lemma num_value_serialize:
  assumes "\<bar>v\<bar> < 2 ^ 64"
  shows "num_value (scriptnum_serialize v) = v"
proof (cases "v = 0")
  case False
  from serialize_cases [OF this assms] obtain ys b where v: "int (le_val ys + 256 ^ length ys * unat b) = \<bar>v\<bar>"
    and s: "scriptnum_serialize v =
       (if 128 \<le> unat b then ys @ [b, if v < 0 then 0x80 else 0]
        else ys @ [if v < 0 then b OR 0x80 else b])"
    by metis
  have sgn: "v = (if v < 0 then - 1 else 1) * \<bar>v\<bar>" by simp
  show ?thesis
  proof (cases "128 \<le> unat b")
    case True
    then have "scriptnum_serialize v = (ys @ [b]) @ [if v < 0 then 0x80 else 0]" by (simp add: s)
    then have "num_value (scriptnum_serialize v) =
        (if v < 0 then - 1 else 1) * int (le_val ys + 256 ^ length ys * unat b)"
      by (simp only: num_value_snoc) (simp add: le_val_append)
    then show ?thesis using v sgn by simp
  next
    case F: False
    then have "unat (if v < 0 then b OR 0x80 else b) = (if v < 0 then unat b + 128 else unat b)"
      by (simp add: byte_or_0x80)
    then have "num_value (scriptnum_serialize v) =
        (if v < 0 then - 1 else 1) * int (le_val ys + 256 ^ length ys * unat b)"
      using F by (simp add: s num_value_snoc)
    then show ?thesis using v sgn by simp
  qed
qed (simp add: scriptnum_serialize_def num_value_def)

lemma length_serialize:
  assumes "\<bar>v\<bar> < 2 ^ (8 * n + 7)" "n \<le> 7"
  shows "length (scriptnum_serialize v) \<le> Suc n"
proof (cases "v = 0")
  case False
  have "8 * n + 7 \<le> 63" using assms(2) by simp
  then have "(2 :: int) ^ (8 * n + 7) \<le> 2 ^ 63" by (intro power_increasing) auto
  with assms(1) have "\<bar>v\<bar> < 2 ^ 64" by simp
  from serialize_cases [OF False this] obtain ys b where b: "b \<noteq> 0"
    and v: "int (le_val ys + 256 ^ length ys * unat b) = \<bar>v\<bar>"
    and s: "scriptnum_serialize v =
       (if 128 \<le> unat b then ys @ [b, if v < 0 then 0x80 else 0]
        else ys @ [if v < 0 then b OR 0x80 else b])"
    by metis
  have "int (256 ^ length ys * unat b) < int (256 ^ n * 128)"
    using v assms(1) by (simp add: power_add power_mult)
  then have lt: "256 ^ length ys * unat b < 256 ^ n * 128" by (simp only: of_nat_less_iff)
  have pos: "1 \<le> unat b" using b by (simp add: Suc_le_eq unat_gt_0)
  show ?thesis
  proof (cases "128 \<le> unat b")
    case True
    have "256 ^ length ys * 128 \<le> 256 ^ length ys * unat b" using True by simp
    with lt have "(256 :: nat) ^ length ys < 256 ^ n" by linarith
    with True show ?thesis by (simp add: s Suc_le_eq)
  next
    case F: False
    have "(256 :: nat) ^ length ys * 1 \<le> 256 ^ length ys * unat b" using pos by (intro mult_le_mono2)
    also note lt
    also have "(256 :: nat) ^ n * 128 < 256 ^ Suc n" by simp
    finally have "(256 :: nat) ^ length ys < 256 ^ Suc n" by simp
    then have "length ys < Suc n" by (simp only: power_strict_increasing_iff)
    with F show ?thesis by (simp add: s)
  qed
qed (simp add: scriptnum_serialize_def)

lemma minimal_serialize:
  assumes "\<bar>v\<bar> < 2 ^ 64"
  shows "is_minimal_num (scriptnum_serialize v)"
proof (cases "v = 0")
  case False
  from serialize_cases [OF this assms] obtain ys b where b: "b \<noteq> 0"
    and s: "scriptnum_serialize v =
       (if 128 \<le> unat b then ys @ [b, if v < 0 then 0x80 else 0]
        else ys @ [if v < 0 then b OR 0x80 else b])"
    by metis
  show ?thesis
  proof (cases "128 \<le> unat b")
    case True
    then show ?thesis by (simp add: s is_minimal_num_def byte_top_bit nth_append)
  next
    case F: False
    then have "unat ((if v < 0 then b OR 0x80 else b) AND 0x7f) = unat b"
      by (simp add: byte_low7 byte_or_0x80)
    with b have "(if v < 0 then b OR 0x80 else b) AND 0x7f \<noteq> 0" by (metis unat_0 unat_eq_zero)
    with F show ?thesis by (simp add: s is_minimal_num_def)
  qed
qed (simp add: scriptnum_serialize_def is_minimal_num_def)

lemma byte_low7_top:
  assumes "128 \<le> unat (b :: byte)"
  shows "(b AND 0x7f) OR 0x80 = b"
proof -
  have "unat b < 256" by (rule byte_unat_less)
  with assms have "unat b mod 128 = unat b - 128" by (simp add: mod_if [of "unat b" 128])
  with assms have "unat ((b AND 0x7f) OR 0x80) = unat b"
    by (subst byte_or_0x80) (simp_all add: byte_low7)
  then show ?thesis by (simp add: word_unat_eq_iff)
qed

lemma num_value_abs_less:
  assumes "length vch \<le> Suc n"
  shows "\<bar>num_value vch\<bar> < 2 ^ (8 * n + 7)"
proof (cases vch rule: rev_cases)
  case (snoc ys b)
  have "le_val ys + 256 ^ length ys * (unat b mod 128) < 256 ^ length ys * (unat b mod 128 + 1)"
    using le_val_less [of ys] by (simp add: algebra_simps)
  also have "\<dots> \<le> 256 ^ length ys * 128" by (intro mult_le_mono2) (simp add: Suc_le_eq)
  also have "\<dots> \<le> 256 ^ n * 128" using assms by (simp add: snoc power_increasing)
  finally have "int (le_val ys + 256 ^ length ys * (unat b mod 128)) < int (256 ^ n * 128)"
    by (simp only: of_nat_less_iff)
  moreover have "\<bar>num_value vch\<bar> = int (le_val ys + 256 ^ length ys * (unat b mod 128))"
    unfolding snoc num_value_snoc abs_mult by (simp only: abs_of_nat split: if_split) simp
  ultimately show ?thesis by (simp add: power_add power_mult)
qed (simp add: num_value_def)

lemma serialize_from_magnitude:
  assumes "v \<noteq> 0" "\<bar>v\<bar> = int m" "scriptnum_magnitude (of_nat m) = ys @ [b]"
  shows "scriptnum_serialize v =
     (if 128 \<le> unat b then ys @ [b, if v < 0 then 0x80 else 0]
      else ys @ [if v < 0 then b OR 0x80 else b])"
proof -
  have "of_int (if v < 0 then - v else v) = (of_nat m :: 64 word)"
    using assms(2) by (metis abs_if of_int_of_nat_eq)
  then show ?thesis
    using assms(1,3) by (simp only: scriptnum_serialize_def) (simp add: byte_top_bit)
qed

lemma serialize_num_value:
  assumes min: "is_minimal_num vch" and len: "length vch \<le> 8"
  shows "scriptnum_serialize (num_value vch) = vch"
proof (cases vch rule: rev_cases)
  case (snoc ys b)
  define neg where "neg \<longleftrightarrow> 128 \<le> unat b"
  have low: "unat (b AND 0x7f) = unat b mod 128" by (rule byte_low7)
  have nv: "num_value vch = (if neg then - 1 else 1) * int (le_val (ys @ [b AND 0x7f]))"
    by (simp add: snoc num_value_snoc neg_def le_val_append low)
  show ?thesis
  proof (cases "b AND 0x7f = 0")
    case False
    let ?m = "le_val (ys @ [b AND 0x7f])"
    have "?m \<noteq> 0" using False by (simp add: le_val_append unat_eq_zero)
    then have s: "num_value vch < 0 \<longleftrightarrow> neg" "num_value vch \<noteq> 0" "\<bar>num_value vch\<bar> = int ?m"
      unfolding nv by (auto simp: abs_mult simp del: of_nat_add)
    have mag: "scriptnum_magnitude (of_nat ?m) = ys @ [b AND 0x7f]"
      using False len by (intro magnitude_of_le_val) (simp_all add: snoc)
    have "unat (b AND 0x7f) < 128" by (simp add: low)
    moreover have "neg \<Longrightarrow> (b AND 0x7f) OR 0x80 = b" by (simp add: neg_def byte_low7_top)
    moreover have "\<not> neg \<Longrightarrow> b AND 0x7f = b" by (simp add: neg_def word_unat_eq_iff low)
    ultimately show ?thesis
      using serialize_from_magnitude [OF s(2,3) mag] s(1) by (auto simp: snoc)
  next
    case True
    with min have ys: "ys \<noteq> []" and top: "128 \<le> unat (last ys)"
      by (auto simp: is_minimal_num_def snoc nth_append byte_top_bit last_conv_nth split: if_splits)
    have m: "le_val (ys @ [b AND 0x7f]) = le_val ys" using True by (simp add: le_val_append)
    have "le_val ys \<noteq> 0"
      using ys top by (cases ys rule: rev_cases) (auto simp: le_val_append)
    then have s: "num_value vch < 0 \<longleftrightarrow> neg" "num_value vch \<noteq> 0" "\<bar>num_value vch\<bar> = int (le_val ys)"
      unfolding nv m by auto
    have mag: "scriptnum_magnitude (of_nat (le_val ys)) = ys"
      using top len by (intro magnitude_of_le_val) (auto simp: snoc)
    have b: "unat b = (if neg then 128 else 0)"
      using True byte_unat_less [of b] low by (auto simp: neg_def mod_if [of "unat b" 128] split: if_splits)
    then have "b = (if neg then 0x80 else 0)" by (simp add: word_unat_eq_iff)
    moreover obtain zs c where "ys = zs @ [c]" using ys by (cases ys rule: rev_cases) auto
    ultimately show ?thesis
      using serialize_from_magnitude [OF s(2,3), of zs c] mag s(1) top by (auto simp: snoc)
  qed
qed (simp add: scriptnum_serialize_def num_value_def)

section \<open>Decoding and encoding are inverse\<close>

lemma CScriptNum_serialize:
  assumes "k \<le> 7" "\<bar>v\<bar> < 2 ^ (8 * k + 7)"
  shows "CScriptNum (scriptnum_serialize v) fRequireMinimal (Suc k) = Inr v"
proof -
  have len: "length (scriptnum_serialize v) \<le> Suc k" using assms by (intro length_serialize)
  have "(2 :: int) ^ (8 * k + 7) \<le> 2 ^ 63" using assms(1) by (intro power_increasing) auto
  with assms(2) have v: "\<bar>v\<bar> < 2 ^ 64" by simp
  have "set_vch (scriptnum_serialize v) = v"
    using len assms(1) by (simp add: set_vch_eq_num_value num_value_serialize [OF v])
  then show ?thesis using len by (simp add: CScriptNum_def minimal_serialize [OF v])
qed

lemma CScriptNum_range:
  assumes "CScriptNum vch fRequireMinimal (Suc k) = Inr v" "k \<le> 7"
  shows "\<bar>v\<bar> < 2 ^ (8 * k + 7)"
proof -
  from assms have len: "length vch \<le> Suc k" and v: "v = num_value vch"
    by (auto simp: CScriptNum_def set_vch_eq_num_value split: if_splits)
  show ?thesis unfolding v by (rule num_value_abs_less [OF len])
qed

text \<open>
  C18. The minimal encoding of a script number is unique and complete: when minimality is
  required, a byte string of at most \<open>k + 1\<close> bytes decodes to \<open>v\<close> exactly when it is the
  encoder's output for \<open>v\<close> and \<open>v\<close> is in the sign-magnitude range of \<open>k + 1\<close> bytes.  In
  particular decoding inverts encoding, and no two byte strings denote the same number.
\<close>

theorem scriptnum_minimal_iff:
  assumes "k \<le> 7"
  shows "CScriptNum vch True (Suc k) = Inr v \<longleftrightarrow>
           vch = scriptnum_serialize v \<and> \<bar>v\<bar> < 2 ^ (8 * k + 7)"
proof
  assume dec: "CScriptNum vch True (Suc k) = Inr v"
  then have "length vch \<le> Suc k" and min: "is_minimal_num vch" and v: "v = set_vch vch"
    by (auto simp: CScriptNum_def split: if_splits)
  with assms have len: "length vch \<le> 8" by simp
  then have "scriptnum_serialize v = vch"
    using min by (simp add: v set_vch_eq_num_value serialize_num_value)
  with CScriptNum_range [OF dec assms] show "vch = scriptnum_serialize v \<and> \<bar>v\<bar> < 2 ^ (8 * k + 7)"
    by simp
next
  assume "vch = scriptnum_serialize v \<and> \<bar>v\<bar> < 2 ^ (8 * k + 7)"
  with CScriptNum_serialize [OF assms] show "CScriptNum vch True (Suc k) = Inr v" by simp
qed

theorem scriptnum_minimal_iff_witness:
  "(3 :: nat) \<le> 7 \<and> CScriptNum [0xff, 0x80] True 4 = Inr (- 255) \<and> scriptnum_serialize (- 255) = [0xff, 0x80]"
proof -
  have s: "scriptnum_serialize (- 255) = [0xff, 0x80]" by code_simp
  have "CScriptNum [0xff, 0x80] True (Suc 3) = Inr (- 255)"
    by (subst scriptnum_minimal_iff) (simp_all add: s)
  with s show ?thesis by simp
qed

end
