(* ===== verification/Script.thy ===== *)
theory Script
  imports Opcodes Serialize Script_Num
begin

unbundle bit_operations_syntax

text \<open>
  Scripts: class \<open>CScript\<close> of \<^verbatim>\<open>src/script/script.h\<close> and \<^verbatim>\<open>src/script/script.cpp\<close>.  A script is
  its byte string.  A \<open>const_iterator\<close> into a script is modelled by the rest of the script from
  it on, so \<open>pc < end()\<close> is \<open>pc \<noteq> []\<close>, \<open>end() - pc\<close> is \<open>length pc\<close> and a range \<open>[p, q)\<close> is the
  prefix of \<open>p\<close> that \<open>q\<close> leaves out.  The theory holds the instruction parser, the builders,
  \<open>FindAndDelete\<close>, the signature-operation counters and the script templates.
\<close>

type_synonym CScript = "byte list"

definition MAX_SCRIPT_ELEMENT_SIZE :: nat where "MAX_SCRIPT_ELEMENT_SIZE = 520"
definition MAX_OPS_PER_SCRIPT :: nat where "MAX_OPS_PER_SCRIPT = 201"
definition MAX_PUBKEYS_PER_MULTISIG :: nat where "MAX_PUBKEYS_PER_MULTISIG = 20"
definition MAX_SCRIPT_SIZE :: nat where "MAX_SCRIPT_SIZE = 10000"
definition MAX_STACK_SIZE :: nat where "MAX_STACK_SIZE = 1000"
definition LOCKTIME_THRESHOLD :: int where "LOCKTIME_THRESHOLD = 500000000"

section \<open>Reading instructions\<close>

text \<open>
  \<open>push_size\<close> is the part of \<open>GetOp2\<close> that finds how many bytes a push opcode pushes: the size
  and the iterator after the length bytes, \<open>None\<close> where the length bytes are cut off.
\<close>

definition push_size :: "opcodetype \<Rightarrow> CScript \<Rightarrow> (nat \<times> CScript) option" where
  "push_size opcode pc =
     (if opcode < OP_PUSHDATA1 then Some (opcode, pc)
      else if opcode = OP_PUSHDATA1 then
        (if length pc < 1 then None else Some (unat (hd pc), tl pc))
      else if opcode = OP_PUSHDATA2 then
        (if length pc < 2 then None else Some (unat (ReadLE16 pc), drop 2 pc))
      else
        (if length pc < 4 then None else Some (unat (ReadLE32 pc), drop 4 pc)))"

text \<open>
  The result is the returned flag, the iterator after the call (which has moved past what was
  read even where the call fails), \<open>opcodeRet\<close> and \<open>*pvchRet\<close>.
\<close>

definition GetOp2 :: "CScript \<Rightarrow> bool \<times> CScript \<times> opcodetype \<times> valtype" where
  "GetOp2 pc =
     (case pc of
        [] \<Rightarrow> (False, [], OP_INVALIDOPCODE, [])
      | b # pc \<Rightarrow>
          let opcode = unat b in
          if opcode \<le> OP_PUSHDATA4 then
            (case push_size opcode pc of
               None \<Rightarrow> (False, pc, OP_INVALIDOPCODE, [])
             | Some (nSize, pc) \<Rightarrow>
                 if length pc < nSize then (False, pc, OP_INVALIDOPCODE, [])
                 else (True, drop nSize pc, opcode, take nSize pc))
          else if opcode = OP_AVN_ASSET then (True, [], opcode, pc)
          else (True, pc, opcode, []))"

section \<open>Building scripts\<close>

definition push_opcode :: "opcodetype \<Rightarrow> CScript" where
  "push_opcode opcode = [of_nat opcode]"

definition push_data :: "valtype \<Rightarrow> CScript" where
  "push_data b =
     (if length b < OP_PUSHDATA1 then [of_nat (length b)]
      else if length b \<le> 0xff then [of_nat OP_PUSHDATA1, of_nat (length b)]
      else if length b \<le> 0xffff then of_nat OP_PUSHDATA2 # WriteLE16 (of_nat (length b))
      else of_nat OP_PUSHDATA4 # WriteLE32 (of_nat (length b))) @ b"

definition push_int64 :: "int \<Rightarrow> CScript" where
  "push_int64 n =
     (if n = - 1 \<or> (1 \<le> n \<and> n \<le> 16) then [of_int (n + (int OP_1 - 1))]
      else if n = 0 then push_opcode OP_0
      else push_data (scriptnum_serialize n))"

text \<open>
  \<open>DecodeOP_N\<close> and \<open>EncodeOP_N\<close> abort on an argument out of range; \<open>None\<close> is that abort.
\<close>

definition DecodeOP_N :: "opcodetype \<Rightarrow> nat option" where
  "DecodeOP_N opcode =
     (if opcode = OP_0 then Some 0
      else if OP_1 \<le> opcode \<and> opcode \<le> OP_16 then Some (opcode - (OP_1 - 1))
      else None)"

definition EncodeOP_N :: "nat \<Rightarrow> opcodetype option" where
  "EncodeOP_N n =
     (if 16 < n then None
      else if n = 0 then Some OP_0
      else Some (OP_1 + n - 1))"

section \<open>Progress of the parser\<close>

lemma push_size_shorter: "push_size opcode pc = Some (n, pc') \<Longrightarrow> length pc' \<le> length pc"
  by (auto simp: push_size_def split: if_splits)

lemma GetOp2_shorter: "GetOp2 pc = (True, pc', opcode, d) \<Longrightarrow> length pc' < length pc"
  by (auto simp: GetOp2_def Let_def split: list.splits if_splits option.splits dest!: push_size_shorter)

lemma push_size_suffix: "push_size opcode pc = Some (n, pc') \<Longrightarrow> suffix pc' pc"
  by (auto simp: push_size_def suffix_drop suffix_tl split: if_splits)

lemma GetOp2_suffix: "GetOp2 pc = (ok, pc', opcode, d) \<Longrightarrow> suffix pc' pc"
  by (auto simp: GetOp2_def Let_def suffix_ConsI suffix_drop suffix_order.trans
      intro!: suffix_ConsI suffix_order.trans [OF suffix_drop]
      split: list.splits if_splits option.splits dest!: push_size_suffix)

section \<open>Walking over a script\<close>

text \<open>The loops over \<open>GetOp\<close>: each call moves the iterator on, so each loop ends.\<close>

function IsPushOnly :: "CScript \<Rightarrow> bool" where
  "IsPushOnly pc =
     (if pc = [] then True
      else case GetOp2 pc of (fRet, pc', opcode, _) \<Rightarrow>
        if \<not> fRet then False
        else if OP_16 < opcode then False
        else IsPushOnly pc')"
  by pat_completeness auto
termination
  by (relation "measure length") (auto dest!: GetOp2_shorter [OF sym])

function HasValidOps :: "CScript \<Rightarrow> bool" where
  "HasValidOps it =
     (if it = [] then True
      else case GetOp2 it of (fRet, it', opcode, item) \<Rightarrow>
        if \<not> fRet \<or> MAX_OPCODE < opcode \<or> MAX_SCRIPT_ELEMENT_SIZE < length item then False
        else HasValidOps it')"
  by pat_completeness auto
termination
  by (relation "measure length") (auto dest!: GetOp2_shorter [OF sym])

function Find :: "opcodetype \<Rightarrow> CScript \<Rightarrow> nat" where
  "Find op pc =
     (if pc = [] then 0
      else case GetOp2 pc of (fRet, pc', opcode, _) \<Rightarrow>
        if \<not> fRet then 0 else (if opcode = op then 1 else 0) + Find op pc')"
  by pat_completeness auto
termination
  by (relation "measure (\<lambda>(op, pc). length pc)") (auto dest!: GetOp2_shorter [OF sym])

function sigop_loop :: "bool \<Rightarrow> opcodetype \<Rightarrow> CScript \<Rightarrow> nat" where
  "sigop_loop fAccurate lastOpcode pc =
     (if pc = [] then 0
      else case GetOp2 pc of (fRet, pc', opcode, _) \<Rightarrow>
        if \<not> fRet then 0
        else (if opcode = OP_CHECKSIG \<or> opcode = OP_CHECKSIGVERIFY then 1
              else if opcode = OP_CHECKMULTISIG \<or> opcode = OP_CHECKMULTISIGVERIFY then
                (if fAccurate \<and> OP_1 \<le> lastOpcode \<and> lastOpcode \<le> OP_16
                 then lastOpcode - (OP_1 - 1)
                 else MAX_PUBKEYS_PER_MULTISIG)
              else 0) + sigop_loop fAccurate opcode pc')"
  by pat_completeness auto
termination
  by (relation "measure (\<lambda>(f, l, pc). length pc)") (auto dest!: GetOp2_shorter [OF sym])

definition GetSigOpCount :: "bool \<Rightarrow> CScript \<Rightarrow> nat" where
  "GetSigOpCount fAccurate script = sigop_loop fAccurate OP_INVALIDOPCODE script"

function last_push :: "valtype \<Rightarrow> CScript \<Rightarrow> valtype option" where
  "last_push vData pc =
     (if pc = [] then Some vData
      else case GetOp2 pc of (fRet, pc', opcode, d) \<Rightarrow>
        if \<not> fRet then None
        else if OP_16 < opcode then None
        else last_push d pc')"
  by pat_completeness auto
termination
  by (relation "measure (\<lambda>(v, pc). length pc)") (auto dest!: GetOp2_shorter [OF sym])

declare IsPushOnly.simps [simp del] HasValidOps.simps [simp del] Find.simps [simp del]
  sigop_loop.simps [simp del] last_push.simps [simp del]

section \<open>Deleting a subscript\<close>

function skip_matches :: "CScript \<Rightarrow> CScript \<Rightarrow> nat \<Rightarrow> CScript \<times> nat" where
  "skip_matches b pc nFound =
     (if b \<noteq> [] \<and> length b \<le> length pc \<and> take (length b) pc = b
      then skip_matches b (drop (length b) pc) (Suc nFound)
      else (pc, nFound))"
  by pat_completeness auto
termination
  by (relation "measure (\<lambda>(b, pc, n). length pc)") (auto simp: neq_Nil_conv)

declare skip_matches.simps [simp del]

lemma skip_matches_shorter: "length (fst (skip_matches b pc n)) \<le> length pc"
proof (induction b pc n rule: skip_matches.induct)
  case (1 b pc n)
  then show ?case by (subst skip_matches.simps) auto
qed

function delete_loop :: "CScript \<Rightarrow> CScript \<Rightarrow> CScript \<Rightarrow> CScript \<Rightarrow> nat \<Rightarrow> CScript \<times> CScript \<times> nat" where
  "delete_loop b result pc2 pc nFound =
     (let result' = result @ take (length pc2 - length pc) pc2;
          m = skip_matches b pc nFound
      in case GetOp2 (fst m) of (fRet, pc', _, _) \<Rightarrow>
           if fRet then delete_loop b result' (fst m) pc' (snd m)
           else (result', fst m, snd m))"
  by pat_completeness auto
termination
  by (relation "measure (\<lambda>(b, r, pc2, pc, n). length pc)")
    (auto dest!: GetOp2_shorter [OF sym] intro: less_le_trans [OF _ skip_matches_shorter])

declare delete_loop.simps [simp del]

definition FindAndDelete :: "CScript \<Rightarrow> CScript \<Rightarrow> CScript \<times> nat" where
  "FindAndDelete script b =
     (if b = [] then (script, 0)
      else case delete_loop b [] script script 0 of (result, pc2, nFound) \<Rightarrow>
        if 0 < nFound then (result @ pc2, nFound) else (script, nFound))"

section \<open>Script templates\<close>

definition IsPayToPublicKeyHash :: "CScript \<Rightarrow> bool" where
  "IsPayToPublicKeyHash s \<longleftrightarrow>
     length s = 25 \<and> unat (s ! 0) = OP_DUP \<and> unat (s ! 1) = OP_HASH160 \<and> s ! 2 = 0x14 \<and>
     unat (s ! 23) = OP_EQUALVERIFY \<and> unat (s ! 24) = OP_CHECKSIG"

definition IsPayToScriptHash :: "CScript \<Rightarrow> bool" where
  "IsPayToScriptHash s \<longleftrightarrow>
     length s = 23 \<and> unat (s ! 0) = OP_HASH160 \<and> s ! 1 = 0x14 \<and> unat (s ! 22) = OP_EQUAL"

definition IsPayToWitnessScriptHash :: "CScript \<Rightarrow> bool" where
  "IsPayToWitnessScriptHash s \<longleftrightarrow> length s = 34 \<and> unat (s ! 0) = OP_0 \<and> s ! 1 = 0x20"

text \<open>The version and the program, where the script is a witness program.\<close>

definition IsWitnessProgram :: "CScript \<Rightarrow> (nat \<times> valtype) option" where
  "IsWitnessProgram s =
     (if length s < 4 \<or> 42 < length s then None
      else if unat (s ! 0) \<noteq> OP_0 \<and> (unat (s ! 0) < OP_1 \<or> OP_16 < unat (s ! 0)) then None
      else if unat (s ! 1) + 2 = length s
           then map_option (\<lambda>version. (version, drop 2 s)) (DecodeOP_N (unat (s ! 0)))
      else None)"

definition IsPayToPublicKey :: "CScript \<Rightarrow> bool" where
  "IsPayToPublicKey s \<longleftrightarrow>
     (if length s = 35 then (s ! 1 = 0x02 \<or> s ! 1 = 0x03) \<and> unat (s ! 34) = OP_CHECKSIG
      else if length s = 67 then s ! 1 = 0x04 \<and> unat (s ! 66) = OP_CHECKSIG
      else False)"

definition GetSigOpCount_P2SH :: "CScript \<Rightarrow> CScript \<Rightarrow> nat" where
  "GetSigOpCount_P2SH scriptPubKey scriptSig =
     (if \<not> IsPayToScriptHash scriptPubKey then GetSigOpCount True scriptPubKey
      else case last_push [] scriptSig of
        None \<Rightarrow> 0
      | Some vData \<Rightarrow> GetSigOpCount True vData)"

section \<open>Asset scripts\<close>

text \<open>
  An asset output is a pay-to-public-key-hash script followed, at index 25, by \<open>OP_AVN_ASSET\<close>
  and the asset data, which starts with the letters \<open>rvn\<close> and a letter for the operation.
  \<open>IsAssetScript\<close> returns the type, whether it is an owner asset, and the index at which the
  serialized asset starts.
\<close>

datatype txnouttype =
    TX_NONSTANDARD
  | TX_PUBKEY
  | TX_PUBKEYHASH
  | TX_SCRIPTHASH
  | TX_MULTISIG
  | TX_NULL_DATA
  | TX_WITNESS_V0_SCRIPTHASH
  | TX_WITNESS_V0_KEYHASH
  | TX_NEW_ASSET
  | TX_REISSUE_ASSET
  | TX_TRANSFER_ASSET
  | TX_RESTRICTED_ASSET_DATA

abbreviation (input) AVN_R :: byte where "AVN_R \<equiv> 114"
abbreviation (input) AVN_V :: byte where "AVN_V \<equiv> 118"
abbreviation (input) AVN_N :: byte where "AVN_N \<equiv> 110"
abbreviation (input) AVN_Q :: byte where "AVN_Q \<equiv> 113"
abbreviation (input) AVN_T :: byte where "AVN_T \<equiv> 116"
abbreviation (input) AVN_O :: byte where "AVN_O \<equiv> 111"

definition asset_marker_index :: "CScript \<Rightarrow> nat option" where
  "asset_marker_index s =
     (if s ! 27 = AVN_R then (if s ! 28 = AVN_V \<and> s ! 29 = AVN_N then Some 30 else None)
      else if s ! 28 = AVN_R \<and> s ! 29 = AVN_V \<and> s ! 30 = AVN_N then Some 31
      else None)"

definition IsAssetScript :: "CScript \<Rightarrow> (txnouttype \<times> bool \<times> nat) option" where
  "IsAssetScript s =
     (if 31 < length s \<and> unat (s ! 25) = OP_AVN_ASSET then
        (case asset_marker_index s of
           None \<Rightarrow> None
         | Some index \<Rightarrow>
             if s ! index = AVN_T then Some (TX_TRANSFER_ASSET, False, index + 1)
             else if s ! index = AVN_Q \<and> 39 < length s then Some (TX_NEW_ASSET, False, index + 1)
             else if s ! index = AVN_O then Some (TX_NEW_ASSET, True, index + 1)
             else if s ! index = AVN_R then Some (TX_REISSUE_ASSET, False, index + 1)
             else None)
      else None)"

definition IsNewAsset :: "CScript \<Rightarrow> bool" where
  "IsNewAsset s = (case IsAssetScript s of
     Some (nType, fIsOwner, _) \<Rightarrow> \<not> fIsOwner \<and> nType = TX_NEW_ASSET | None \<Rightarrow> False)"

definition IsOwnerAsset :: "CScript \<Rightarrow> bool" where
  "IsOwnerAsset s = (case IsAssetScript s of
     Some (nType, fIsOwner, _) \<Rightarrow> fIsOwner \<and> nType = TX_NEW_ASSET | None \<Rightarrow> False)"

definition IsReissueAsset :: "CScript \<Rightarrow> bool" where
  "IsReissueAsset s = (case IsAssetScript s of
     Some (nType, _, _) \<Rightarrow> nType = TX_REISSUE_ASSET | None \<Rightarrow> False)"

definition IsTransferAsset :: "CScript \<Rightarrow> bool" where
  "IsTransferAsset s = (case IsAssetScript s of
     Some (nType, _, _) \<Rightarrow> nType = TX_TRANSFER_ASSET | None \<Rightarrow> False)"

definition IsNullAssetTxDataScript :: "CScript \<Rightarrow> bool" where
  "IsNullAssetTxDataScript s \<longleftrightarrow> 23 < length s \<and> unat (s ! 0) = OP_AVN_ASSET \<and> s ! 1 = 0x14"

definition IsNullGlobalRestrictionAssetTxDataScript :: "CScript \<Rightarrow> bool" where
  "IsNullGlobalRestrictionAssetTxDataScript s \<longleftrightarrow>
     6 < length s \<and> unat (s ! 0) = OP_AVN_ASSET \<and> unat (s ! 1) = OP_RESERVED \<and> unat (s ! 2) = OP_RESERVED"

definition IsNullAssetVerifierTxDataScript :: "CScript \<Rightarrow> bool" where
  "IsNullAssetVerifierTxDataScript s \<longleftrightarrow>
     3 < length s \<and> unat (s ! 0) = OP_AVN_ASSET \<and> unat (s ! 1) = OP_RESERVED \<and> unat (s ! 2) \<noteq> OP_RESERVED"

definition IsNullAsset :: "CScript \<Rightarrow> bool" where
  "IsNullAsset s \<longleftrightarrow>
     IsNullAssetTxDataScript s \<or> IsNullGlobalRestrictionAssetTxDataScript s \<or> IsNullAssetVerifierTxDataScript s"

end
