(* ===== verification/Hasher.thy ===== *)
theory Hasher
  imports Serialize
begin

unbundle bit_operations_syntax

text \<open>
  What the hasher classes of \<^verbatim>\<open>src/crypto\<close> share: the big-endian accessors of
  \<^verbatim>\<open>crypto/common.h\<close>, the hasher object (chaining state, block buffer, byte counter) and the
  three parts of \<open>Write\<close> (fill a partial block, process full blocks, keep the rest).

  \<open>absorb\<close> is the reference: cut the message into blocks and feed them to the compression
  function one after the other.  \<open>absorbed\<close> is the class invariant: the object is what absorbing
  the message written so far gives, however it was cut into calls.  The locale \<open>block_hasher\<close> is
  the contract of \<open>Write\<close>; it is interpreted on SHA-256, SHA-1, RIPEMD-160 and SHA-512 in their
  theories.
\<close>

section \<open>Big-endian accessors\<close>

definition ReadBE32 :: "byte list \<Rightarrow> 32 word" where
  "ReadBE32 ptr = of_nat (le_val (rev (take 4 ptr)))"

definition ReadBE64 :: "byte list \<Rightarrow> 64 word" where
  "ReadBE64 ptr = of_nat (le_val (rev (take 8 ptr)))"

definition WriteBE32 :: "32 word \<Rightarrow> byte list" where
  "WriteBE32 x = rev (le_bytes 4 (unat x))"

definition WriteBE64 :: "64 word \<Rightarrow> byte list" where
  "WriteBE64 x = rev (le_bytes 8 (unat x))"

lemma length_WriteBE32 [simp]: "length (WriteBE32 x) = 4"
  by (simp add: WriteBE32_def)

lemma length_WriteBE64 [simp]: "length (WriteBE64 x) = 8"
  by (simp add: WriteBE64_def)

lemma length_WriteLE32 [simp]: "length (WriteLE32 x) = 4"
  by (simp add: WriteLE32_def)

lemma length_WriteLE64 [simp]: "length (WriteLE64 x) = 8"
  by (simp add: WriteLE64_def)

lemma ReadBE32_take [simp]: "4 \<le> n \<Longrightarrow> ReadBE32 (take n p) = ReadBE32 p"
  by (simp add: ReadBE32_def min_absorb1)

lemma ReadBE64_take [simp]: "8 \<le> n \<Longrightarrow> ReadBE64 (take n p) = ReadBE64 p"
  by (simp add: ReadBE64_def min_absorb1)

lemma ReadLE32_take [simp]: "4 \<le> n \<Longrightarrow> ReadLE32 (take n p) = ReadLE32 p"
  by (simp add: ReadLE32_def min_absorb1)

section \<open>The hasher object\<close>

text \<open>
  \<open>h_buf\<close> is the block buffer with all its bytes, also those not written yet: the constructor
  leaves them as they are, so the model's constructors take them as an argument.
\<close>

record 's hasher =
  h_s :: 's
  h_buf :: "byte list"
  h_bytes :: "64 word"

definition memcpy_at :: "byte list \<Rightarrow> nat \<Rightarrow> byte list \<Rightarrow> byte list" where
  "memcpy_at dst off src = take off dst @ src @ drop (off + length src) dst"

text \<open>
  The three stages of \<open>Write\<close>, for a class with blocks of \<open>B\<close> bytes and compression function
  \<open>Tr\<close>.  The first returns the object, the data left and the new \<open>bufsize\<close>.
\<close>

definition Write_fill ::
  "nat \<Rightarrow> ('s \<Rightarrow> byte list \<Rightarrow> 's) \<Rightarrow> 's hasher \<Rightarrow> byte list \<Rightarrow> 's hasher \<times> byte list \<times> nat" where
  "Write_fill B Tr h data =
     (let bufsize = unat (h_bytes h) mod B in
      if bufsize \<noteq> 0 \<and> B \<le> bufsize + length data then
        (let buf = memcpy_at (h_buf h) bufsize (take (B - bufsize) data) in
         (h\<lparr>h_buf := buf, h_bytes := h_bytes h + of_nat (B - bufsize), h_s := Tr (h_s h) buf\<rparr>,
          drop (B - bufsize) data, 0))
      else (h, data, bufsize))"

function Write_chunks ::
  "nat \<Rightarrow> ('s \<Rightarrow> byte list \<Rightarrow> 's) \<Rightarrow> 's hasher \<Rightarrow> byte list \<Rightarrow> 's hasher \<times> byte list" where
  "Write_chunks B Tr h data =
     (if 0 < B \<and> B \<le> length data
      then Write_chunks B Tr (h\<lparr>h_s := Tr (h_s h) data, h_bytes := h_bytes h + of_nat B\<rparr>) (drop B data)
      else (h, data))"
  by pat_completeness auto
termination by (relation "measure (\<lambda>(B, Tr, h, data). length data)") auto

declare Write_chunks.simps [simp del]

definition Write_rest :: "'s hasher \<Rightarrow> byte list \<Rightarrow> nat \<Rightarrow> 's hasher" where
  "Write_rest h data bufsize =
     (if data \<noteq> []
      then h\<lparr>h_buf := memcpy_at (h_buf h) bufsize data, h_bytes := h_bytes h + of_nat (length data)\<rparr>
      else h)"

section \<open>Reference: absorbing a message block by block\<close>

primrec absorb_blocks :: "nat \<Rightarrow> ('s \<Rightarrow> byte list \<Rightarrow> 's) \<Rightarrow> nat \<Rightarrow> 's \<Rightarrow> byte list \<Rightarrow> 's" where
  "absorb_blocks B Tr 0 s m = s"
| "absorb_blocks B Tr (Suc n) s m = absorb_blocks B Tr n (Tr s (take B m)) (drop B m)"

definition absorb :: "nat \<Rightarrow> ('s \<Rightarrow> byte list \<Rightarrow> 's) \<Rightarrow> 's \<Rightarrow> byte list \<Rightarrow> 's" where
  "absorb B Tr s m = absorb_blocks B Tr (length m div B) s m"

definition absorbed :: "nat \<Rightarrow> ('s \<Rightarrow> byte list \<Rightarrow> 's) \<Rightarrow> 's \<Rightarrow> 's hasher \<Rightarrow> byte list \<Rightarrow> bool" where
  "absorbed B Tr iv h m \<longleftrightarrow>
     length (h_buf h) = B \<and> h_bytes h = of_nat (length m) \<and> h_s h = absorb B Tr iv m \<and>
     take (length m mod B) (h_buf h) = drop (length m - length m mod B) m"

lemma absorb_blocks_append:
  "length xs = k * B \<Longrightarrow>
   absorb_blocks B Tr (k + n) s (xs @ ys) = absorb_blocks B Tr n (absorb_blocks B Tr k s xs) ys"
proof (induction k arbitrary: s xs)
  case (Suc k)
  then have "B \<le> length xs" "length (drop B xs) = k * B" by simp_all
  with Suc.IH [of "drop B xs" "Tr s (take B xs)"] show ?case by simp
qed simp

lemma absorb_blocks_prefix:
  "k * B \<le> length xs \<Longrightarrow> absorb_blocks B Tr k s (xs @ ys) = absorb_blocks B Tr k s xs"
proof (induction k arbitrary: s xs)
  case (Suc k)
  then have "B \<le> length xs" "k * B \<le> length (drop B xs)" by simp_all
  with Suc.IH [of "drop B xs" "Tr s (take B xs)"] show ?case by simp
qed simp

lemma absorb_append:
  assumes "0 < B" "length xs mod B = 0"
  shows "absorb B Tr s (xs @ ys) = absorb B Tr (absorb B Tr s xs) ys"
proof -
  have "length xs = (length xs div B) * B" using assms by (simp add: minus_mod_eq_div_mult [symmetric])
  moreover have "length (xs @ ys) div B = length xs div B + length ys div B"
    using assms by (simp add: div_add1_eq)
  ultimately show ?thesis unfolding absorb_def by (simp add: absorb_blocks_append)
qed

lemma absorb_less [simp]: "length xs < B \<Longrightarrow> absorb B Tr s xs = s"
  by (simp add: absorb_def)

lemma absorb_one: "0 < B \<Longrightarrow> length xs = B \<Longrightarrow> absorb B Tr s xs = Tr s xs"
  by (simp add: absorb_def)

lemma absorb_cut:
  assumes "0 < B"
  shows "absorb B Tr s (take (length m - length m mod B) m) = absorb B Tr s m"
proof -
  define n where "n = length m - length m mod B"
  have n: "n mod B = 0" "n \<le> length m" by (simp_all add: n_def minus_mod_eq_mult_div)
  have r: "length (drop n m) < B" using assms by (simp add: n_def)
  have "absorb B Tr s m = absorb B Tr s (take n m @ drop n m)" by simp
  also have "\<dots> = absorb B Tr (absorb B Tr s (take n m)) (drop n m)"
    using n by (intro absorb_append [OF assms]) simp
  also have "\<dots> = absorb B Tr s (take n m)" using r by simp
  finally show ?thesis by (simp add: n_def)
qed

section \<open>The stages of Write keep the invariant\<close>

lemma absorbed_iff:
  assumes "0 < B"
  shows "absorbed B Tr iv h m \<longleftrightarrow>
    length (h_buf h) = B \<and> h_bytes h = of_nat (length m) \<and>
    (\<exists>m0 t. m = m0 @ t \<and> length m0 mod B = 0 \<and> length t < B \<and> h_s h = absorb B Tr iv m0 \<and>
            take (length t) (h_buf h) = t)" (is "?L \<longleftrightarrow> ?R")
proof
  assume a: ?L
  define n where "n = length m - length m mod B"
  have n: "n mod B = 0" "n \<le> length m" by (simp_all add: n_def minus_mod_eq_mult_div)
  have l: "length m - n = length m mod B"
    unfolding n_def by (rule diff_diff_cancel [OF mod_less_eq_dividend])
  have w: "h_s h = absorb B Tr iv (take n m)" "take (length (drop n m)) (h_buf h) = drop n m"
    using a absorb_cut [OF assms, of Tr iv m] by (simp_all add: absorbed_def l n_def [symmetric])
  have c: "length (take n m) mod B = 0" "length (drop n m) < B"
    using n l assms by (simp_all add: min_absorb2)
  have b: "length (h_buf h) = B" "h_bytes h = of_nat (length m)" using a by (simp_all add: absorbed_def)
  show ?R
    by (rule conjI [OF b(1) conjI [OF b(2)]], rule exI [of _ "take n m"], rule exI [of _ "drop n m"])
      (intro conjI w c, simp)
next
  assume ?R
  then obtain m0 t where m: "m = m0 @ t" "length m0 mod B = 0" "length t < B"
    and h: "h_s h = absorb B Tr iv m0" "take (length t) (h_buf h) = t"
    and b: "length (h_buf h) = B" "h_bytes h = of_nat (length m)" by (elim conjE exE) (rule that)
  have "length m mod B = length t" using m by (simp add: mod_add_eq [symmetric])
  then show ?L using m h b assms by (simp add: absorbed_def absorb_append)
qed

lemma absorbed_bufsize:
  assumes "absorbed B Tr iv h m" "B dvd 2 ^ 64"
  shows "unat (h_bytes h) mod B = length m mod B"
  using assms by (simp add: absorbed_def unat_of_nat mod_mod_cancel)

lemma Write_fill_absorbed:
  assumes B: "0 < B" "B dvd 2 ^ 64" and h: "absorbed B Tr iv h m"
    and eq: "Write_fill B Tr h data = (h', data', bufsize)"
  shows "\<exists>m'. absorbed B Tr iv h' m' \<and> m' @ data' = m @ data \<and> bufsize = length m' mod B \<and>
    (bufsize = 0 \<or> bufsize + length data' < B)"
proof (cases "length m mod B \<noteq> 0 \<and> B \<le> length m mod B + length data")
  case False
  then show ?thesis
    using eq h absorbed_bufsize [OF h B(2)] by (auto simp: Write_fill_def split: if_splits)
next
  case True
  obtain m0 t where m: "m = m0 @ t" "length m0 mod B = 0" "length t < B"
    and s: "h_s h = absorb B Tr iv m0" "take (length t) (h_buf h) = t"
    and b: "length (h_buf h) = B" "h_bytes h = of_nat (length m)"
    using h by (auto simp: absorbed_iff [OF B(1)])
  have lt: "length m mod B = length t" using m by (simp add: mod_add_eq [symmetric])
  let ?d = "take (B - length t) data"
  have ld: "length ?d = B - length t" using True lt by auto
  have buf: "memcpy_at (h_buf h) (length t) ?d = t @ ?d" using s b m ld by (simp add: memcpy_at_def)
  have "absorbed B Tr iv h' (m @ ?d)"
  proof (unfold absorbed_iff [OF B(1)], intro conjI exI)
    show "m @ ?d = (m0 @ t @ ?d) @ []" by (simp add: m)
    have "h_s h' = Tr (absorb B Tr iv m0) (t @ ?d)"
      using eq True lt s buf absorbed_bufsize [OF h B(2)] by (auto simp: Write_fill_def Let_def)
    also have "\<dots> = absorb B Tr iv (m0 @ t @ ?d)"
      using m ld B by (simp add: absorb_append absorb_one)
    finally show "h_s h' = absorb B Tr iv (m0 @ t @ ?d)" .
  qed (use eq True lt b m ld buf B absorbed_bufsize [OF h B(2)] in \<open>auto simp: Write_fill_def Let_def\<close>)
  moreover have "(length m + (B - length t)) mod B = 0"
    using m by (simp add: mod_add_left_eq [symmetric])
  ultimately show ?thesis
    using eq True lt ld absorbed_bufsize [OF h B(2)]
    by (intro exI [of _ "m @ ?d"]) (auto simp: Write_fill_def Let_def)
qed

lemma absorbed_step:
  assumes B: "0 < B" and Tr: "\<And>s d. Tr s (take B d) = Tr s d"
    and h: "absorbed B Tr iv h m" "length m mod B = 0" and d: "B \<le> length data"
  shows "absorbed B Tr iv (h\<lparr>h_s := Tr (h_s h) data, h_bytes := h_bytes h + of_nat B\<rparr>) (m @ take B data)"
proof -
  have "absorb B Tr iv (m @ take B data) = Tr (absorb B Tr iv m) data"
    using absorb_append [OF B h(2), of Tr iv "take B data"] d by (simp add: absorb_one B Tr min_absorb2)
  then show ?thesis using h d by (simp add: absorbed_def min_absorb2)
qed

lemma Write_chunks_absorbed:
  assumes B: "0 < B" and Tr: "\<And>s d. Tr s (take B d) = Tr s d"
    and h: "absorbed B Tr iv h m" "length m mod B = 0"
    and eq: "Write_chunks B Tr h data = (h', data')"
  shows "\<exists>m'. absorbed B Tr iv h' m' \<and> m' @ data' = m @ data \<and> length m' mod B = 0 \<and> length data' < B"
  using B Tr h eq
proof (induction B Tr h data arbitrary: m rule: Write_chunks.induct [case_names step])
  case (step B Tr h data)
  show ?case
  proof (cases "B \<le> length data")
    case True
    let ?h = "h\<lparr>h_s := Tr (h_s h) data, h_bytes := h_bytes h + of_nat B\<rparr>"
    have "Write_chunks B Tr ?h (drop B data) = (h', data')"
      using step.prems True by (simp add: Write_chunks.simps [of B Tr h data])
    moreover have "absorbed B Tr iv ?h (m @ take B data)"
      using step.prems True by (intro absorbed_step)
    ultimately obtain m' where "absorbed B Tr iv h' m'" "m' @ data' = (m @ take B data) @ drop B data"
      "length m' mod B = 0" "length data' < B"
      using step.IH [of "m @ take B data"] step.prems True by (auto simp: min_absorb2)
    then show ?thesis by auto
  next
    case False
    then show ?thesis using step.prems by (auto simp: Write_chunks.simps [of B Tr h data])
  qed
qed

lemma Write_rest_absorbed:
  assumes B: "0 < B" and h: "absorbed B Tr iv h m"
    and d: "length m mod B + length data < B"
  shows "absorbed B Tr iv (Write_rest h data (length m mod B)) (m @ data)"
proof -
  obtain m0 t where m: "m = m0 @ t" "length m0 mod B = 0" "length t < B"
    and s: "h_s h = absorb B Tr iv m0" "take (length t) (h_buf h) = t"
    and b: "length (h_buf h) = B" "h_bytes h = of_nat (length m)"
    using h by (auto simp: absorbed_iff [OF B])
  have lt: "length m mod B = length t" using m by (simp add: mod_add_eq [symmetric])
  have "absorbed B Tr iv (Write_rest h data (length t)) (m0 @ t @ data)"
  proof (unfold absorbed_iff [OF B], intro conjI exI)
    show "m0 @ t @ data = m0 @ (t @ data)" by simp
  qed (use m s b d lt in \<open>simp_all add: Write_rest_def memcpy_at_def\<close>)
  then show ?thesis unfolding lt by (simp add: m(1))
qed

lemma Write_stages_absorbed:
  assumes B: "0 < B" "B dvd 2 ^ 64" and Tr: "\<And>s d. Tr s (take B d) = Tr s d"
    and h: "absorbed B Tr iv h m"
    and fill: "Write_fill B Tr h data = (h1, data1, bufsize)"
    and chunks: "Write_chunks B Tr h1 data1 = (h2, data2)"
  shows "absorbed B Tr iv (Write_rest h2 data2 bufsize) (m @ data)"
proof -
  obtain m1 where m1: "absorbed B Tr iv h1 m1" "m1 @ data1 = m @ data" "bufsize = length m1 mod B"
    "bufsize = 0 \<or> bufsize + length data1 < B"
    using Write_fill_absorbed [OF B h fill] by (elim exE conjE) (rule that)
  obtain m2 where m2: "absorbed B Tr iv h2 m2" "m2 @ data2 = m1 @ data1" "bufsize = length m2 mod B"
    "bufsize + length data2 < B"
  proof (cases "bufsize = 0")
    case True
    then have "length m1 mod B = 0" using m1(3) by simp
    from Write_chunks_absorbed [OF B(1) Tr m1(1) this chunks] True show ?thesis
      by (elim exE conjE) (auto intro: that)
  next
    case False
    then show ?thesis using chunks m1 that by (simp add: Write_chunks.simps [of B Tr h1])
  qed
  show ?thesis using Write_rest_absorbed [OF B(1) m2(1), of data2] m1(2) m2(2-4) by simp
qed

lemma Write_chunks_blocks:
  assumes B: "0 < B" and Tr: "\<And>s d. Tr s (take B d) = Tr s d"
  shows "Write_chunks B Tr h data =
    (h\<lparr>h_s := absorb B Tr (h_s h) data, h_bytes := h_bytes h + of_nat (B * (length data div B))\<rparr>,
     drop (B * (length data div B)) data)"
  using B Tr
proof (induction B Tr h data rule: Write_chunks.induct [case_names step])
  case (step B Tr h data)
  show ?case
  proof (cases "B \<le> length data")
    case True
    then have "length data div B = Suc ((length data - B) div B)"
      using step.prems(1) by (simp add: div_if [of "length data" B])
    then show ?thesis
      using step True by (simp add: Write_chunks.simps [of B Tr h data] absorb_def add_ac)
  qed (simp add: Write_chunks.simps [of B Tr h data])
qed

section \<open>The contract of a block hasher\<close>

locale block_hasher =
  fixes B :: nat and Tr :: "'s \<Rightarrow> byte list \<Rightarrow> 's" and Wr :: "'s hasher \<Rightarrow> byte list \<Rightarrow> 's hasher"
  assumes B_pos: "0 < B"
    and B_dvd: "B dvd 2 ^ 64"
    and Write_absorbs: "absorbed B Tr iv h m \<Longrightarrow> absorbed B Tr iv (Wr h d) (m @ d)"
begin

lemma writes_absorb: "absorbed B Tr iv h m \<Longrightarrow> absorbed B Tr iv (foldl Wr h ds) (m @ concat ds)"
proof (induction ds arbitrary: h m)
  case (Cons d ds)
  from Cons.IH [OF Write_absorbs [OF Cons.prems, of d]] show ?case by simp
qed simp

lemma new_absorbed: "length buf = B \<Longrightarrow> absorbed B Tr iv \<lparr>h_s = iv, h_buf = buf, h_bytes = 0\<rparr> []"
  using B_pos by (simp add: absorbed_def)

lemma absorbed_state: "absorbed B Tr iv h m \<Longrightarrow> h_s h = absorb B Tr iv m"
  by (simp add: absorbed_def)

lemma absorbed_bytes: "absorbed B Tr iv h m \<Longrightarrow> h_bytes h = of_nat (length m)"
  by (simp add: absorbed_def)

lemma absorbed_mod: "absorbed B Tr iv h m \<Longrightarrow> unat (h_bytes h) mod B = length m mod B"
  by (rule absorbed_bufsize [OF _ B_dvd])

lemma absorbed_bits: "absorbed B Tr iv h m \<Longrightarrow> push_bit 3 (h_bytes h) = of_nat (8 * length m)"
  by (simp add: absorbed_def push_bit_eq_mult)

lemma pad_taken:
  assumes "absorbed B Tr iv h m" "B = 64"
  shows "take (1 + (119 - unat (h_bytes h) mod 64) mod 64) (0x80 # replicate 63 0) =
    (0x80 # replicate ((119 - length m mod 64) mod 64) 0 :: byte list)"
  using absorbed_mod [OF assms(1)] assms(2) by (simp add: min_absorb1)

lemma padded_state:
  assumes "absorbed B Tr iv h m"
  shows "h_s (Wr (Wr h pad) sz) = absorb B Tr iv (m @ pad @ sz)"
  using absorbed_state [OF Write_absorbs [OF Write_absorbs [OF assms]]] by simp

end

end
