(* ===== verification/Sha256.thy ===== *)
theory Sha256
  imports Hasher
begin

unbundle bit_operations_syntax

text \<open>
  SHA-256: \<^verbatim>\<open>src/crypto/sha256.cpp\<close>.  \<open>sha256_rounds0\<close> to \<open>sha256_rounds3\<close> are the sixty-four
  unrolled \<open>Round\<close> calls of \<open>Transform\<close>, sixteen each, in the register order and with the
  in-place message window of the source; \<open>CSHA256_Write\<close> and \<open>CSHA256_Finalize\<close> are the class.

  \<open>sha256_spec\<close> is the textbook definition: pad, expand the message schedule by its recurrence,
  shift the eight working variables through sixty-four rounds.  The class computes it, whatever
  the calls of \<open>Write\<close> were, and the routine's own self test passes.
\<close>

section \<open>Transform\<close>

type_synonym word32 = "32 word"
type_synonym sha256_state = "word32 \<times> word32 \<times> word32 \<times> word32 \<times> word32 \<times> word32 \<times> word32 \<times> word32"
type_synonym sha256_window = "word32 \<times> word32 \<times> word32 \<times> word32 \<times> word32 \<times> word32 \<times> word32 \<times> word32 \<times>
  word32 \<times> word32 \<times> word32 \<times> word32 \<times> word32 \<times> word32 \<times> word32 \<times> word32"

definition sha256_Ch :: "word32 \<Rightarrow> word32 \<Rightarrow> word32 \<Rightarrow> word32" where
  "sha256_Ch x y z = z XOR (x AND (y XOR z))"

definition sha256_Maj :: "word32 \<Rightarrow> word32 \<Rightarrow> word32 \<Rightarrow> word32" where
  "sha256_Maj x y z = (x AND y) OR (z AND (x OR y))"

definition sha256_Sigma0 :: "word32 \<Rightarrow> word32" where
  "sha256_Sigma0 x = (drop_bit 2 x OR push_bit 30 x) XOR (drop_bit 13 x OR push_bit 19 x) XOR
     (drop_bit 22 x OR push_bit 10 x)"

definition sha256_Sigma1 :: "word32 \<Rightarrow> word32" where
  "sha256_Sigma1 x = (drop_bit 6 x OR push_bit 26 x) XOR (drop_bit 11 x OR push_bit 21 x) XOR
     (drop_bit 25 x OR push_bit 7 x)"

definition sha256_sigma0 :: "word32 \<Rightarrow> word32" where
  "sha256_sigma0 x = (drop_bit 7 x OR push_bit 25 x) XOR (drop_bit 18 x OR push_bit 14 x) XOR drop_bit 3 x"

definition sha256_sigma1 :: "word32 \<Rightarrow> word32" where
  "sha256_sigma1 x = (drop_bit 17 x OR push_bit 15 x) XOR (drop_bit 19 x OR push_bit 13 x) XOR drop_bit 10 x"

text \<open>\<open>Round\<close> updates \<open>d\<close> and \<open>h\<close> through references; the model returns the pair.\<close>

definition sha256_Round ::
  "word32 \<Rightarrow> word32 \<Rightarrow> word32 \<Rightarrow> word32 \<Rightarrow> word32 \<Rightarrow> word32 \<Rightarrow> word32 \<Rightarrow> word32 \<Rightarrow> word32 \<Rightarrow> word32 \<Rightarrow>
   word32 \<times> word32" where
  "sha256_Round a b c d e f g h k w =
     (let t1 = h + sha256_Sigma1 e + sha256_Ch e f g + k + w;
          t2 = sha256_Sigma0 a + sha256_Maj a b c
      in (d + t1, t1 + t2))"

definition sha256_Initialize :: sha256_state where
  "sha256_Initialize = (0x6a09e667, 0xbb67ae85, 0x3c6ef372, 0xa54ff53a, 0x510e527f, 0x9b05688c, 0x1f83d9ab, 0x5be0cd19)"

definition sha256_rounds0 :: "sha256_state \<Rightarrow> byte list \<Rightarrow> sha256_state \<times> sha256_window" where
  "sha256_rounds0 = (\<lambda>(a, b, c, d, e, f, g, h) chunk.
    (let w0 = ReadBE32 (drop 0 chunk);
     (d, h) = sha256_Round a b c d e f g h 0x428a2f98 w0;
     w1 = ReadBE32 (drop 4 chunk);
     (c, g) = sha256_Round h a b c d e f g 0x71374491 w1;
     w2 = ReadBE32 (drop 8 chunk);
     (b, f) = sha256_Round g h a b c d e f 0xb5c0fbcf w2;
     w3 = ReadBE32 (drop 12 chunk);
     (a, e) = sha256_Round f g h a b c d e 0xe9b5dba5 w3;
     w4 = ReadBE32 (drop 16 chunk);
     (h, d) = sha256_Round e f g h a b c d 0x3956c25b w4;
     w5 = ReadBE32 (drop 20 chunk);
     (g, c) = sha256_Round d e f g h a b c 0x59f111f1 w5;
     w6 = ReadBE32 (drop 24 chunk);
     (f, b) = sha256_Round c d e f g h a b 0x923f82a4 w6;
     w7 = ReadBE32 (drop 28 chunk);
     (e, a) = sha256_Round b c d e f g h a 0xab1c5ed5 w7;
     w8 = ReadBE32 (drop 32 chunk);
     (d, h) = sha256_Round a b c d e f g h 0xd807aa98 w8;
     w9 = ReadBE32 (drop 36 chunk);
     (c, g) = sha256_Round h a b c d e f g 0x12835b01 w9;
     w10 = ReadBE32 (drop 40 chunk);
     (b, f) = sha256_Round g h a b c d e f 0x243185be w10;
     w11 = ReadBE32 (drop 44 chunk);
     (a, e) = sha256_Round f g h a b c d e 0x550c7dc3 w11;
     w12 = ReadBE32 (drop 48 chunk);
     (h, d) = sha256_Round e f g h a b c d 0x72be5d74 w12;
     w13 = ReadBE32 (drop 52 chunk);
     (g, c) = sha256_Round d e f g h a b c 0x80deb1fe w13;
     w14 = ReadBE32 (drop 56 chunk);
     (f, b) = sha256_Round c d e f g h a b 0x9bdc06a7 w14;
     w15 = ReadBE32 (drop 60 chunk);
     (e, a) = sha256_Round b c d e f g h a 0xc19bf174 w15
     in ((a, b, c, d, e, f, g, h), (w0, w1, w2, w3, w4, w5, w6, w7, w8, w9, w10, w11, w12, w13, w14, w15))))"

definition sha256_rounds1 :: "sha256_state \<times> sha256_window \<Rightarrow> sha256_state \<times> sha256_window" where
  "sha256_rounds1 = (\<lambda>((a, b, c, d, e, f, g, h), (w0, w1, w2, w3, w4, w5, w6, w7, w8, w9, w10, w11, w12, w13, w14, w15)).
    (let w0 = w0 + (sha256_sigma1 w14 + w9 + sha256_sigma0 w1);
     (d, h) = sha256_Round a b c d e f g h 0xe49b69c1 w0;
     w1 = w1 + (sha256_sigma1 w15 + w10 + sha256_sigma0 w2);
     (c, g) = sha256_Round h a b c d e f g 0xefbe4786 w1;
     w2 = w2 + (sha256_sigma1 w0 + w11 + sha256_sigma0 w3);
     (b, f) = sha256_Round g h a b c d e f 0x0fc19dc6 w2;
     w3 = w3 + (sha256_sigma1 w1 + w12 + sha256_sigma0 w4);
     (a, e) = sha256_Round f g h a b c d e 0x240ca1cc w3;
     w4 = w4 + (sha256_sigma1 w2 + w13 + sha256_sigma0 w5);
     (h, d) = sha256_Round e f g h a b c d 0x2de92c6f w4;
     w5 = w5 + (sha256_sigma1 w3 + w14 + sha256_sigma0 w6);
     (g, c) = sha256_Round d e f g h a b c 0x4a7484aa w5;
     w6 = w6 + (sha256_sigma1 w4 + w15 + sha256_sigma0 w7);
     (f, b) = sha256_Round c d e f g h a b 0x5cb0a9dc w6;
     w7 = w7 + (sha256_sigma1 w5 + w0 + sha256_sigma0 w8);
     (e, a) = sha256_Round b c d e f g h a 0x76f988da w7;
     w8 = w8 + (sha256_sigma1 w6 + w1 + sha256_sigma0 w9);
     (d, h) = sha256_Round a b c d e f g h 0x983e5152 w8;
     w9 = w9 + (sha256_sigma1 w7 + w2 + sha256_sigma0 w10);
     (c, g) = sha256_Round h a b c d e f g 0xa831c66d w9;
     w10 = w10 + (sha256_sigma1 w8 + w3 + sha256_sigma0 w11);
     (b, f) = sha256_Round g h a b c d e f 0xb00327c8 w10;
     w11 = w11 + (sha256_sigma1 w9 + w4 + sha256_sigma0 w12);
     (a, e) = sha256_Round f g h a b c d e 0xbf597fc7 w11;
     w12 = w12 + (sha256_sigma1 w10 + w5 + sha256_sigma0 w13);
     (h, d) = sha256_Round e f g h a b c d 0xc6e00bf3 w12;
     w13 = w13 + (sha256_sigma1 w11 + w6 + sha256_sigma0 w14);
     (g, c) = sha256_Round d e f g h a b c 0xd5a79147 w13;
     w14 = w14 + (sha256_sigma1 w12 + w7 + sha256_sigma0 w15);
     (f, b) = sha256_Round c d e f g h a b 0x06ca6351 w14;
     w15 = w15 + (sha256_sigma1 w13 + w8 + sha256_sigma0 w0);
     (e, a) = sha256_Round b c d e f g h a 0x14292967 w15
     in ((a, b, c, d, e, f, g, h), (w0, w1, w2, w3, w4, w5, w6, w7, w8, w9, w10, w11, w12, w13, w14, w15))))"

definition sha256_rounds2 :: "sha256_state \<times> sha256_window \<Rightarrow> sha256_state \<times> sha256_window" where
  "sha256_rounds2 = (\<lambda>((a, b, c, d, e, f, g, h), (w0, w1, w2, w3, w4, w5, w6, w7, w8, w9, w10, w11, w12, w13, w14, w15)).
    (let w0 = w0 + (sha256_sigma1 w14 + w9 + sha256_sigma0 w1);
     (d, h) = sha256_Round a b c d e f g h 0x27b70a85 w0;
     w1 = w1 + (sha256_sigma1 w15 + w10 + sha256_sigma0 w2);
     (c, g) = sha256_Round h a b c d e f g 0x2e1b2138 w1;
     w2 = w2 + (sha256_sigma1 w0 + w11 + sha256_sigma0 w3);
     (b, f) = sha256_Round g h a b c d e f 0x4d2c6dfc w2;
     w3 = w3 + (sha256_sigma1 w1 + w12 + sha256_sigma0 w4);
     (a, e) = sha256_Round f g h a b c d e 0x53380d13 w3;
     w4 = w4 + (sha256_sigma1 w2 + w13 + sha256_sigma0 w5);
     (h, d) = sha256_Round e f g h a b c d 0x650a7354 w4;
     w5 = w5 + (sha256_sigma1 w3 + w14 + sha256_sigma0 w6);
     (g, c) = sha256_Round d e f g h a b c 0x766a0abb w5;
     w6 = w6 + (sha256_sigma1 w4 + w15 + sha256_sigma0 w7);
     (f, b) = sha256_Round c d e f g h a b 0x81c2c92e w6;
     w7 = w7 + (sha256_sigma1 w5 + w0 + sha256_sigma0 w8);
     (e, a) = sha256_Round b c d e f g h a 0x92722c85 w7;
     w8 = w8 + (sha256_sigma1 w6 + w1 + sha256_sigma0 w9);
     (d, h) = sha256_Round a b c d e f g h 0xa2bfe8a1 w8;
     w9 = w9 + (sha256_sigma1 w7 + w2 + sha256_sigma0 w10);
     (c, g) = sha256_Round h a b c d e f g 0xa81a664b w9;
     w10 = w10 + (sha256_sigma1 w8 + w3 + sha256_sigma0 w11);
     (b, f) = sha256_Round g h a b c d e f 0xc24b8b70 w10;
     w11 = w11 + (sha256_sigma1 w9 + w4 + sha256_sigma0 w12);
     (a, e) = sha256_Round f g h a b c d e 0xc76c51a3 w11;
     w12 = w12 + (sha256_sigma1 w10 + w5 + sha256_sigma0 w13);
     (h, d) = sha256_Round e f g h a b c d 0xd192e819 w12;
     w13 = w13 + (sha256_sigma1 w11 + w6 + sha256_sigma0 w14);
     (g, c) = sha256_Round d e f g h a b c 0xd6990624 w13;
     w14 = w14 + (sha256_sigma1 w12 + w7 + sha256_sigma0 w15);
     (f, b) = sha256_Round c d e f g h a b 0xf40e3585 w14;
     w15 = w15 + (sha256_sigma1 w13 + w8 + sha256_sigma0 w0);
     (e, a) = sha256_Round b c d e f g h a 0x106aa070 w15
     in ((a, b, c, d, e, f, g, h), (w0, w1, w2, w3, w4, w5, w6, w7, w8, w9, w10, w11, w12, w13, w14, w15))))"

definition sha256_rounds3 :: "sha256_state \<times> sha256_window \<Rightarrow> sha256_state \<times> sha256_window" where
  "sha256_rounds3 = (\<lambda>((a, b, c, d, e, f, g, h), (w0, w1, w2, w3, w4, w5, w6, w7, w8, w9, w10, w11, w12, w13, w14, w15)).
    (let w0 = w0 + (sha256_sigma1 w14 + w9 + sha256_sigma0 w1);
     (d, h) = sha256_Round a b c d e f g h 0x19a4c116 w0;
     w1 = w1 + (sha256_sigma1 w15 + w10 + sha256_sigma0 w2);
     (c, g) = sha256_Round h a b c d e f g 0x1e376c08 w1;
     w2 = w2 + (sha256_sigma1 w0 + w11 + sha256_sigma0 w3);
     (b, f) = sha256_Round g h a b c d e f 0x2748774c w2;
     w3 = w3 + (sha256_sigma1 w1 + w12 + sha256_sigma0 w4);
     (a, e) = sha256_Round f g h a b c d e 0x34b0bcb5 w3;
     w4 = w4 + (sha256_sigma1 w2 + w13 + sha256_sigma0 w5);
     (h, d) = sha256_Round e f g h a b c d 0x391c0cb3 w4;
     w5 = w5 + (sha256_sigma1 w3 + w14 + sha256_sigma0 w6);
     (g, c) = sha256_Round d e f g h a b c 0x4ed8aa4a w5;
     w6 = w6 + (sha256_sigma1 w4 + w15 + sha256_sigma0 w7);
     (f, b) = sha256_Round c d e f g h a b 0x5b9cca4f w6;
     w7 = w7 + (sha256_sigma1 w5 + w0 + sha256_sigma0 w8);
     (e, a) = sha256_Round b c d e f g h a 0x682e6ff3 w7;
     w8 = w8 + (sha256_sigma1 w6 + w1 + sha256_sigma0 w9);
     (d, h) = sha256_Round a b c d e f g h 0x748f82ee w8;
     w9 = w9 + (sha256_sigma1 w7 + w2 + sha256_sigma0 w10);
     (c, g) = sha256_Round h a b c d e f g 0x78a5636f w9;
     w10 = w10 + (sha256_sigma1 w8 + w3 + sha256_sigma0 w11);
     (b, f) = sha256_Round g h a b c d e f 0x84c87814 w10;
     w11 = w11 + (sha256_sigma1 w9 + w4 + sha256_sigma0 w12);
     (a, e) = sha256_Round f g h a b c d e 0x8cc70208 w11;
     w12 = w12 + (sha256_sigma1 w10 + w5 + sha256_sigma0 w13);
     (h, d) = sha256_Round e f g h a b c d 0x90befffa w12;
     w13 = w13 + (sha256_sigma1 w11 + w6 + sha256_sigma0 w14);
     (g, c) = sha256_Round d e f g h a b c 0xa4506ceb w13;
     (f, b) = sha256_Round c d e f g h a b 0xbef9a3f7 (w14 + sha256_sigma1 w12 + w7 + sha256_sigma0 w15);
     (e, a) = sha256_Round b c d e f g h a 0xc67178f2 (w15 + sha256_sigma1 w13 + w8 + sha256_sigma0 w0)
     in ((a, b, c, d, e, f, g, h), (w0, w1, w2, w3, w4, w5, w6, w7, w8, w9, w10, w11, w12, w13, w14, w15))))"

fun sha256_block :: "sha256_state \<Rightarrow> byte list \<Rightarrow> sha256_state" where
  "sha256_block (s0, s1, s2, s3, s4, s5, s6, s7) chunk =
     (case sha256_rounds3 (sha256_rounds2 (sha256_rounds1
             (sha256_rounds0 (s0, s1, s2, s3, s4, s5, s6, s7) chunk))) of
        ((a, b, c, d, e, f, g, h), w) \<Rightarrow>
          (s0 + a, s1 + b, s2 + c, s3 + d, s4 + e, s5 + f, s6 + g, s7 + h))"

declare sha256_block.simps [simp del]

primrec sha256_Transform :: "sha256_state \<Rightarrow> byte list \<Rightarrow> nat \<Rightarrow> sha256_state" where
  "sha256_Transform s chunk 0 = s"
| "sha256_Transform s chunk (Suc blocks) = sha256_Transform (sha256_block s chunk) (drop 64 chunk) blocks"

text \<open>\<open>SelfTest\<close> with the compiled-in routine; \<open>in1 + 1\<close> and \<open>in2 + 1\<close> are the lists.\<close>

definition sha256_in1 :: "byte list" where
  "sha256_in1 = 0x80 # replicate 63 0"

definition sha256_in2 :: "byte list" where
  "sha256_in2 = replicate 64 32 @ [0x80] @ replicate 61 0 @ [2, 0]"

definition SelfTest :: "(sha256_state \<Rightarrow> byte list \<Rightarrow> nat \<Rightarrow> sha256_state) \<Rightarrow> bool" where
  "SelfTest tr =
     (let init = (0x6a09e667, 0xbb67ae85, 0x3c6ef372, 0xa54ff53a, 0x510e527f, 0x9b05688c, 0x1f83d9ab, 0x5be0cd19);
          out1 = (0xe3b0c442, 0x98fc1c14, 0x9afbf4c8, 0x996fb924, 0x27ae41e4, 0x649b934c, 0xa495991b, 0x7852b855);
          out2 = (0xce4153b0, 0x147c2a86, 0x3ed4298e, 0xe0676bc8, 0x79fc77a1, 0x2abe1f49, 0xb2b055df, 0x1069523e)
      in tr init [] 0 = init \<and> tr (tr init [] 0) sha256_in1 1 = out1 \<and> tr init sha256_in2 2 = out2)"

section \<open>The class CSHA256\<close>

definition CSHA256 :: "byte list \<Rightarrow> sha256_state hasher" where
  "CSHA256 buf = \<lparr>h_s = sha256_Initialize, h_buf = buf, h_bytes = 0\<rparr>"

definition CSHA256_Write :: "sha256_state hasher \<Rightarrow> byte list \<Rightarrow> sha256_state hasher" where
  "CSHA256_Write h data =
     (let (h, data, bufsize) = Write_fill 64 (\<lambda>s buf. sha256_Transform s buf 1) h data;
          (h, data) =
            (if 64 \<le> length data
             then (let blocks = length data div 64 in
                   (h\<lparr>h_s := sha256_Transform (h_s h) data blocks, h_bytes := h_bytes h + of_nat (64 * blocks)\<rparr>,
                    drop (64 * blocks) data))
             else (h, data))
      in Write_rest h data bufsize)"

fun sha256_output :: "sha256_state \<Rightarrow> byte list" where
  "sha256_output (s0, s1, s2, s3, s4, s5, s6, s7) =
     (WriteBE32 s0 @ WriteBE32 s1 @ WriteBE32 s2 @ WriteBE32 s3 @
     WriteBE32 s4 @ WriteBE32 s5 @ WriteBE32 s6 @ WriteBE32 s7)"

text \<open>\<open>CSHA256_finish\<close> is the object \<open>Finalize\<close> leaves behind, \<open>CSHA256_Finalize\<close> the bytes it outputs.\<close>

definition CSHA256_finish :: "sha256_state hasher \<Rightarrow> sha256_state hasher" where
  "CSHA256_finish h =
     (let pad = 0x80 # replicate 63 0;
          sizedesc = WriteBE64 (push_bit 3 (h_bytes h));
          h = CSHA256_Write h (take (1 + (119 - unat (h_bytes h) mod 64) mod 64) pad)
      in CSHA256_Write h sizedesc)"

definition CSHA256_Finalize :: "sha256_state hasher \<Rightarrow> byte list" where
  "CSHA256_Finalize h = sha256_output (h_s (CSHA256_finish h))"

definition CSHA256_Reset :: "sha256_state hasher \<Rightarrow> sha256_state hasher" where
  "CSHA256_Reset h = h\<lparr>h_bytes := 0, h_s := sha256_Initialize\<rparr>"

section \<open>Reference\<close>

text \<open>The textbook compression function: schedule by recurrence, eight shifting variables.\<close>

definition sha256_K0 :: "word32 list" where
  "sha256_K0 =
    [0x428a2f98, 0x71374491, 0xb5c0fbcf, 0xe9b5dba5, 0x3956c25b, 0x59f111f1, 0x923f82a4, 0xab1c5ed5] @
    [0xd807aa98, 0x12835b01, 0x243185be, 0x550c7dc3, 0x72be5d74, 0x80deb1fe, 0x9bdc06a7, 0xc19bf174]"

definition sha256_K1 :: "word32 list" where
  "sha256_K1 =
    [0xe49b69c1, 0xefbe4786, 0x0fc19dc6, 0x240ca1cc, 0x2de92c6f, 0x4a7484aa, 0x5cb0a9dc, 0x76f988da] @
    [0x983e5152, 0xa831c66d, 0xb00327c8, 0xbf597fc7, 0xc6e00bf3, 0xd5a79147, 0x06ca6351, 0x14292967]"

definition sha256_K2 :: "word32 list" where
  "sha256_K2 =
    [0x27b70a85, 0x2e1b2138, 0x4d2c6dfc, 0x53380d13, 0x650a7354, 0x766a0abb, 0x81c2c92e, 0x92722c85] @
    [0xa2bfe8a1, 0xa81a664b, 0xc24b8b70, 0xc76c51a3, 0xd192e819, 0xd6990624, 0xf40e3585, 0x106aa070]"

definition sha256_K3 :: "word32 list" where
  "sha256_K3 =
    [0x19a4c116, 0x1e376c08, 0x2748774c, 0x34b0bcb5, 0x391c0cb3, 0x4ed8aa4a, 0x5b9cca4f, 0x682e6ff3] @
    [0x748f82ee, 0x78a5636f, 0x84c87814, 0x8cc70208, 0x90befffa, 0xa4506ceb, 0xbef9a3f7, 0xc67178f2]"

definition sha256_K :: "word32 list" where
  "sha256_K = sha256_K0 @ sha256_K1 @ sha256_K2 @ sha256_K3"

fun sha256_W :: "byte list \<Rightarrow> nat \<Rightarrow> word32" where
  "sha256_W M t =
     (if t < 16 then ReadBE32 (drop (4 * t) M)
      else sha256_sigma1 (sha256_W M (t - 2)) + sha256_W M (t - 7) +
           sha256_sigma0 (sha256_W M (t - 15)) + sha256_W M (t - 16))"

declare sha256_W.simps [simp del]

fun sha256_step :: "word32 \<Rightarrow> word32 \<Rightarrow> sha256_state \<Rightarrow> sha256_state" where
  "sha256_step k w (a, b, c, d, e, f, g, h) =
     (let t1 = h + sha256_Sigma1 e + sha256_Ch e f g + k + w;
          t2 = sha256_Sigma0 a + sha256_Maj a b c
      in (t1 + t2, a, b, c, d + t1, e, f, g))"

declare sha256_step.simps [simp del]

fun sha256_add :: "sha256_state \<Rightarrow> sha256_state \<Rightarrow> sha256_state" where
  "sha256_add (a, b, c, d, e, f, g, h) (a', b', c', d', e', f', g', h') =
     (a + a', b + b', c + c', d + d', e + e', f + f', g + g', h + h')"

fun sha256_steps :: "byte list \<Rightarrow> nat \<Rightarrow> word32 list \<Rightarrow> sha256_state \<Rightarrow> sha256_state" where
  "sha256_steps M t [] s = s"
| "sha256_steps M t (k # ks) s = sha256_steps M (Suc t) ks (sha256_step k (sha256_W M t) s)"

definition sha256_compress :: "sha256_state \<Rightarrow> byte list \<Rightarrow> sha256_state" where
  "sha256_compress s M = sha256_add s (sha256_steps M 0 sha256_K s)"

definition sha256_pad :: "byte list \<Rightarrow> byte list" where
  "sha256_pad m = 0x80 # replicate ((119 - length m mod 64) mod 64) 0 @ WriteBE64 (of_nat (8 * length m))"

definition sha256_spec :: "byte list \<Rightarrow> byte list" where
  "sha256_spec m = sha256_output (absorb 64 sha256_compress sha256_Initialize (m @ sha256_pad m))"

section \<open>The unrolled rounds compute the reference\<close>

definition sha256_window :: "(nat \<Rightarrow> word32) \<Rightarrow> nat \<Rightarrow> sha256_window" where
  "sha256_window w t = (w t, w (t + 1), w (t + 2), w (t + 3), w (t + 4), w (t + 5), w (t + 6), w (t + 7),
     w (t + 8), w (t + 9), w (t + 10), w (t + 11), w (t + 12), w (t + 13), w (t + 14), w (t + 15))"

lemma sha256_W_0: "t < 16 \<Longrightarrow> sha256_W M t = ReadBE32 (drop (4 * t) M)"
  by (simp add: sha256_W.simps [of M t])

lemma sha256_W_rec:
  assumes "16 \<le> t"
  shows "sha256_W M (t - 16) + (sha256_sigma1 (sha256_W M (t - 2)) + sha256_W M (t - 7) + sha256_sigma0 (sha256_W M (t - 15)))
    = sha256_W M t"
  using assms by (simp add: sha256_W.simps [of M t] add_ac)

lemmas sha256_W_last =
  sha256_W_rec [of 62, simplified, folded add.assoc] sha256_W_rec [of 63, simplified, folded add.assoc]

lemmas sha256_W_next = 
  sha256_W_rec [of 16, simplified, folded One_nat_def]
  sha256_W_rec [of 17, simplified, folded One_nat_def]
  sha256_W_rec [of 18, simplified, folded One_nat_def]
  sha256_W_rec [of 19, simplified, folded One_nat_def]
  sha256_W_rec [of 20, simplified, folded One_nat_def]
  sha256_W_rec [of 21, simplified, folded One_nat_def]
  sha256_W_rec [of 22, simplified, folded One_nat_def]
  sha256_W_rec [of 23, simplified, folded One_nat_def]
  sha256_W_rec [of 24, simplified, folded One_nat_def]
  sha256_W_rec [of 25, simplified, folded One_nat_def]
  sha256_W_rec [of 26, simplified, folded One_nat_def]
  sha256_W_rec [of 27, simplified, folded One_nat_def]
  sha256_W_rec [of 28, simplified, folded One_nat_def]
  sha256_W_rec [of 29, simplified, folded One_nat_def]
  sha256_W_rec [of 30, simplified, folded One_nat_def]
  sha256_W_rec [of 31, simplified, folded One_nat_def]
  sha256_W_rec [of 32, simplified, folded One_nat_def]
  sha256_W_rec [of 33, simplified, folded One_nat_def]
  sha256_W_rec [of 34, simplified, folded One_nat_def]
  sha256_W_rec [of 35, simplified, folded One_nat_def]
  sha256_W_rec [of 36, simplified, folded One_nat_def]
  sha256_W_rec [of 37, simplified, folded One_nat_def]
  sha256_W_rec [of 38, simplified, folded One_nat_def]
  sha256_W_rec [of 39, simplified, folded One_nat_def]
  sha256_W_rec [of 40, simplified, folded One_nat_def]
  sha256_W_rec [of 41, simplified, folded One_nat_def]
  sha256_W_rec [of 42, simplified, folded One_nat_def]
  sha256_W_rec [of 43, simplified, folded One_nat_def]
  sha256_W_rec [of 44, simplified, folded One_nat_def]
  sha256_W_rec [of 45, simplified, folded One_nat_def]
  sha256_W_rec [of 46, simplified, folded One_nat_def]
  sha256_W_rec [of 47, simplified, folded One_nat_def]
  sha256_W_rec [of 48, simplified, folded One_nat_def]
  sha256_W_rec [of 49, simplified, folded One_nat_def]
  sha256_W_rec [of 50, simplified, folded One_nat_def]
  sha256_W_rec [of 51, simplified, folded One_nat_def]
  sha256_W_rec [of 52, simplified, folded One_nat_def]
  sha256_W_rec [of 53, simplified, folded One_nat_def]
  sha256_W_rec [of 54, simplified, folded One_nat_def]
  sha256_W_rec [of 55, simplified, folded One_nat_def]
  sha256_W_rec [of 56, simplified, folded One_nat_def]
  sha256_W_rec [of 57, simplified, folded One_nat_def]
  sha256_W_rec [of 58, simplified, folded One_nat_def]
  sha256_W_rec [of 59, simplified, folded One_nat_def]
  sha256_W_rec [of 60, simplified, folded One_nat_def]
  sha256_W_rec [of 61, simplified, folded One_nat_def]
  sha256_W_rec [of 62, simplified, folded One_nat_def]
  sha256_W_rec [of 63, simplified, folded One_nat_def]

lemma sha256_steps_append:
  "sha256_steps M t (xs @ ys) s = sha256_steps M (t + length xs) ys (sha256_steps M t xs s)"
  by (induction xs arbitrary: t s) auto

lemma sha256_step_Round:
  "sha256_step k w (a, b, c, d, e, f, g, h) =
     (case sha256_Round a b c d e f g h k w of (d', h') \<Rightarrow> (h', a, b, c, d', e, f, g))"
  by (simp add: sha256_step.simps sha256_Round_def Let_def)

lemma sha256_step_case:
  "sha256_step k w (case p of (x, y) \<Rightarrow> F x y) = (case p of (x, y) \<Rightarrow> sha256_step k w (F x y))"
  by (cases p) simp

lemma case_prod_Pair: "((case p of (x, y) \<Rightarrow> F x y), z) = (case p of (x, y) \<Rightarrow> (F x y, z))"
  by (cases p) simp

lemma fst_case_prod: "fst (case p of (x, y) \<Rightarrow> F x y) = (case p of (x, y) \<Rightarrow> fst (F x y))"
  by (cases p) simp

lemma sha256_state_cases:
  fixes s :: sha256_state
  obtains a b c d e f g h where "s = (a, b, c, d, e, f, g, h)"
  by (cases s) auto

lemmas sha256_unroll = append_Cons append_Nil prod.case Let_def sha256_steps.simps sha256_step_Round sha256_step_case case_prod_Pair
  fst_case_prod fst_conv
  sha256_window_def Suc_numeral One_nat_def [symmetric] Suc_1 arith_simps rel_simps mult_zero_right mult_1_right
  numeral_plus_one

lemma sha256_rounds0_steps:
  "sha256_rounds0 s M = (sha256_steps M 0 sha256_K0 s, sha256_window (sha256_W M) 0)"
  by (cases s rule: sha256_state_cases) (simp only: sha256_rounds0_def sha256_K0_def sha256_W_0 sha256_unroll)

lemma sha256_rounds1_steps:
  "sha256_rounds1 (s, sha256_window (sha256_W M) 0) = (sha256_steps M 16 sha256_K1 s, sha256_window (sha256_W M) 16)"
  by (cases s rule: sha256_state_cases) (simp only: sha256_rounds1_def sha256_K1_def sha256_W_next sha256_unroll)

lemma sha256_rounds2_steps:
  "sha256_rounds2 (s, sha256_window (sha256_W M) 16) = (sha256_steps M 32 sha256_K2 s, sha256_window (sha256_W M) 32)"
  by (cases s rule: sha256_state_cases) (simp only: sha256_rounds2_def sha256_K2_def sha256_W_next sha256_unroll)

lemma sha256_rounds3_steps:
  "fst (sha256_rounds3 (s, sha256_window (sha256_W M) 32)) = sha256_steps M 48 sha256_K3 s"
  by (cases s rule: sha256_state_cases) (simp only: sha256_rounds3_def sha256_K3_def sha256_W_next sha256_W_last sha256_unroll)

lemma sha256_add_block:
  "sha256_block s M = sha256_add s (fst (sha256_rounds3 (sha256_rounds2 (sha256_rounds1 (sha256_rounds0 s M)))))"
  by (cases s rule: sha256_state_cases) (auto simp: sha256_block.simps split: prod.splits)

lemma length_sha256_K: "length sha256_K0 = 16" "length sha256_K1 = 16" "length sha256_K2 = 16"
  by (simp_all add: sha256_K0_def sha256_K1_def sha256_K2_def)

lemma sha256_block_compress: "sha256_block s M = sha256_compress s M"
  unfolding sha256_add_block sha256_compress_def sha256_K_def
  by (simp add: sha256_rounds0_steps sha256_rounds1_steps sha256_rounds2_steps sha256_rounds3_steps
      sha256_steps_append length_sha256_K)

lemma sha256_rounds0_take: "sha256_rounds0 s (take 64 M) = sha256_rounds0 s M"
  by (cases s rule: sha256_state_cases)
    (simp only: sha256_rounds0_def prod.case drop_take arith_simps diff_zero rel_simps ReadBE32_take)

lemma sha256_block_take: "sha256_block s (take 64 M) = sha256_block s M"
  by (simp add: sha256_add_block sha256_rounds0_take)

lemma sha256_Transform_absorb: "sha256_Transform s M n = absorb_blocks 64 sha256_compress n s M"
  by (induction n arbitrary: s M) (simp_all add: sha256_block_take flip: sha256_block_compress)

lemma sha256_compress_take: "sha256_compress s (take 64 M) = sha256_compress s M"
  by (simp add: sha256_block_take flip: sha256_block_compress)

lemma CSHA256_Write_stages:
  "CSHA256_Write h data =
     (let (h, data, bufsize) = Write_fill 64 sha256_compress h data;
          (h, data) = Write_chunks 64 sha256_compress h data
      in Write_rest h data bufsize)"
proof -
  have "(\<lambda>s buf. sha256_Transform s buf 1) = sha256_compress"
    by (intro ext) (simp add: sha256_Transform_absorb sha256_compress_take)
  then show ?thesis
    by (simp add: CSHA256_Write_def Write_chunks_blocks sha256_compress_take sha256_Transform_absorb absorb_def
        Let_def split: prod.splits)
qed

interpretation sha256: block_hasher 64 sha256_compress CSHA256_Write
proof
  show "absorbed 64 sha256_compress iv (CSHA256_Write h d) (m @ d)"
    if "absorbed 64 sha256_compress iv h m" for iv h m d
    using Write_stages_absorbed [OF _ _ sha256_compress_take that]
    by (simp add: CSHA256_Write_stages split: prod.split)
qed simp_all

lemma CSHA256_Finalize_absorbed:
  assumes "absorbed 64 sha256_compress sha256_Initialize h m"
  shows "CSHA256_Finalize h = sha256_spec m"
  using sha256.pad_taken [OF assms] sha256.absorbed_bits [OF assms]
  by (simp add: CSHA256_Finalize_def CSHA256_finish_def sha256.padded_state [OF assms] sha256_spec_def sha256_pad_def)

text \<open>
  C20.  However a message is cut into calls of \<open>Write\<close>, and whatever the uninitialised block buffer
  holds, \<open>CSHA256\<close> outputs the textbook SHA-256 of the whole message: the unrolled rounds with
  their in-place message window are the schedule recurrence and the shifting working variables,
  and the buffering and the padding are those of the standard.
\<close>

theorem sha256_correct:
  assumes "length buf = 64"
  shows "CSHA256_Finalize (foldl CSHA256_Write (CSHA256 buf) ds) = sha256_spec (concat ds)"
  using sha256.writes_absorb [OF sha256.new_absorbed [OF assms]]
  by (simp add: CSHA256_def CSHA256_Finalize_absorbed)

theorem sha256_correct_witness:
  "length (replicate 64 0 :: byte list) = 64 \<and>
   CSHA256_Finalize (foldl CSHA256_Write (CSHA256 (replicate 64 0)) [[0x61], [], [0x62, 0x63]]) =
     sha256_spec [0x61, 0x62, 0x63]"
  using sha256_correct [of "replicate 64 0" "[[0x61], [], [0x62, 0x63]]"] by simp

lemma CSHA256_finish_absorbed:
  assumes "absorbed 64 sha256_compress iv h m"
  shows "\<exists>m'. absorbed 64 sha256_compress iv (CSHA256_finish h) m'"
  using sha256.Write_absorbs [OF sha256.Write_absorbs [OF assms]] by (auto simp: CSHA256_finish_def Let_def)

lemma CSHA256_Reset_absorbed:
  "absorbed 64 sha256_compress iv h m \<Longrightarrow> absorbed 64 sha256_compress sha256_Initialize (CSHA256_Reset h) []"
  by (simp add: absorbed_def CSHA256_Reset_def)

lemma sha256_Write_Finalize:
  assumes "absorbed 64 sha256_compress sha256_Initialize h m"
  shows "CSHA256_Finalize (CSHA256_Write h d) = sha256_spec (m @ d)"
  by (rule CSHA256_Finalize_absorbed [OF sha256.Write_absorbs [OF assms]])

lemma CSHA256_new: "length buf = 64 \<Longrightarrow> absorbed 64 sha256_compress sha256_Initialize (CSHA256 buf) []"
  unfolding CSHA256_def by (rule sha256.new_absorbed)

lemma length_sha256_spec [simp]: "length (sha256_spec m) = 32"
proof -
  have "length (sha256_output s) = 32" for s by (cases s rule: sha256_state_cases) simp
  then show ?thesis by (simp add: sha256_spec_def)
qed

end
