(* ===== verification/Sha1.thy ===== *)
theory Sha1
  imports Sha256
begin

unbundle bit_operations_syntax

text \<open>
  SHA-1: \<^verbatim>\<open>src/crypto/sha1.cpp\<close>.  \<open>sha1_rounds0\<close> to \<open>sha1_rounds4\<close> are the eighty unrolled \<open>Round\<close>
  calls of \<open>Transform\<close>, sixteen each; after sixteen rounds the five registers have moved by one
  name, which \<open>sha1_rot\<close> accounts for.  The class computes the textbook \<open>sha1_spec\<close>.
\<close>

section \<open>Transform\<close>

type_synonym sha1_state = "word32 \<times> word32 \<times> word32 \<times> word32 \<times> word32"

text \<open>\<open>Round\<close> updates \<open>b\<close> and \<open>e\<close> through references; the model returns the pair.\<close>

definition sha1_Round ::
  "word32 \<Rightarrow> word32 \<Rightarrow> word32 \<Rightarrow> word32 \<Rightarrow> word32 \<Rightarrow> word32 \<Rightarrow> word32 \<Rightarrow> word32 \<Rightarrow> word32 \<times> word32" where
  "sha1_Round a b c d e f k w =
     (push_bit 30 b OR drop_bit 2 b, e + ((push_bit 5 a OR drop_bit 27 a) + f + k + w))"

definition sha1_f1 :: "word32 \<Rightarrow> word32 \<Rightarrow> word32 \<Rightarrow> word32" where
  "sha1_f1 b c d = d XOR (b AND (c XOR d))"

definition sha1_f2 :: "word32 \<Rightarrow> word32 \<Rightarrow> word32 \<Rightarrow> word32" where
  "sha1_f2 b c d = b XOR c XOR d"

definition sha1_f3 :: "word32 \<Rightarrow> word32 \<Rightarrow> word32 \<Rightarrow> word32" where
  "sha1_f3 b c d = (b AND c) OR (d AND (b OR c))"

definition sha1_left :: "word32 \<Rightarrow> word32" where
  "sha1_left x = push_bit 1 x OR drop_bit 31 x"

definition sha1_Initialize :: sha1_state where
  "sha1_Initialize = (0x67452301, 0xEFCDAB89, 0x98BADCFE, 0x10325476, 0xC3D2E1F0)"

definition sha1_k1 :: word32 where
  "sha1_k1 = 0x5A827999"

definition sha1_k2 :: word32 where
  "sha1_k2 = 0x6ED9EBA1"

definition sha1_k3 :: word32 where
  "sha1_k3 = 0x8F1BBCDC"

definition sha1_k4 :: word32 where
  "sha1_k4 = 0xCA62C1D6"

definition sha1_rounds0 :: "sha1_state \<Rightarrow> byte list \<Rightarrow> sha1_state \<times> sha256_window" where
  "sha1_rounds0 = (\<lambda>(a, b, c, d, e) chunk.
    (let w0 = ReadBE32 (drop 0 chunk);
     (b, e) = sha1_Round a b c d e (sha1_f1 b c d) sha1_k1 w0;
     w1 = ReadBE32 (drop 4 chunk);
     (a, d) = sha1_Round e a b c d (sha1_f1 a b c) sha1_k1 w1;
     w2 = ReadBE32 (drop 8 chunk);
     (e, c) = sha1_Round d e a b c (sha1_f1 e a b) sha1_k1 w2;
     w3 = ReadBE32 (drop 12 chunk);
     (d, b) = sha1_Round c d e a b (sha1_f1 d e a) sha1_k1 w3;
     w4 = ReadBE32 (drop 16 chunk);
     (c, a) = sha1_Round b c d e a (sha1_f1 c d e) sha1_k1 w4;
     w5 = ReadBE32 (drop 20 chunk);
     (b, e) = sha1_Round a b c d e (sha1_f1 b c d) sha1_k1 w5;
     w6 = ReadBE32 (drop 24 chunk);
     (a, d) = sha1_Round e a b c d (sha1_f1 a b c) sha1_k1 w6;
     w7 = ReadBE32 (drop 28 chunk);
     (e, c) = sha1_Round d e a b c (sha1_f1 e a b) sha1_k1 w7;
     w8 = ReadBE32 (drop 32 chunk);
     (d, b) = sha1_Round c d e a b (sha1_f1 d e a) sha1_k1 w8;
     w9 = ReadBE32 (drop 36 chunk);
     (c, a) = sha1_Round b c d e a (sha1_f1 c d e) sha1_k1 w9;
     w10 = ReadBE32 (drop 40 chunk);
     (b, e) = sha1_Round a b c d e (sha1_f1 b c d) sha1_k1 w10;
     w11 = ReadBE32 (drop 44 chunk);
     (a, d) = sha1_Round e a b c d (sha1_f1 a b c) sha1_k1 w11;
     w12 = ReadBE32 (drop 48 chunk);
     (e, c) = sha1_Round d e a b c (sha1_f1 e a b) sha1_k1 w12;
     w13 = ReadBE32 (drop 52 chunk);
     (d, b) = sha1_Round c d e a b (sha1_f1 d e a) sha1_k1 w13;
     w14 = ReadBE32 (drop 56 chunk);
     (c, a) = sha1_Round b c d e a (sha1_f1 c d e) sha1_k1 w14;
     w15 = ReadBE32 (drop 60 chunk);
     (b, e) = sha1_Round a b c d e (sha1_f1 b c d) sha1_k1 w15
     in ((a, b, c, d, e), (w0, w1, w2, w3, w4, w5, w6, w7, w8, w9, w10, w11, w12, w13, w14, w15))))"

definition sha1_rounds1 :: "sha1_state \<times> sha256_window \<Rightarrow> sha1_state \<times> sha256_window" where
  "sha1_rounds1 = (\<lambda>((a, b, c, d, e), (w0, w1, w2, w3, w4, w5, w6, w7, w8, w9, w10, w11, w12, w13, w14, w15)).
    (let w0 = sha1_left (w0 XOR w13 XOR w8 XOR w2);
     (a, d) = sha1_Round e a b c d (sha1_f1 a b c) sha1_k1 w0;
     w1 = sha1_left (w1 XOR w14 XOR w9 XOR w3);
     (e, c) = sha1_Round d e a b c (sha1_f1 e a b) sha1_k1 w1;
     w2 = sha1_left (w2 XOR w15 XOR w10 XOR w4);
     (d, b) = sha1_Round c d e a b (sha1_f1 d e a) sha1_k1 w2;
     w3 = sha1_left (w3 XOR w0 XOR w11 XOR w5);
     (c, a) = sha1_Round b c d e a (sha1_f1 c d e) sha1_k1 w3;
     w4 = sha1_left (w4 XOR w1 XOR w12 XOR w6);
     (b, e) = sha1_Round a b c d e (sha1_f2 b c d) sha1_k2 w4;
     w5 = sha1_left (w5 XOR w2 XOR w13 XOR w7);
     (a, d) = sha1_Round e a b c d (sha1_f2 a b c) sha1_k2 w5;
     w6 = sha1_left (w6 XOR w3 XOR w14 XOR w8);
     (e, c) = sha1_Round d e a b c (sha1_f2 e a b) sha1_k2 w6;
     w7 = sha1_left (w7 XOR w4 XOR w15 XOR w9);
     (d, b) = sha1_Round c d e a b (sha1_f2 d e a) sha1_k2 w7;
     w8 = sha1_left (w8 XOR w5 XOR w0 XOR w10);
     (c, a) = sha1_Round b c d e a (sha1_f2 c d e) sha1_k2 w8;
     w9 = sha1_left (w9 XOR w6 XOR w1 XOR w11);
     (b, e) = sha1_Round a b c d e (sha1_f2 b c d) sha1_k2 w9;
     w10 = sha1_left (w10 XOR w7 XOR w2 XOR w12);
     (a, d) = sha1_Round e a b c d (sha1_f2 a b c) sha1_k2 w10;
     w11 = sha1_left (w11 XOR w8 XOR w3 XOR w13);
     (e, c) = sha1_Round d e a b c (sha1_f2 e a b) sha1_k2 w11;
     w12 = sha1_left (w12 XOR w9 XOR w4 XOR w14);
     (d, b) = sha1_Round c d e a b (sha1_f2 d e a) sha1_k2 w12;
     w13 = sha1_left (w13 XOR w10 XOR w5 XOR w15);
     (c, a) = sha1_Round b c d e a (sha1_f2 c d e) sha1_k2 w13;
     w14 = sha1_left (w14 XOR w11 XOR w6 XOR w0);
     (b, e) = sha1_Round a b c d e (sha1_f2 b c d) sha1_k2 w14;
     w15 = sha1_left (w15 XOR w12 XOR w7 XOR w1);
     (a, d) = sha1_Round e a b c d (sha1_f2 a b c) sha1_k2 w15
     in ((a, b, c, d, e), (w0, w1, w2, w3, w4, w5, w6, w7, w8, w9, w10, w11, w12, w13, w14, w15))))"

definition sha1_rounds2 :: "sha1_state \<times> sha256_window \<Rightarrow> sha1_state \<times> sha256_window" where
  "sha1_rounds2 = (\<lambda>((a, b, c, d, e), (w0, w1, w2, w3, w4, w5, w6, w7, w8, w9, w10, w11, w12, w13, w14, w15)).
    (let w0 = sha1_left (w0 XOR w13 XOR w8 XOR w2);
     (e, c) = sha1_Round d e a b c (sha1_f2 e a b) sha1_k2 w0;
     w1 = sha1_left (w1 XOR w14 XOR w9 XOR w3);
     (d, b) = sha1_Round c d e a b (sha1_f2 d e a) sha1_k2 w1;
     w2 = sha1_left (w2 XOR w15 XOR w10 XOR w4);
     (c, a) = sha1_Round b c d e a (sha1_f2 c d e) sha1_k2 w2;
     w3 = sha1_left (w3 XOR w0 XOR w11 XOR w5);
     (b, e) = sha1_Round a b c d e (sha1_f2 b c d) sha1_k2 w3;
     w4 = sha1_left (w4 XOR w1 XOR w12 XOR w6);
     (a, d) = sha1_Round e a b c d (sha1_f2 a b c) sha1_k2 w4;
     w5 = sha1_left (w5 XOR w2 XOR w13 XOR w7);
     (e, c) = sha1_Round d e a b c (sha1_f2 e a b) sha1_k2 w5;
     w6 = sha1_left (w6 XOR w3 XOR w14 XOR w8);
     (d, b) = sha1_Round c d e a b (sha1_f2 d e a) sha1_k2 w6;
     w7 = sha1_left (w7 XOR w4 XOR w15 XOR w9);
     (c, a) = sha1_Round b c d e a (sha1_f2 c d e) sha1_k2 w7;
     w8 = sha1_left (w8 XOR w5 XOR w0 XOR w10);
     (b, e) = sha1_Round a b c d e (sha1_f3 b c d) sha1_k3 w8;
     w9 = sha1_left (w9 XOR w6 XOR w1 XOR w11);
     (a, d) = sha1_Round e a b c d (sha1_f3 a b c) sha1_k3 w9;
     w10 = sha1_left (w10 XOR w7 XOR w2 XOR w12);
     (e, c) = sha1_Round d e a b c (sha1_f3 e a b) sha1_k3 w10;
     w11 = sha1_left (w11 XOR w8 XOR w3 XOR w13);
     (d, b) = sha1_Round c d e a b (sha1_f3 d e a) sha1_k3 w11;
     w12 = sha1_left (w12 XOR w9 XOR w4 XOR w14);
     (c, a) = sha1_Round b c d e a (sha1_f3 c d e) sha1_k3 w12;
     w13 = sha1_left (w13 XOR w10 XOR w5 XOR w15);
     (b, e) = sha1_Round a b c d e (sha1_f3 b c d) sha1_k3 w13;
     w14 = sha1_left (w14 XOR w11 XOR w6 XOR w0);
     (a, d) = sha1_Round e a b c d (sha1_f3 a b c) sha1_k3 w14;
     w15 = sha1_left (w15 XOR w12 XOR w7 XOR w1);
     (e, c) = sha1_Round d e a b c (sha1_f3 e a b) sha1_k3 w15
     in ((a, b, c, d, e), (w0, w1, w2, w3, w4, w5, w6, w7, w8, w9, w10, w11, w12, w13, w14, w15))))"

definition sha1_rounds3 :: "sha1_state \<times> sha256_window \<Rightarrow> sha1_state \<times> sha256_window" where
  "sha1_rounds3 = (\<lambda>((a, b, c, d, e), (w0, w1, w2, w3, w4, w5, w6, w7, w8, w9, w10, w11, w12, w13, w14, w15)).
    (let w0 = sha1_left (w0 XOR w13 XOR w8 XOR w2);
     (d, b) = sha1_Round c d e a b (sha1_f3 d e a) sha1_k3 w0;
     w1 = sha1_left (w1 XOR w14 XOR w9 XOR w3);
     (c, a) = sha1_Round b c d e a (sha1_f3 c d e) sha1_k3 w1;
     w2 = sha1_left (w2 XOR w15 XOR w10 XOR w4);
     (b, e) = sha1_Round a b c d e (sha1_f3 b c d) sha1_k3 w2;
     w3 = sha1_left (w3 XOR w0 XOR w11 XOR w5);
     (a, d) = sha1_Round e a b c d (sha1_f3 a b c) sha1_k3 w3;
     w4 = sha1_left (w4 XOR w1 XOR w12 XOR w6);
     (e, c) = sha1_Round d e a b c (sha1_f3 e a b) sha1_k3 w4;
     w5 = sha1_left (w5 XOR w2 XOR w13 XOR w7);
     (d, b) = sha1_Round c d e a b (sha1_f3 d e a) sha1_k3 w5;
     w6 = sha1_left (w6 XOR w3 XOR w14 XOR w8);
     (c, a) = sha1_Round b c d e a (sha1_f3 c d e) sha1_k3 w6;
     w7 = sha1_left (w7 XOR w4 XOR w15 XOR w9);
     (b, e) = sha1_Round a b c d e (sha1_f3 b c d) sha1_k3 w7;
     w8 = sha1_left (w8 XOR w5 XOR w0 XOR w10);
     (a, d) = sha1_Round e a b c d (sha1_f3 a b c) sha1_k3 w8;
     w9 = sha1_left (w9 XOR w6 XOR w1 XOR w11);
     (e, c) = sha1_Round d e a b c (sha1_f3 e a b) sha1_k3 w9;
     w10 = sha1_left (w10 XOR w7 XOR w2 XOR w12);
     (d, b) = sha1_Round c d e a b (sha1_f3 d e a) sha1_k3 w10;
     w11 = sha1_left (w11 XOR w8 XOR w3 XOR w13);
     (c, a) = sha1_Round b c d e a (sha1_f3 c d e) sha1_k3 w11;
     w12 = sha1_left (w12 XOR w9 XOR w4 XOR w14);
     (b, e) = sha1_Round a b c d e (sha1_f2 b c d) sha1_k4 w12;
     w13 = sha1_left (w13 XOR w10 XOR w5 XOR w15);
     (a, d) = sha1_Round e a b c d (sha1_f2 a b c) sha1_k4 w13;
     w14 = sha1_left (w14 XOR w11 XOR w6 XOR w0);
     (e, c) = sha1_Round d e a b c (sha1_f2 e a b) sha1_k4 w14;
     w15 = sha1_left (w15 XOR w12 XOR w7 XOR w1);
     (d, b) = sha1_Round c d e a b (sha1_f2 d e a) sha1_k4 w15
     in ((a, b, c, d, e), (w0, w1, w2, w3, w4, w5, w6, w7, w8, w9, w10, w11, w12, w13, w14, w15))))"

definition sha1_rounds4 :: "sha1_state \<times> sha256_window \<Rightarrow> sha1_state \<times> sha256_window" where
  "sha1_rounds4 = (\<lambda>((a, b, c, d, e), (w0, w1, w2, w3, w4, w5, w6, w7, w8, w9, w10, w11, w12, w13, w14, w15)).
    (let w0 = sha1_left (w0 XOR w13 XOR w8 XOR w2);
     (c, a) = sha1_Round b c d e a (sha1_f2 c d e) sha1_k4 w0;
     w1 = sha1_left (w1 XOR w14 XOR w9 XOR w3);
     (b, e) = sha1_Round a b c d e (sha1_f2 b c d) sha1_k4 w1;
     w2 = sha1_left (w2 XOR w15 XOR w10 XOR w4);
     (a, d) = sha1_Round e a b c d (sha1_f2 a b c) sha1_k4 w2;
     w3 = sha1_left (w3 XOR w0 XOR w11 XOR w5);
     (e, c) = sha1_Round d e a b c (sha1_f2 e a b) sha1_k4 w3;
     w4 = sha1_left (w4 XOR w1 XOR w12 XOR w6);
     (d, b) = sha1_Round c d e a b (sha1_f2 d e a) sha1_k4 w4;
     w5 = sha1_left (w5 XOR w2 XOR w13 XOR w7);
     (c, a) = sha1_Round b c d e a (sha1_f2 c d e) sha1_k4 w5;
     w6 = sha1_left (w6 XOR w3 XOR w14 XOR w8);
     (b, e) = sha1_Round a b c d e (sha1_f2 b c d) sha1_k4 w6;
     w7 = sha1_left (w7 XOR w4 XOR w15 XOR w9);
     (a, d) = sha1_Round e a b c d (sha1_f2 a b c) sha1_k4 w7;
     w8 = sha1_left (w8 XOR w5 XOR w0 XOR w10);
     (e, c) = sha1_Round d e a b c (sha1_f2 e a b) sha1_k4 w8;
     w9 = sha1_left (w9 XOR w6 XOR w1 XOR w11);
     (d, b) = sha1_Round c d e a b (sha1_f2 d e a) sha1_k4 w9;
     w10 = sha1_left (w10 XOR w7 XOR w2 XOR w12);
     (c, a) = sha1_Round b c d e a (sha1_f2 c d e) sha1_k4 w10;
     w11 = sha1_left (w11 XOR w8 XOR w3 XOR w13);
     (b, e) = sha1_Round a b c d e (sha1_f2 b c d) sha1_k4 w11;
     w12 = sha1_left (w12 XOR w9 XOR w4 XOR w14);
     (a, d) = sha1_Round e a b c d (sha1_f2 a b c) sha1_k4 w12;
     (e, c) = sha1_Round d e a b c (sha1_f2 e a b) sha1_k4 (sha1_left (w13 XOR w10 XOR w5 XOR w15));
     (d, b) = sha1_Round c d e a b (sha1_f2 d e a) sha1_k4 (sha1_left (w14 XOR w11 XOR w6 XOR w0));
     (c, a) = sha1_Round b c d e a (sha1_f2 c d e) sha1_k4 (sha1_left (w15 XOR w12 XOR w7 XOR w1))
     in ((a, b, c, d, e), (w0, w1, w2, w3, w4, w5, w6, w7, w8, w9, w10, w11, w12, w13, w14, w15))))"

fun sha1_Transform :: "sha1_state \<Rightarrow> byte list \<Rightarrow> sha1_state" where
  "sha1_Transform (s0, s1, s2, s3, s4) chunk =
     (case sha1_rounds4 (sha1_rounds3 (sha1_rounds2 (sha1_rounds1
             (sha1_rounds0 (s0, s1, s2, s3, s4) chunk)))) of
        ((a, b, c, d, e), w) \<Rightarrow> (s0 + a, s1 + b, s2 + c, s3 + d, s4 + e))"

declare sha1_Transform.simps [simp del]

section \<open>The class CSHA1\<close>

definition CSHA1 :: "byte list \<Rightarrow> sha1_state hasher" where
  "CSHA1 buf = \<lparr>h_s = sha1_Initialize, h_buf = buf, h_bytes = 0\<rparr>"

definition CSHA1_Write :: "sha1_state hasher \<Rightarrow> byte list \<Rightarrow> sha1_state hasher" where
  "CSHA1_Write h data =
     (let (h, data, bufsize) = Write_fill 64 sha1_Transform h data;
          (h, data) = Write_chunks 64 sha1_Transform h data
      in Write_rest h data bufsize)"

fun sha1_output :: "sha1_state \<Rightarrow> byte list" where
  "sha1_output (s0, s1, s2, s3, s4) =
     WriteBE32 s0 @ WriteBE32 s1 @ WriteBE32 s2 @ WriteBE32 s3 @ WriteBE32 s4"

definition CSHA1_Finalize :: "sha1_state hasher \<Rightarrow> byte list" where
  "CSHA1_Finalize h =
     (let pad = 0x80 # replicate 63 0;
          sizedesc = WriteBE64 (push_bit 3 (h_bytes h));
          h = CSHA1_Write h (take (1 + (119 - unat (h_bytes h) mod 64) mod 64) pad);
          h = CSHA1_Write h sizedesc
      in sha1_output (h_s h))"

definition CSHA1_Reset :: "sha1_state hasher \<Rightarrow> sha1_state hasher" where
  "CSHA1_Reset h = h\<lparr>h_bytes := 0, h_s := sha1_Initialize\<rparr>"

section \<open>Reference\<close>

fun sha1_W :: "byte list \<Rightarrow> nat \<Rightarrow> word32" where
  "sha1_W M t =
     (if t < 16 then ReadBE32 (drop (4 * t) M)
      else sha1_left (sha1_W M (t - 3) XOR sha1_W M (t - 8) XOR sha1_W M (t - 14) XOR sha1_W M (t - 16)))"

declare sha1_W.simps [simp del]

definition sha1_f :: "nat \<Rightarrow> word32 \<Rightarrow> word32 \<Rightarrow> word32 \<Rightarrow> word32" where
  "sha1_f t b c d =
     (if t < 20 then sha1_f1 b c d
      else if t < 40 then sha1_f2 b c d
      else if t < 60 then sha1_f3 b c d
      else sha1_f2 b c d)"

definition sha1_k :: "nat \<Rightarrow> word32" where
  "sha1_k t = (if t < 20 then sha1_k1 else if t < 40 then sha1_k2 else if t < 60 then sha1_k3 else sha1_k4)"

fun sha1_step :: "byte list \<Rightarrow> nat \<Rightarrow> sha1_state \<Rightarrow> sha1_state" where
  "sha1_step M t (a, b, c, d, e) =
     (e + ((push_bit 5 a OR drop_bit 27 a) + sha1_f t b c d + sha1_k t + sha1_W M t), a,
      push_bit 30 b OR drop_bit 2 b, c, d)"

declare sha1_step.simps [simp del]

primrec sha1_steps :: "byte list \<Rightarrow> nat \<Rightarrow> nat \<Rightarrow> sha1_state \<Rightarrow> sha1_state" where
  "sha1_steps M 0 t s = s"
| "sha1_steps M (Suc n) t s = sha1_steps M n (Suc t) (sha1_step M t s)"

fun sha1_add :: "sha1_state \<Rightarrow> sha1_state \<Rightarrow> sha1_state" where
  "sha1_add (a, b, c, d, e) (a', b', c', d', e') = (a + a', b + b', c + c', d + d', e + e')"

definition sha1_compress :: "sha1_state \<Rightarrow> byte list \<Rightarrow> sha1_state" where
  "sha1_compress s M = sha1_add s (sha1_steps M 80 0 s)"

definition sha1_spec :: "byte list \<Rightarrow> byte list" where
  "sha1_spec m = sha1_output (absorb 64 sha1_compress sha1_Initialize (m @ sha256_pad m))"

section \<open>The unrolled rounds compute the reference\<close>

fun sha1_rot :: "sha1_state \<Rightarrow> sha1_state" where
  "sha1_rot (a, b, c, d, e) = (e, a, b, c, d)"

lemma sha1_W_0: "t < 16 \<Longrightarrow> sha1_W M t = ReadBE32 (drop (4 * t) M)"
  by (simp add: sha1_W.simps [of M t])

lemma sha1_W_rec:
  assumes "16 \<le> t"
  shows "sha1_left (sha1_W M (t - 16) XOR sha1_W M (t - 3) XOR sha1_W M (t - 8) XOR sha1_W M (t - 14)) = sha1_W M t"
  using assms by (simp add: sha1_W.simps [of M t] ac_simps)

lemmas sha1_W_next = 
  sha1_W_rec [of 16, simplified, folded One_nat_def] sha1_W_rec [of 17, simplified, folded One_nat_def]
  sha1_W_rec [of 18, simplified, folded One_nat_def] sha1_W_rec [of 19, simplified, folded One_nat_def]
  sha1_W_rec [of 20, simplified, folded One_nat_def] sha1_W_rec [of 21, simplified, folded One_nat_def]
  sha1_W_rec [of 22, simplified, folded One_nat_def] sha1_W_rec [of 23, simplified, folded One_nat_def]
  sha1_W_rec [of 24, simplified, folded One_nat_def] sha1_W_rec [of 25, simplified, folded One_nat_def]
  sha1_W_rec [of 26, simplified, folded One_nat_def] sha1_W_rec [of 27, simplified, folded One_nat_def]
  sha1_W_rec [of 28, simplified, folded One_nat_def] sha1_W_rec [of 29, simplified, folded One_nat_def]
  sha1_W_rec [of 30, simplified, folded One_nat_def] sha1_W_rec [of 31, simplified, folded One_nat_def]
  sha1_W_rec [of 32, simplified, folded One_nat_def] sha1_W_rec [of 33, simplified, folded One_nat_def]
  sha1_W_rec [of 34, simplified, folded One_nat_def] sha1_W_rec [of 35, simplified, folded One_nat_def]
  sha1_W_rec [of 36, simplified, folded One_nat_def] sha1_W_rec [of 37, simplified, folded One_nat_def]
  sha1_W_rec [of 38, simplified, folded One_nat_def] sha1_W_rec [of 39, simplified, folded One_nat_def]
  sha1_W_rec [of 40, simplified, folded One_nat_def] sha1_W_rec [of 41, simplified, folded One_nat_def]
  sha1_W_rec [of 42, simplified, folded One_nat_def] sha1_W_rec [of 43, simplified, folded One_nat_def]
  sha1_W_rec [of 44, simplified, folded One_nat_def] sha1_W_rec [of 45, simplified, folded One_nat_def]
  sha1_W_rec [of 46, simplified, folded One_nat_def] sha1_W_rec [of 47, simplified, folded One_nat_def]
  sha1_W_rec [of 48, simplified, folded One_nat_def] sha1_W_rec [of 49, simplified, folded One_nat_def]
  sha1_W_rec [of 50, simplified, folded One_nat_def] sha1_W_rec [of 51, simplified, folded One_nat_def]
  sha1_W_rec [of 52, simplified, folded One_nat_def] sha1_W_rec [of 53, simplified, folded One_nat_def]
  sha1_W_rec [of 54, simplified, folded One_nat_def] sha1_W_rec [of 55, simplified, folded One_nat_def]
  sha1_W_rec [of 56, simplified, folded One_nat_def] sha1_W_rec [of 57, simplified, folded One_nat_def]
  sha1_W_rec [of 58, simplified, folded One_nat_def] sha1_W_rec [of 59, simplified, folded One_nat_def]
  sha1_W_rec [of 60, simplified, folded One_nat_def] sha1_W_rec [of 61, simplified, folded One_nat_def]
  sha1_W_rec [of 62, simplified, folded One_nat_def] sha1_W_rec [of 63, simplified, folded One_nat_def]
  sha1_W_rec [of 64, simplified, folded One_nat_def] sha1_W_rec [of 65, simplified, folded One_nat_def]
  sha1_W_rec [of 66, simplified, folded One_nat_def] sha1_W_rec [of 67, simplified, folded One_nat_def]
  sha1_W_rec [of 68, simplified, folded One_nat_def] sha1_W_rec [of 69, simplified, folded One_nat_def]
  sha1_W_rec [of 70, simplified, folded One_nat_def] sha1_W_rec [of 71, simplified, folded One_nat_def]
  sha1_W_rec [of 72, simplified, folded One_nat_def] sha1_W_rec [of 73, simplified, folded One_nat_def]
  sha1_W_rec [of 74, simplified, folded One_nat_def] sha1_W_rec [of 75, simplified, folded One_nat_def]
  sha1_W_rec [of 76, simplified, folded One_nat_def] sha1_W_rec [of 77, simplified, folded One_nat_def]
  sha1_W_rec [of 78, simplified, folded One_nat_def] sha1_W_rec [of 79, simplified, folded One_nat_def]

lemma sha1_step_Round:
  "sha1_step M t (a, b, c, d, e) =
     (case sha1_Round a b c d e (sha1_f t b c d) (sha1_k t) (sha1_W M t) of (b', e') \<Rightarrow> (e', a, b', c, d))"
  by (simp add: sha1_step.simps sha1_Round_def)

lemma sha1_step_case:
  "sha1_step M t (case p of (x, y) \<Rightarrow> F x y) = (case p of (x, y) \<Rightarrow> sha1_step M t (F x y))"
  by (cases p) simp

lemma sha1_rot_case: "sha1_rot (case p of (x, y) \<Rightarrow> F x y) = (case p of (x, y) \<Rightarrow> sha1_rot (F x y))"
  by (cases p) simp

lemma sha1_state_cases:
  fixes s :: sha1_state
  obtains a b c d e where "s = (a, b, c, d, e)"
  by (cases s) auto

lemma sha1_steps_16:
  "sha1_steps M 16 t s =
     sha1_step M (t + 15) (sha1_step M (t + 14) (sha1_step M (t + 13) (sha1_step M (t + 12)
     (sha1_step M (t + 11) (sha1_step M (t + 10) (sha1_step M (t + 9) (sha1_step M (t + 8)
     (sha1_step M (t + 7) (sha1_step M (t + 6) (sha1_step M (t + 5) (sha1_step M (t + 4)
     (sha1_step M (t + 3) (sha1_step M (t + 2) (sha1_step M (t + 1) (sha1_step M t s)))))))))))))))"
  by (simp add: numeral_eq_Suc)

lemma sha1_steps_add: "sha1_steps M (m + n) t s = sha1_steps M n (t + m) (sha1_steps M m t s)"
  by (induction m arbitrary: t s) simp_all

lemmas sha1_unroll = prod.case Let_def sha1_steps_16 sha1_step_Round sha1_step_case sha1_rot_case sha1_rot.simps
  case_prod_Pair fst_case_prod fst_conv sha256_window_def sha1_f_def sha1_k_def if_True if_False
  arith_simps rel_simps add_0 numeral_plus_one mult_zero_right mult_1_right

lemma sha1_rounds0_steps:
  "sha1_rounds0 s M = (sha1_rot (sha1_rot (sha1_rot (sha1_rot (sha1_steps M 16 0 s)))), sha256_window (sha1_W M) 0)"
  by (cases s rule: sha1_state_cases) (simp only: sha1_rounds0_def sha1_W_0 sha1_unroll)

lemma sha1_rounds1_steps:
  "sha1_rounds1 (s, sha256_window (sha1_W M) 0) =
   (sha1_rot (sha1_rot (sha1_rot (sha1_steps M 16 16 (sha1_rot s)))), sha256_window (sha1_W M) 16)"
  by (cases s rule: sha1_state_cases) (simp only: sha1_rounds1_def sha1_W_next sha1_unroll)

lemma sha1_rounds2_steps:
  "sha1_rounds2 (s, sha256_window (sha1_W M) 16) =
   (sha1_rot (sha1_rot (sha1_steps M 16 32 (sha1_rot (sha1_rot s)))), sha256_window (sha1_W M) 32)"
  by (cases s rule: sha1_state_cases) (simp only: sha1_rounds2_def sha1_W_next sha1_unroll)

lemma sha1_rounds3_steps:
  "sha1_rounds3 (s, sha256_window (sha1_W M) 32) =
   (sha1_rot (sha1_steps M 16 48 (sha1_rot (sha1_rot (sha1_rot s)))), sha256_window (sha1_W M) 48)"
  by (cases s rule: sha1_state_cases) (simp only: sha1_rounds3_def sha1_W_next sha1_unroll)

lemma sha1_rounds4_steps:
  "fst (sha1_rounds4 (s, sha256_window (sha1_W M) 48)) =
   sha1_steps M 16 64 (sha1_rot (sha1_rot (sha1_rot (sha1_rot s))))"
  by (cases s rule: sha1_state_cases) (simp only: sha1_rounds4_def sha1_W_next sha1_unroll)

lemma sha1_rot_5: "sha1_rot (sha1_rot (sha1_rot (sha1_rot (sha1_rot s)))) = s"
  by (cases s rule: sha1_state_cases) simp

lemma sha1_Transform_rounds:
  "sha1_Transform s M =
   sha1_add s (fst (sha1_rounds4 (sha1_rounds3 (sha1_rounds2 (sha1_rounds1 (sha1_rounds0 s M))))))"
  by (cases s rule: sha1_state_cases) (auto simp: sha1_Transform.simps split: prod.splits)

lemma sha1_Transform_compress: "sha1_Transform s M = sha1_compress s M"
proof -
  have "sha1_steps M 80 0 s = sha1_steps M (16 + (16 + (16 + (16 + 16)))) 0 s" by simp
  then show ?thesis
    unfolding sha1_Transform_rounds sha1_compress_def sha1_rounds0_steps sha1_rounds1_steps
      sha1_rounds2_steps sha1_rounds3_steps sha1_rounds4_steps sha1_rot_5
    by (simp only: sha1_steps_add) simp
qed

lemma sha1_Transform_take: "sha1_Transform s (take 64 M) = sha1_Transform s M"
proof -
  have "sha1_rounds0 s (take 64 M) = sha1_rounds0 s M"
    by (cases s rule: sha1_state_cases)
      (simp only: sha1_rounds0_def prod.case drop_take arith_simps diff_zero rel_simps ReadBE32_take)
  then show ?thesis by (simp add: sha1_Transform_rounds)
qed

interpretation sha1: block_hasher 64 sha1_Transform CSHA1_Write
proof
  show "absorbed 64 sha1_Transform iv (CSHA1_Write h d) (m @ d)"
    if "absorbed 64 sha1_Transform iv h m" for iv h m d
    using Write_stages_absorbed [OF _ _ sha1_Transform_take that]
    by (simp add: CSHA1_Write_def split: prod.split)
qed simp_all

lemma CSHA1_Finalize_absorbed:
  assumes "absorbed 64 sha1_Transform sha1_Initialize h m"
  shows "CSHA1_Finalize h = sha1_spec m"
proof -
  have "sha1_Transform = sha1_compress" by (intro ext) (rule sha1_Transform_compress)
  then show ?thesis
    using sha1.pad_taken [OF assms] sha1.absorbed_bits [OF assms]
    by (simp add: CSHA1_Finalize_def sha1.padded_state [OF assms] sha1_spec_def sha256_pad_def)
qed

lemma sha1_class_spec:
  "length buf = 64 \<Longrightarrow> CSHA1_Finalize (foldl CSHA1_Write (CSHA1 buf) ds) = sha1_spec (concat ds)"
  using sha1.writes_absorb [OF sha1.new_absorbed] by (simp add: CSHA1_def CSHA1_Finalize_absorbed)

lemma length_sha1_spec [simp]: "length (sha1_spec m) = 20"
proof -
  have "length (sha1_output s) = 20" for s by (cases s rule: sha1_state_cases) simp
  then show ?thesis by (simp add: sha1_spec_def)
qed

end
