(* ===== verification/Ripemd160.thy ===== *)
theory Ripemd160
  imports Sha1
begin

unbundle bit_operations_syntax

text \<open>
  RIPEMD-160: \<^verbatim>\<open>src/crypto/ripemd160.cpp\<close>.  \<open>rmd_rounds1\<close> to \<open>rmd_rounds5\<close> are the hundred and sixty
  unrolled calls of \<open>Transform\<close>, thirty-two each, the two lines interleaved as in the source.

  The reference follows the published definition: the word order of a round is a power of the
  permutation \<open>rmd_rho\<close>, composed with \<open>rmd_pi\<close> on the right line, and the rotation depends on the
  round and on the word.  The class computes \<open>ripemd160_spec\<close>.
\<close>

section \<open>Transform\<close>

type_synonym rmd_state = sha1_state

definition rmd_f1 :: "word32 \<Rightarrow> word32 \<Rightarrow> word32 \<Rightarrow> word32" where
  "rmd_f1 x y z = x XOR y XOR z"

definition rmd_f2 :: "word32 \<Rightarrow> word32 \<Rightarrow> word32 \<Rightarrow> word32" where
  "rmd_f2 x y z = (x AND y) OR (NOT x AND z)"

definition rmd_f3 :: "word32 \<Rightarrow> word32 \<Rightarrow> word32 \<Rightarrow> word32" where
  "rmd_f3 x y z = (x OR NOT y) XOR z"

definition rmd_f4 :: "word32 \<Rightarrow> word32 \<Rightarrow> word32 \<Rightarrow> word32" where
  "rmd_f4 x y z = (x AND z) OR (y AND NOT z)"

definition rmd_f5 :: "word32 \<Rightarrow> word32 \<Rightarrow> word32 \<Rightarrow> word32" where
  "rmd_f5 x y z = x XOR (y OR NOT z)"

definition rmd_Initialize :: rmd_state where
  "rmd_Initialize = (0x67452301, 0xEFCDAB89, 0x98BADCFE, 0x10325476, 0xC3D2E1F0)"

definition rmd_rol :: "word32 \<Rightarrow> nat \<Rightarrow> word32" where
  "rmd_rol x i = push_bit i x OR drop_bit (32 - i) x"

text \<open>\<open>Round\<close> updates \<open>a\<close> and \<open>c\<close> through references; the model returns the pair.\<close>

definition rmd_Round ::
  "word32 \<Rightarrow> word32 \<Rightarrow> word32 \<Rightarrow> word32 \<Rightarrow> word32 \<Rightarrow> word32 \<Rightarrow> word32 \<Rightarrow> word32 \<Rightarrow> nat \<Rightarrow> word32 \<times> word32" where
  "rmd_Round a b c d e f x k r = (rmd_rol (a + f + x + k) r + e, rmd_rol c 10)"

definition rmd_R11 :: "word32 \<Rightarrow> word32 \<Rightarrow> word32 \<Rightarrow> word32 \<Rightarrow> word32 \<Rightarrow> word32 \<Rightarrow> nat \<Rightarrow> word32 \<times> word32" where
  "rmd_R11 a b c d e x r = rmd_Round a b c d e (rmd_f1 b c d) x 0 r"

definition rmd_R21 :: "word32 \<Rightarrow> word32 \<Rightarrow> word32 \<Rightarrow> word32 \<Rightarrow> word32 \<Rightarrow> word32 \<Rightarrow> nat \<Rightarrow> word32 \<times> word32" where
  "rmd_R21 a b c d e x r = rmd_Round a b c d e (rmd_f2 b c d) x 0x5A827999 r"

definition rmd_R31 :: "word32 \<Rightarrow> word32 \<Rightarrow> word32 \<Rightarrow> word32 \<Rightarrow> word32 \<Rightarrow> word32 \<Rightarrow> nat \<Rightarrow> word32 \<times> word32" where
  "rmd_R31 a b c d e x r = rmd_Round a b c d e (rmd_f3 b c d) x 0x6ED9EBA1 r"

definition rmd_R41 :: "word32 \<Rightarrow> word32 \<Rightarrow> word32 \<Rightarrow> word32 \<Rightarrow> word32 \<Rightarrow> word32 \<Rightarrow> nat \<Rightarrow> word32 \<times> word32" where
  "rmd_R41 a b c d e x r = rmd_Round a b c d e (rmd_f4 b c d) x 0x8F1BBCDC r"

definition rmd_R51 :: "word32 \<Rightarrow> word32 \<Rightarrow> word32 \<Rightarrow> word32 \<Rightarrow> word32 \<Rightarrow> word32 \<Rightarrow> nat \<Rightarrow> word32 \<times> word32" where
  "rmd_R51 a b c d e x r = rmd_Round a b c d e (rmd_f5 b c d) x 0xA953FD4E r"

definition rmd_R12 :: "word32 \<Rightarrow> word32 \<Rightarrow> word32 \<Rightarrow> word32 \<Rightarrow> word32 \<Rightarrow> word32 \<Rightarrow> nat \<Rightarrow> word32 \<times> word32" where
  "rmd_R12 a b c d e x r = rmd_Round a b c d e (rmd_f5 b c d) x 0x50A28BE6 r"

definition rmd_R22 :: "word32 \<Rightarrow> word32 \<Rightarrow> word32 \<Rightarrow> word32 \<Rightarrow> word32 \<Rightarrow> word32 \<Rightarrow> nat \<Rightarrow> word32 \<times> word32" where
  "rmd_R22 a b c d e x r = rmd_Round a b c d e (rmd_f4 b c d) x 0x5C4DD124 r"

definition rmd_R32 :: "word32 \<Rightarrow> word32 \<Rightarrow> word32 \<Rightarrow> word32 \<Rightarrow> word32 \<Rightarrow> word32 \<Rightarrow> nat \<Rightarrow> word32 \<times> word32" where
  "rmd_R32 a b c d e x r = rmd_Round a b c d e (rmd_f3 b c d) x 0x6D703EF3 r"

definition rmd_R42 :: "word32 \<Rightarrow> word32 \<Rightarrow> word32 \<Rightarrow> word32 \<Rightarrow> word32 \<Rightarrow> word32 \<Rightarrow> nat \<Rightarrow> word32 \<times> word32" where
  "rmd_R42 a b c d e x r = rmd_Round a b c d e (rmd_f2 b c d) x 0x7A6D76E9 r"

definition rmd_R52 :: "word32 \<Rightarrow> word32 \<Rightarrow> word32 \<Rightarrow> word32 \<Rightarrow> word32 \<Rightarrow> word32 \<Rightarrow> nat \<Rightarrow> word32 \<times> word32" where
  "rmd_R52 a b c d e x r = rmd_Round a b c d e (rmd_f1 b c d) x 0 r"

definition rmd_rounds1 :: "sha256_window \<Rightarrow> rmd_state \<times> rmd_state \<Rightarrow> rmd_state \<times> rmd_state" where
  "rmd_rounds1 = (\<lambda>(w0, w1, w2, w3, w4, w5, w6, w7, w8, w9, w10, w11, w12, w13, w14, w15) ((a1, b1, c1, d1, e1), (a2, b2, c2, d2, e2)).
    (let (a1, c1) = rmd_R11 a1 b1 c1 d1 e1 w0 11;
     (a2, c2) = rmd_R12 a2 b2 c2 d2 e2 w5 8;
     (e1, b1) = rmd_R11 e1 a1 b1 c1 d1 w1 14;
     (e2, b2) = rmd_R12 e2 a2 b2 c2 d2 w14 9;
     (d1, a1) = rmd_R11 d1 e1 a1 b1 c1 w2 15;
     (d2, a2) = rmd_R12 d2 e2 a2 b2 c2 w7 9;
     (c1, e1) = rmd_R11 c1 d1 e1 a1 b1 w3 12;
     (c2, e2) = rmd_R12 c2 d2 e2 a2 b2 w0 11;
     (b1, d1) = rmd_R11 b1 c1 d1 e1 a1 w4 5;
     (b2, d2) = rmd_R12 b2 c2 d2 e2 a2 w9 13;
     (a1, c1) = rmd_R11 a1 b1 c1 d1 e1 w5 8;
     (a2, c2) = rmd_R12 a2 b2 c2 d2 e2 w2 15;
     (e1, b1) = rmd_R11 e1 a1 b1 c1 d1 w6 7;
     (e2, b2) = rmd_R12 e2 a2 b2 c2 d2 w11 15;
     (d1, a1) = rmd_R11 d1 e1 a1 b1 c1 w7 9;
     (d2, a2) = rmd_R12 d2 e2 a2 b2 c2 w4 5;
     (c1, e1) = rmd_R11 c1 d1 e1 a1 b1 w8 11;
     (c2, e2) = rmd_R12 c2 d2 e2 a2 b2 w13 7;
     (b1, d1) = rmd_R11 b1 c1 d1 e1 a1 w9 13;
     (b2, d2) = rmd_R12 b2 c2 d2 e2 a2 w6 7;
     (a1, c1) = rmd_R11 a1 b1 c1 d1 e1 w10 14;
     (a2, c2) = rmd_R12 a2 b2 c2 d2 e2 w15 8;
     (e1, b1) = rmd_R11 e1 a1 b1 c1 d1 w11 15;
     (e2, b2) = rmd_R12 e2 a2 b2 c2 d2 w8 11;
     (d1, a1) = rmd_R11 d1 e1 a1 b1 c1 w12 6;
     (d2, a2) = rmd_R12 d2 e2 a2 b2 c2 w1 14;
     (c1, e1) = rmd_R11 c1 d1 e1 a1 b1 w13 7;
     (c2, e2) = rmd_R12 c2 d2 e2 a2 b2 w10 14;
     (b1, d1) = rmd_R11 b1 c1 d1 e1 a1 w14 9;
     (b2, d2) = rmd_R12 b2 c2 d2 e2 a2 w3 12;
     (a1, c1) = rmd_R11 a1 b1 c1 d1 e1 w15 8;
     (a2, c2) = rmd_R12 a2 b2 c2 d2 e2 w12 6
     in ((a1, b1, c1, d1, e1), (a2, b2, c2, d2, e2))))"

definition rmd_rounds2 :: "sha256_window \<Rightarrow> rmd_state \<times> rmd_state \<Rightarrow> rmd_state \<times> rmd_state" where
  "rmd_rounds2 = (\<lambda>(w0, w1, w2, w3, w4, w5, w6, w7, w8, w9, w10, w11, w12, w13, w14, w15) ((a1, b1, c1, d1, e1), (a2, b2, c2, d2, e2)).
    (let (e1, b1) = rmd_R21 e1 a1 b1 c1 d1 w7 7;
     (e2, b2) = rmd_R22 e2 a2 b2 c2 d2 w6 9;
     (d1, a1) = rmd_R21 d1 e1 a1 b1 c1 w4 6;
     (d2, a2) = rmd_R22 d2 e2 a2 b2 c2 w11 13;
     (c1, e1) = rmd_R21 c1 d1 e1 a1 b1 w13 8;
     (c2, e2) = rmd_R22 c2 d2 e2 a2 b2 w3 15;
     (b1, d1) = rmd_R21 b1 c1 d1 e1 a1 w1 13;
     (b2, d2) = rmd_R22 b2 c2 d2 e2 a2 w7 7;
     (a1, c1) = rmd_R21 a1 b1 c1 d1 e1 w10 11;
     (a2, c2) = rmd_R22 a2 b2 c2 d2 e2 w0 12;
     (e1, b1) = rmd_R21 e1 a1 b1 c1 d1 w6 9;
     (e2, b2) = rmd_R22 e2 a2 b2 c2 d2 w13 8;
     (d1, a1) = rmd_R21 d1 e1 a1 b1 c1 w15 7;
     (d2, a2) = rmd_R22 d2 e2 a2 b2 c2 w5 9;
     (c1, e1) = rmd_R21 c1 d1 e1 a1 b1 w3 15;
     (c2, e2) = rmd_R22 c2 d2 e2 a2 b2 w10 11;
     (b1, d1) = rmd_R21 b1 c1 d1 e1 a1 w12 7;
     (b2, d2) = rmd_R22 b2 c2 d2 e2 a2 w14 7;
     (a1, c1) = rmd_R21 a1 b1 c1 d1 e1 w0 12;
     (a2, c2) = rmd_R22 a2 b2 c2 d2 e2 w15 7;
     (e1, b1) = rmd_R21 e1 a1 b1 c1 d1 w9 15;
     (e2, b2) = rmd_R22 e2 a2 b2 c2 d2 w8 12;
     (d1, a1) = rmd_R21 d1 e1 a1 b1 c1 w5 9;
     (d2, a2) = rmd_R22 d2 e2 a2 b2 c2 w12 7;
     (c1, e1) = rmd_R21 c1 d1 e1 a1 b1 w2 11;
     (c2, e2) = rmd_R22 c2 d2 e2 a2 b2 w4 6;
     (b1, d1) = rmd_R21 b1 c1 d1 e1 a1 w14 7;
     (b2, d2) = rmd_R22 b2 c2 d2 e2 a2 w9 15;
     (a1, c1) = rmd_R21 a1 b1 c1 d1 e1 w11 13;
     (a2, c2) = rmd_R22 a2 b2 c2 d2 e2 w1 13;
     (e1, b1) = rmd_R21 e1 a1 b1 c1 d1 w8 12;
     (e2, b2) = rmd_R22 e2 a2 b2 c2 d2 w2 11
     in ((a1, b1, c1, d1, e1), (a2, b2, c2, d2, e2))))"

definition rmd_rounds3 :: "sha256_window \<Rightarrow> rmd_state \<times> rmd_state \<Rightarrow> rmd_state \<times> rmd_state" where
  "rmd_rounds3 = (\<lambda>(w0, w1, w2, w3, w4, w5, w6, w7, w8, w9, w10, w11, w12, w13, w14, w15) ((a1, b1, c1, d1, e1), (a2, b2, c2, d2, e2)).
    (let (d1, a1) = rmd_R31 d1 e1 a1 b1 c1 w3 11;
     (d2, a2) = rmd_R32 d2 e2 a2 b2 c2 w15 9;
     (c1, e1) = rmd_R31 c1 d1 e1 a1 b1 w10 13;
     (c2, e2) = rmd_R32 c2 d2 e2 a2 b2 w5 7;
     (b1, d1) = rmd_R31 b1 c1 d1 e1 a1 w14 6;
     (b2, d2) = rmd_R32 b2 c2 d2 e2 a2 w1 15;
     (a1, c1) = rmd_R31 a1 b1 c1 d1 e1 w4 7;
     (a2, c2) = rmd_R32 a2 b2 c2 d2 e2 w3 11;
     (e1, b1) = rmd_R31 e1 a1 b1 c1 d1 w9 14;
     (e2, b2) = rmd_R32 e2 a2 b2 c2 d2 w7 8;
     (d1, a1) = rmd_R31 d1 e1 a1 b1 c1 w15 9;
     (d2, a2) = rmd_R32 d2 e2 a2 b2 c2 w14 6;
     (c1, e1) = rmd_R31 c1 d1 e1 a1 b1 w8 13;
     (c2, e2) = rmd_R32 c2 d2 e2 a2 b2 w6 6;
     (b1, d1) = rmd_R31 b1 c1 d1 e1 a1 w1 15;
     (b2, d2) = rmd_R32 b2 c2 d2 e2 a2 w9 14;
     (a1, c1) = rmd_R31 a1 b1 c1 d1 e1 w2 14;
     (a2, c2) = rmd_R32 a2 b2 c2 d2 e2 w11 12;
     (e1, b1) = rmd_R31 e1 a1 b1 c1 d1 w7 8;
     (e2, b2) = rmd_R32 e2 a2 b2 c2 d2 w8 13;
     (d1, a1) = rmd_R31 d1 e1 a1 b1 c1 w0 13;
     (d2, a2) = rmd_R32 d2 e2 a2 b2 c2 w12 5;
     (c1, e1) = rmd_R31 c1 d1 e1 a1 b1 w6 6;
     (c2, e2) = rmd_R32 c2 d2 e2 a2 b2 w2 14;
     (b1, d1) = rmd_R31 b1 c1 d1 e1 a1 w13 5;
     (b2, d2) = rmd_R32 b2 c2 d2 e2 a2 w10 13;
     (a1, c1) = rmd_R31 a1 b1 c1 d1 e1 w11 12;
     (a2, c2) = rmd_R32 a2 b2 c2 d2 e2 w0 13;
     (e1, b1) = rmd_R31 e1 a1 b1 c1 d1 w5 7;
     (e2, b2) = rmd_R32 e2 a2 b2 c2 d2 w4 7;
     (d1, a1) = rmd_R31 d1 e1 a1 b1 c1 w12 5;
     (d2, a2) = rmd_R32 d2 e2 a2 b2 c2 w13 5
     in ((a1, b1, c1, d1, e1), (a2, b2, c2, d2, e2))))"

definition rmd_rounds4 :: "sha256_window \<Rightarrow> rmd_state \<times> rmd_state \<Rightarrow> rmd_state \<times> rmd_state" where
  "rmd_rounds4 = (\<lambda>(w0, w1, w2, w3, w4, w5, w6, w7, w8, w9, w10, w11, w12, w13, w14, w15) ((a1, b1, c1, d1, e1), (a2, b2, c2, d2, e2)).
    (let (c1, e1) = rmd_R41 c1 d1 e1 a1 b1 w1 11;
     (c2, e2) = rmd_R42 c2 d2 e2 a2 b2 w8 15;
     (b1, d1) = rmd_R41 b1 c1 d1 e1 a1 w9 12;
     (b2, d2) = rmd_R42 b2 c2 d2 e2 a2 w6 5;
     (a1, c1) = rmd_R41 a1 b1 c1 d1 e1 w11 14;
     (a2, c2) = rmd_R42 a2 b2 c2 d2 e2 w4 8;
     (e1, b1) = rmd_R41 e1 a1 b1 c1 d1 w10 15;
     (e2, b2) = rmd_R42 e2 a2 b2 c2 d2 w1 11;
     (d1, a1) = rmd_R41 d1 e1 a1 b1 c1 w0 14;
     (d2, a2) = rmd_R42 d2 e2 a2 b2 c2 w3 14;
     (c1, e1) = rmd_R41 c1 d1 e1 a1 b1 w8 15;
     (c2, e2) = rmd_R42 c2 d2 e2 a2 b2 w11 14;
     (b1, d1) = rmd_R41 b1 c1 d1 e1 a1 w12 9;
     (b2, d2) = rmd_R42 b2 c2 d2 e2 a2 w15 6;
     (a1, c1) = rmd_R41 a1 b1 c1 d1 e1 w4 8;
     (a2, c2) = rmd_R42 a2 b2 c2 d2 e2 w0 14;
     (e1, b1) = rmd_R41 e1 a1 b1 c1 d1 w13 9;
     (e2, b2) = rmd_R42 e2 a2 b2 c2 d2 w5 6;
     (d1, a1) = rmd_R41 d1 e1 a1 b1 c1 w3 14;
     (d2, a2) = rmd_R42 d2 e2 a2 b2 c2 w12 9;
     (c1, e1) = rmd_R41 c1 d1 e1 a1 b1 w7 5;
     (c2, e2) = rmd_R42 c2 d2 e2 a2 b2 w2 12;
     (b1, d1) = rmd_R41 b1 c1 d1 e1 a1 w15 6;
     (b2, d2) = rmd_R42 b2 c2 d2 e2 a2 w13 9;
     (a1, c1) = rmd_R41 a1 b1 c1 d1 e1 w14 8;
     (a2, c2) = rmd_R42 a2 b2 c2 d2 e2 w9 12;
     (e1, b1) = rmd_R41 e1 a1 b1 c1 d1 w5 6;
     (e2, b2) = rmd_R42 e2 a2 b2 c2 d2 w7 5;
     (d1, a1) = rmd_R41 d1 e1 a1 b1 c1 w6 5;
     (d2, a2) = rmd_R42 d2 e2 a2 b2 c2 w10 15;
     (c1, e1) = rmd_R41 c1 d1 e1 a1 b1 w2 12;
     (c2, e2) = rmd_R42 c2 d2 e2 a2 b2 w14 8
     in ((a1, b1, c1, d1, e1), (a2, b2, c2, d2, e2))))"

definition rmd_rounds5 :: "sha256_window \<Rightarrow> rmd_state \<times> rmd_state \<Rightarrow> rmd_state \<times> rmd_state" where
  "rmd_rounds5 = (\<lambda>(w0, w1, w2, w3, w4, w5, w6, w7, w8, w9, w10, w11, w12, w13, w14, w15) ((a1, b1, c1, d1, e1), (a2, b2, c2, d2, e2)).
    (let (b1, d1) = rmd_R51 b1 c1 d1 e1 a1 w4 9;
     (b2, d2) = rmd_R52 b2 c2 d2 e2 a2 w12 8;
     (a1, c1) = rmd_R51 a1 b1 c1 d1 e1 w0 15;
     (a2, c2) = rmd_R52 a2 b2 c2 d2 e2 w15 5;
     (e1, b1) = rmd_R51 e1 a1 b1 c1 d1 w5 5;
     (e2, b2) = rmd_R52 e2 a2 b2 c2 d2 w10 12;
     (d1, a1) = rmd_R51 d1 e1 a1 b1 c1 w9 11;
     (d2, a2) = rmd_R52 d2 e2 a2 b2 c2 w4 9;
     (c1, e1) = rmd_R51 c1 d1 e1 a1 b1 w7 6;
     (c2, e2) = rmd_R52 c2 d2 e2 a2 b2 w1 12;
     (b1, d1) = rmd_R51 b1 c1 d1 e1 a1 w12 8;
     (b2, d2) = rmd_R52 b2 c2 d2 e2 a2 w5 5;
     (a1, c1) = rmd_R51 a1 b1 c1 d1 e1 w2 13;
     (a2, c2) = rmd_R52 a2 b2 c2 d2 e2 w8 14;
     (e1, b1) = rmd_R51 e1 a1 b1 c1 d1 w10 12;
     (e2, b2) = rmd_R52 e2 a2 b2 c2 d2 w7 6;
     (d1, a1) = rmd_R51 d1 e1 a1 b1 c1 w14 5;
     (d2, a2) = rmd_R52 d2 e2 a2 b2 c2 w6 8;
     (c1, e1) = rmd_R51 c1 d1 e1 a1 b1 w1 12;
     (c2, e2) = rmd_R52 c2 d2 e2 a2 b2 w2 13;
     (b1, d1) = rmd_R51 b1 c1 d1 e1 a1 w3 13;
     (b2, d2) = rmd_R52 b2 c2 d2 e2 a2 w13 6;
     (a1, c1) = rmd_R51 a1 b1 c1 d1 e1 w8 14;
     (a2, c2) = rmd_R52 a2 b2 c2 d2 e2 w14 5;
     (e1, b1) = rmd_R51 e1 a1 b1 c1 d1 w11 11;
     (e2, b2) = rmd_R52 e2 a2 b2 c2 d2 w0 15;
     (d1, a1) = rmd_R51 d1 e1 a1 b1 c1 w6 8;
     (d2, a2) = rmd_R52 d2 e2 a2 b2 c2 w3 13;
     (c1, e1) = rmd_R51 c1 d1 e1 a1 b1 w15 5;
     (c2, e2) = rmd_R52 c2 d2 e2 a2 b2 w9 11;
     (b1, d1) = rmd_R51 b1 c1 d1 e1 a1 w13 6;
     (b2, d2) = rmd_R52 b2 c2 d2 e2 a2 w11 11
     in ((a1, b1, c1, d1, e1), (a2, b2, c2, d2, e2))))"

definition rmd_words :: "byte list \<Rightarrow> sha256_window" where
  "rmd_words chunk =
     (ReadLE32 (drop 0 chunk), ReadLE32 (drop 4 chunk), ReadLE32 (drop 8 chunk), ReadLE32 (drop 12 chunk),
      ReadLE32 (drop 16 chunk), ReadLE32 (drop 20 chunk), ReadLE32 (drop 24 chunk), ReadLE32 (drop 28 chunk),
      ReadLE32 (drop 32 chunk), ReadLE32 (drop 36 chunk), ReadLE32 (drop 40 chunk), ReadLE32 (drop 44 chunk),
      ReadLE32 (drop 48 chunk), ReadLE32 (drop 52 chunk), ReadLE32 (drop 56 chunk), ReadLE32 (drop 60 chunk))"

fun ripemd160_Transform :: "rmd_state \<Rightarrow> byte list \<Rightarrow> rmd_state" where
  "ripemd160_Transform (s0, s1, s2, s3, s4) chunk =
     (let s = (s0, s1, s2, s3, s4); w = rmd_words chunk in
      case rmd_rounds5 w (rmd_rounds4 w (rmd_rounds3 w (rmd_rounds2 w (rmd_rounds1 w (s, s))))) of
        ((a1, b1, c1, d1, e1), (a2, b2, c2, d2, e2)) \<Rightarrow>
          (s1 + c1 + d2, s2 + d1 + e2, s3 + e1 + a2, s4 + a1 + b2, s0 + b1 + c2))"

declare ripemd160_Transform.simps [simp del]

section \<open>The class CRIPEMD160\<close>

definition CRIPEMD160 :: "byte list \<Rightarrow> rmd_state hasher" where
  "CRIPEMD160 buf = \<lparr>h_s = rmd_Initialize, h_buf = buf, h_bytes = 0\<rparr>"

definition CRIPEMD160_Write :: "rmd_state hasher \<Rightarrow> byte list \<Rightarrow> rmd_state hasher" where
  "CRIPEMD160_Write h data =
     (let (h, data, bufsize) = Write_fill 64 ripemd160_Transform h data;
          (h, data) = Write_chunks 64 ripemd160_Transform h data
      in Write_rest h data bufsize)"

fun rmd_output :: "rmd_state \<Rightarrow> byte list" where
  "rmd_output (s0, s1, s2, s3, s4) =
     WriteLE32 s0 @ WriteLE32 s1 @ WriteLE32 s2 @ WriteLE32 s3 @ WriteLE32 s4"

definition CRIPEMD160_Finalize :: "rmd_state hasher \<Rightarrow> byte list" where
  "CRIPEMD160_Finalize h =
     (let pad = 0x80 # replicate 63 0;
          sizedesc = WriteLE64 (push_bit 3 (h_bytes h));
          h = CRIPEMD160_Write h (take (1 + (119 - unat (h_bytes h) mod 64) mod 64) pad);
          h = CRIPEMD160_Write h sizedesc
      in rmd_output (h_s h))"

definition CRIPEMD160_Reset :: "rmd_state hasher \<Rightarrow> rmd_state hasher" where
  "CRIPEMD160_Reset h = h\<lparr>h_bytes := 0, h_s := rmd_Initialize\<rparr>"

section \<open>Reference\<close>

definition rmd_rho :: "nat \<Rightarrow> nat" where
  "rmd_rho i = [7, 4, 13, 1, 10, 6, 15, 3, 12, 0, 9, 5, 2, 14, 11, 8] ! i"

definition rmd_pi :: "nat \<Rightarrow> nat" where
  "rmd_pi i = (9 * i + 5) mod 16"

text \<open>The rotation of each message word, one row per round.\<close>

definition rmd_shift :: "nat \<Rightarrow> nat \<Rightarrow> nat" where
  "rmd_shift n i =
     [[11, 14, 15, 12, 5, 8, 7, 9, 11, 13, 14, 15, 6, 7, 9, 8],
      [12, 13, 11, 15, 6, 9, 9, 7, 12, 15, 11, 13, 7, 8, 7, 7],
      [13, 15, 14, 11, 7, 7, 6, 8, 13, 14, 13, 12, 5, 5, 6, 9],
      [14, 11, 12, 14, 8, 6, 5, 5, 15, 12, 15, 14, 9, 9, 8, 6],
      [15, 12, 13, 13, 9, 5, 8, 6, 14, 11, 12, 11, 8, 6, 5, 5]] ! n ! i"

definition rmd_order :: "nat \<Rightarrow> (nat \<Rightarrow> nat) \<Rightarrow> (nat \<times> nat) list" where
  "rmd_order n p = map (\<lambda>i. let j = (rmd_rho ^^ n) (p i) in (j, rmd_shift n j)) [0..<16]"

fun rmd_step :: "(word32 \<Rightarrow> word32 \<Rightarrow> word32 \<Rightarrow> word32) \<Rightarrow> word32 \<Rightarrow> word32 \<Rightarrow> nat \<Rightarrow> rmd_state \<Rightarrow> rmd_state" where
  "rmd_step f k x r (a, b, c, d, e) = (e, rmd_rol (a + f b c d + x + k) r + e, b, rmd_rol c 10, d)"

declare rmd_step.simps [simp del]

fun rmd_line ::
  "(word32 \<Rightarrow> word32 \<Rightarrow> word32 \<Rightarrow> word32) \<Rightarrow> word32 \<Rightarrow> (nat \<Rightarrow> word32) \<Rightarrow> (nat \<times> nat) list \<Rightarrow> rmd_state \<Rightarrow> rmd_state" where
  "rmd_line f k X [] s = s"
| "rmd_line f k X ((j, r) # ps) s = rmd_line f k X ps (rmd_step f k (X j) r s)"

definition rmd_left :: "(nat \<Rightarrow> word32) \<Rightarrow> rmd_state \<Rightarrow> rmd_state" where
  "rmd_left X s =
     rmd_line rmd_f5 0xA953FD4E X (rmd_order 4 id) (rmd_line rmd_f4 0x8F1BBCDC X (rmd_order 3 id)
     (rmd_line rmd_f3 0x6ED9EBA1 X (rmd_order 2 id) (rmd_line rmd_f2 0x5A827999 X (rmd_order 1 id)
     (rmd_line rmd_f1 0 X (rmd_order 0 id) s))))"

definition rmd_right :: "(nat \<Rightarrow> word32) \<Rightarrow> rmd_state \<Rightarrow> rmd_state" where
  "rmd_right X s =
     rmd_line rmd_f1 0 X (rmd_order 4 rmd_pi) (rmd_line rmd_f2 0x7A6D76E9 X (rmd_order 3 rmd_pi)
     (rmd_line rmd_f3 0x6D703EF3 X (rmd_order 2 rmd_pi) (rmd_line rmd_f4 0x5C4DD124 X (rmd_order 1 rmd_pi)
     (rmd_line rmd_f5 0x50A28BE6 X (rmd_order 0 rmd_pi) s))))"

fun rmd_combine :: "rmd_state \<Rightarrow> rmd_state \<Rightarrow> rmd_state \<Rightarrow> rmd_state" where
  "rmd_combine (h0, h1, h2, h3, h4) (a1, b1, c1, d1, e1) (a2, b2, c2, d2, e2) =
     (h1 + c1 + d2, h2 + d1 + e2, h3 + e1 + a2, h4 + a1 + b2, h0 + b1 + c2)"

definition rmd_compress :: "rmd_state \<Rightarrow> byte list \<Rightarrow> rmd_state" where
  "rmd_compress s M =
     (let X = (\<lambda>j. ReadLE32 (drop (4 * j) M)) in rmd_combine s (rmd_left X s) (rmd_right X s))"

definition rmd_pad :: "byte list \<Rightarrow> byte list" where
  "rmd_pad m = 0x80 # replicate ((119 - length m mod 64) mod 64) 0 @ WriteLE64 (of_nat (8 * length m))"

definition ripemd160_spec :: "byte list \<Rightarrow> byte list" where
  "ripemd160_spec m = rmd_output (absorb 64 rmd_compress rmd_Initialize (m @ rmd_pad m))"

section \<open>The unrolled rounds compute the reference\<close>

text \<open>The word orders and rotations of the ten half-rounds, evaluated.\<close>

lemma rmd_order_list:
  "rmd_order 0 id =
    [(0, 11), (1, 14), (2, 15), (3, 12), (4, 5), (5, 8), (6, 7), (7, 9),
     (8, 11), (9, 13), (10, 14), (11, 15), (12, 6), (13, 7), (14, 9), (15, 8)]"
  "rmd_order 1 id =
    [(7, 7), (4, 6), (13, 8), (1, 13), (10, 11), (6, 9), (15, 7), (3, 15),
     (12, 7), (0, 12), (9, 15), (5, 9), (2, 11), (14, 7), (11, 13), (8, 12)]"
  "rmd_order 2 id =
    [(3, 11), (10, 13), (14, 6), (4, 7), (9, 14), (15, 9), (8, 13), (1, 15),
     (2, 14), (7, 8), (0, 13), (6, 6), (13, 5), (11, 12), (5, 7), (12, 5)]"
  "rmd_order 3 id =
    [(1, 11), (9, 12), (11, 14), (10, 15), (0, 14), (8, 15), (12, 9), (4, 8),
     (13, 9), (3, 14), (7, 5), (15, 6), (14, 8), (5, 6), (6, 5), (2, 12)]"
  "rmd_order 4 id =
    [(4, 9), (0, 15), (5, 5), (9, 11), (7, 6), (12, 8), (2, 13), (10, 12),
     (14, 5), (1, 12), (3, 13), (8, 14), (11, 11), (6, 8), (15, 5), (13, 6)]"
  "rmd_order 0 rmd_pi =
    [(5, 8), (14, 9), (7, 9), (0, 11), (9, 13), (2, 15), (11, 15), (4, 5),
     (13, 7), (6, 7), (15, 8), (8, 11), (1, 14), (10, 14), (3, 12), (12, 6)]"
  "rmd_order 1 rmd_pi =
    [(6, 9), (11, 13), (3, 15), (7, 7), (0, 12), (13, 8), (5, 9), (10, 11),
     (14, 7), (15, 7), (8, 12), (12, 7), (4, 6), (9, 15), (1, 13), (2, 11)]"
  "rmd_order 2 rmd_pi =
    [(15, 9), (5, 7), (1, 15), (3, 11), (7, 8), (14, 6), (6, 6), (9, 14),
     (11, 12), (8, 13), (12, 5), (2, 14), (10, 13), (0, 13), (4, 7), (13, 5)]"
  "rmd_order 3 rmd_pi =
    [(8, 15), (6, 5), (4, 8), (1, 11), (3, 14), (11, 14), (15, 6), (0, 14),
     (5, 6), (12, 9), (2, 12), (13, 9), (9, 12), (7, 5), (10, 15), (14, 8)]"
  "rmd_order 4 rmd_pi =
    [(12, 8), (15, 5), (10, 12), (4, 9), (1, 12), (5, 5), (8, 14), (7, 6),
     (6, 8), (2, 13), (13, 6), (14, 5), (0, 15), (3, 13), (9, 11), (11, 11)]"
  by code_simp+

text \<open>Both lines take a step at a time, left first, as the source interleaves them.\<close>

fun rmd_both ::
  "(word32 \<Rightarrow> word32 \<Rightarrow> word32 \<Rightarrow> word32) \<Rightarrow> word32 \<Rightarrow> (word32 \<Rightarrow> word32 \<Rightarrow> word32 \<Rightarrow> word32) \<Rightarrow> word32 \<Rightarrow>
   (nat \<Rightarrow> word32) \<Rightarrow> (nat \<times> nat) list \<Rightarrow> (nat \<times> nat) list \<Rightarrow> rmd_state \<times> rmd_state \<Rightarrow> rmd_state \<times> rmd_state" where
  "rmd_both f k f' k' X ((j, r) # ps) ((j', r') # qs) (s, s') =
     rmd_both f k f' k' X ps qs (rmd_step f k (X j) r s, rmd_step f' k' (X j') r' s')"
| "rmd_both f k f' k' X ps qs s = s"

lemma rmd_both_line:
  "length ps = length qs \<Longrightarrow>
   rmd_both f k f' k' X ps qs (s, s') = (rmd_line f k X ps s, rmd_line f' k' X qs s')"
proof (induction ps qs arbitrary: s s' rule: list_induct2)
  case (Cons x xs y ys)
  then show ?case by (cases x; cases y) simp
qed simp

definition rmd_step2 ::
  "(word32 \<Rightarrow> word32 \<Rightarrow> word32 \<Rightarrow> word32) \<Rightarrow> word32 \<Rightarrow> (word32 \<Rightarrow> word32 \<Rightarrow> word32 \<Rightarrow> word32) \<Rightarrow> word32 \<Rightarrow>
   word32 \<Rightarrow> nat \<Rightarrow> word32 \<Rightarrow> nat \<Rightarrow> rmd_state \<times> rmd_state \<Rightarrow> rmd_state \<times> rmd_state" where
  "rmd_step2 f k f' k' x r x' r' p = (rmd_step f k x r (fst p), rmd_step f' k' x' r' (snd p))"

lemma rmd_both_Cons:
  "rmd_both f k f' k' X ((j, r) # ps) ((j', r') # qs) p =
   rmd_both f k f' k' X ps qs (rmd_step2 f k f' k' (X j) r (X j') r' p)"
  by (cases p) (simp add: rmd_step2_def)

lemma rmd_step2_Round:
  "rmd_step2 f k f' k' x r x' r' ((a, b, c, d, e), (a', b', c', d', e')) =
     (case rmd_Round a b c d e (f b c d) x k r of (a, c) \<Rightarrow>
      case rmd_Round a' b' c' d' e' (f' b' c' d') x' k' r' of (a', c') \<Rightarrow>
        ((e, a, b, c, d), (e', a', b', c', d')))"
  by (simp add: rmd_step2_def rmd_step.simps rmd_Round_def)

lemma rmd_step2_case:
  "rmd_step2 f k f' k' x r x' r' (case p of (y, z) \<Rightarrow> F y z) =
   (case p of (y, z) \<Rightarrow> rmd_step2 f k f' k' x r x' r' (F y z))"
  by (cases p) simp

definition rmd_rot2 :: "rmd_state \<times> rmd_state \<Rightarrow> rmd_state \<times> rmd_state" where
  "rmd_rot2 p = (sha1_rot (fst p), sha1_rot (snd p))"

lemma rmd_rot2_simps: "rmd_rot2 ((a, b, c, d, e), (a', b', c', d', e')) = ((e, a, b, c, d), (e', a', b', c', d'))"
  by (simp add: rmd_rot2_def)

lemma rmd_rot2_case: "rmd_rot2 (case p of (y, z) \<Rightarrow> F y z) = (case p of (y, z) \<Rightarrow> rmd_rot2 (F y z))"
  by (cases p) simp

lemma rmd_pair_cases:
  fixes p :: "rmd_state \<times> rmd_state"
  obtains a b c d e a' b' c' d' e' where "p = ((a, b, c, d, e), (a', b', c', d', e'))"
  by (cases p) auto

lemma rmd_words_window: "rmd_words M = sha256_window (\<lambda>j. ReadLE32 (drop (4 * j) M)) 0"
  by (simp add: rmd_words_def sha256_window_def)

lemmas rmd_unroll = prod.case Let_def rmd_both_Cons rmd_both.simps(2) rmd_step2_Round rmd_step2_case rmd_rot2_simps
  rmd_rot2_case rmd_R11_def rmd_R21_def rmd_R31_def rmd_R41_def rmd_R51_def rmd_R12_def rmd_R22_def
  rmd_R32_def rmd_R42_def rmd_R52_def sha256_window_def add_0 rmd_order_list

lemma rmd_rounds1_both:
  "rmd_rounds1 (sha256_window X 0) p =
   rmd_rot2 (rmd_rot2 (rmd_rot2 (rmd_rot2 (rmd_both rmd_f1 0 rmd_f5 0x50A28BE6 X (rmd_order 0 id) (rmd_order 0 rmd_pi) p))))"
  by (cases p rule: rmd_pair_cases) (simp only: rmd_rounds1_def rmd_unroll)

lemma rmd_rounds2_both:
  "rmd_rounds2 (sha256_window X 0) p =
   rmd_rot2 (rmd_rot2 (rmd_rot2 (rmd_both rmd_f2 0x5A827999 rmd_f4 0x5C4DD124 X (rmd_order 1 id) (rmd_order 1 rmd_pi) (rmd_rot2 p))))"
  by (cases p rule: rmd_pair_cases) (simp only: rmd_rounds2_def rmd_unroll)

lemma rmd_rounds3_both:
  "rmd_rounds3 (sha256_window X 0) p =
   rmd_rot2 (rmd_rot2 (rmd_both rmd_f3 0x6ED9EBA1 rmd_f3 0x6D703EF3 X (rmd_order 2 id) (rmd_order 2 rmd_pi) (rmd_rot2 (rmd_rot2 p))))"
  by (cases p rule: rmd_pair_cases) (simp only: rmd_rounds3_def rmd_unroll)

lemma rmd_rounds4_both:
  "rmd_rounds4 (sha256_window X 0) p =
   rmd_rot2 (rmd_both rmd_f4 0x8F1BBCDC rmd_f2 0x7A6D76E9 X (rmd_order 3 id) (rmd_order 3 rmd_pi) (rmd_rot2 (rmd_rot2 (rmd_rot2 p))))"
  by (cases p rule: rmd_pair_cases) (simp only: rmd_rounds4_def rmd_unroll)

lemma rmd_rounds5_both:
  "rmd_rounds5 (sha256_window X 0) p =
   rmd_both rmd_f5 0xA953FD4E rmd_f1 0 X (rmd_order 4 id) (rmd_order 4 rmd_pi) (rmd_rot2 (rmd_rot2 (rmd_rot2 (rmd_rot2 p))))"
  by (cases p rule: rmd_pair_cases) (simp only: rmd_rounds5_def rmd_unroll)

lemma rmd_rot2_5: "rmd_rot2 (rmd_rot2 (rmd_rot2 (rmd_rot2 (rmd_rot2 p)))) = p"
  by (simp add: rmd_rot2_def sha1_rot_5)

lemma length_rmd_order [simp]: "length (rmd_order n p) = 16"
  by (simp add: rmd_order_def)

lemma ripemd160_Transform_rounds:
  "ripemd160_Transform s M =
     (let w = rmd_words M;
          p = rmd_rounds5 w (rmd_rounds4 w (rmd_rounds3 w (rmd_rounds2 w (rmd_rounds1 w (s, s)))))
      in rmd_combine s (fst p) (snd p))"
  by (cases s rule: sha1_state_cases) (auto simp: ripemd160_Transform.simps Let_def split: prod.splits)

lemma ripemd160_Transform_compress: "ripemd160_Transform s M = rmd_compress s M"
  unfolding ripemd160_Transform_rounds rmd_compress_def rmd_words_window Let_def rmd_rounds1_both rmd_rounds2_both
    rmd_rounds3_both rmd_rounds4_both rmd_rounds5_both rmd_rot2_5 rmd_left_def rmd_right_def
  by (simp add: rmd_both_line)

lemma ripemd160_Transform_take: "ripemd160_Transform s (take 64 M) = ripemd160_Transform s M"
proof -
  have "rmd_words (take 64 M) = rmd_words M" by (simp add: rmd_words_def drop_take)
  then show ?thesis by (simp add: ripemd160_Transform_rounds)
qed

interpretation ripemd160: block_hasher 64 ripemd160_Transform CRIPEMD160_Write
proof
  show "absorbed 64 ripemd160_Transform iv (CRIPEMD160_Write h d) (m @ d)"
    if "absorbed 64 ripemd160_Transform iv h m" for iv h m d
    using Write_stages_absorbed [OF _ _ ripemd160_Transform_take that]
    by (simp add: CRIPEMD160_Write_def split: prod.split)
qed simp_all

lemma CRIPEMD160_Finalize_absorbed:
  assumes "absorbed 64 ripemd160_Transform rmd_Initialize h m"
  shows "CRIPEMD160_Finalize h = ripemd160_spec m"
proof -
  have "ripemd160_Transform = rmd_compress" by (intro ext) (rule ripemd160_Transform_compress)
  then show ?thesis
    using ripemd160.pad_taken [OF assms] ripemd160.absorbed_bits [OF assms]
    by (simp add: CRIPEMD160_Finalize_def ripemd160.padded_state [OF assms] ripemd160_spec_def rmd_pad_def)
qed

lemma ripemd160_class_spec:
  "length buf = 64 \<Longrightarrow>
   CRIPEMD160_Finalize (foldl CRIPEMD160_Write (CRIPEMD160 buf) ds) = ripemd160_spec (concat ds)"
  using ripemd160.writes_absorb [OF ripemd160.new_absorbed]
  by (simp add: CRIPEMD160_def CRIPEMD160_Finalize_absorbed)

lemma length_ripemd160_spec [simp]: "length (ripemd160_spec m) = 20"
proof -
  have "length (rmd_output s) = 20" for s by (cases s rule: sha1_state_cases) simp
  then show ?thesis by (simp add: ripemd160_spec_def)
qed

end
