(* ===== verification/Hash.thy ===== *)
theory Hash
  imports Ripemd160
begin

unbundle bit_operations_syntax

text \<open>
  \<^verbatim>\<open>src/hash.h\<close> and \<^verbatim>\<open>src/hash.cpp\<close>: the double SHA-256 and the SHA-256/RIPEMD-160 hashers, the
  \<open>Hash\<close> and \<open>Hash160\<close> helpers over them, and SipHash-2-4 with its two specialised routines.

  The one-shot functions \<open>sha256\<close>, \<open>sha1\<close>, \<open>ripemd160\<close>, \<open>hash256\<close> and \<open>hash160\<close> are what the rest of the
  development calls; they run the classes on a fresh object.
\<close>

section \<open>One-shot hashes\<close>

abbreviation blank :: "byte list" where
  "blank \<equiv> replicate 64 0"

definition sha256 :: "byte list \<Rightarrow> byte list" where
  "sha256 data = CSHA256_Finalize (CSHA256_Write (CSHA256 blank) data)"

definition sha1 :: "byte list \<Rightarrow> byte list" where
  "sha1 data = CSHA1_Finalize (CSHA1_Write (CSHA1 blank) data)"

definition ripemd160 :: "byte list \<Rightarrow> byte list" where
  "ripemd160 data = CRIPEMD160_Finalize (CRIPEMD160_Write (CRIPEMD160 blank) data)"

section \<open>CHash256 and CHash160\<close>

text \<open>
  Both classes hold a \<open>CSHA256\<close>; \<open>CHash256::Finalize\<close> resets and reuses that same object, whose
  buffer still holds the padding of the first hash.
\<close>

definition CHash256_Finalize :: "sha256_state hasher \<Rightarrow> byte list" where
  "CHash256_Finalize sha =
     (let buf = CSHA256_Finalize sha
      in CSHA256_Finalize (CSHA256_Write (CSHA256_Reset (CSHA256_finish sha)) buf))"

definition CHash160_Finalize :: "sha256_state hasher \<Rightarrow> byte list" where
  "CHash160_Finalize sha =
     (let buf = CSHA256_Finalize sha
      in CRIPEMD160_Finalize (CRIPEMD160_Write (CRIPEMD160 blank) buf))"

definition hash256 :: "byte list \<Rightarrow> byte list" where
  "hash256 data = CHash256_Finalize (CSHA256_Write (CSHA256 blank) data)"

definition hash160 :: "byte list \<Rightarrow> byte list" where
  "hash160 data = CHash160_Finalize (CSHA256_Write (CSHA256 blank) data)"

text \<open>
  A \<open>uint256\<close> or \<open>uint160\<close> is an array of bytes; the word has those bytes in little-endian order, as
  \<open>GetUint64\<close> and \<open>UintToArith256\<close> read them.
\<close>

definition uint256_of :: "byte list \<Rightarrow> uint256" where
  "uint256_of bs = of_nat (le_val bs)"

definition uint256_data :: "uint256 \<Rightarrow> byte list" where
  "uint256_data h = le_bytes 32 (unat h)"

definition uint160_of :: "byte list \<Rightarrow> uint160" where
  "uint160_of bs = of_nat (le_val bs)"

definition uint160_data :: "uint160 \<Rightarrow> byte list" where
  "uint160_data h = le_bytes 20 (unat h)"

definition GetUint64 :: "uint256 \<Rightarrow> nat \<Rightarrow> 64 word" where
  "GetUint64 val pos = ReadLE64 (drop (pos * 8) (uint256_data val))"

definition Hash :: "byte list \<Rightarrow> uint256" where
  "Hash vch = uint256_of (hash256 vch)"

definition Hash_2 :: "byte list \<Rightarrow> byte list \<Rightarrow> uint256" where
  "Hash_2 p1 p2 = uint256_of (CHash256_Finalize (CSHA256_Write (CSHA256_Write (CSHA256 blank) p1) p2))"

definition Hash160 :: "byte list \<Rightarrow> uint160" where
  "Hash160 vch = uint160_of (hash160 vch)"

lemma sha256_eq: "sha256 data = sha256_spec data"
  using sha256_Write_Finalize [OF CSHA256_new, of blank] by (simp add: sha256_def)

lemma sha1_eq: "sha1 data = sha1_spec data"
  using sha1_class_spec [of blank "[data]"] by (simp add: sha1_def)

lemma ripemd160_eq: "ripemd160 data = ripemd160_spec data"
  using ripemd160_class_spec [of blank "[data]"] by (simp add: ripemd160_def)

lemma CHash256_Finalize_absorbed:
  assumes "absorbed 64 sha256_compress sha256_Initialize sha m"
  shows "CHash256_Finalize sha = sha256_spec (sha256_spec m)"
proof -
  obtain m' where "absorbed 64 sha256_compress sha256_Initialize (CSHA256_finish sha) m'"
    using CSHA256_finish_absorbed [OF assms] ..
  from sha256_Write_Finalize [OF CSHA256_Reset_absorbed [OF this]]
  show ?thesis by (simp add: CHash256_Finalize_def CSHA256_Finalize_absorbed [OF assms])
qed

lemma hash256_eq: "hash256 data = sha256 (sha256 data)"
  using CHash256_Finalize_absorbed [OF sha256.Write_absorbs [OF CSHA256_new, of blank]]
  by (simp add: hash256_def sha256_eq)

lemma hash160_eq: "hash160 data = ripemd160 (sha256 data)"
  by (simp add: hash160_def CHash160_Finalize_def ripemd160_def sha256_def)

lemma Hash_2_eq: "Hash_2 p1 p2 = Hash (p1 @ p2)"
  using CHash256_Finalize_absorbed [OF sha256.Write_absorbs [OF sha256.Write_absorbs [OF CSHA256_new, of blank]]]
  by (simp add: Hash_2_def Hash_def hash256_eq sha256_eq)

lemma length_hashes [simp]:
  "length (sha256 d) = 32" "length (sha1 d) = 20" "length (ripemd160 d) = 20"
  "length (hash256 d) = 32" "length (hash160 d) = 20"
  by (simp_all add: hash256_eq hash160_eq sha256_eq sha1_eq ripemd160_eq)

lemma uint256_data_of: "length bs = 32 \<Longrightarrow> uint256_data (uint256_of bs) = bs"
  using le_word_iff [of 32 bs "[]" "uint256_of bs"] by (auto simp: uint256_data_def uint256_of_def)

lemma uint160_data_of: "length bs = 20 \<Longrightarrow> uint160_data (uint160_of bs) = bs"
  using le_word_iff [of 20 bs "[]" "uint160_of bs"] by (auto simp: uint160_data_def uint160_of_def)

lemma length_uint256_data [simp]: "length (uint256_data h) = 32"
  by (simp add: uint256_data_def)

lemma length_uint160_data [simp]: "length (uint160_data h) = 20"
  by (simp add: uint160_data_def)

lemma uint256_of_data: "uint256_of (uint256_data h) = h"
  using le_word_iff [of 32 "uint256_data h" "[]" h] by (auto simp: uint256_data_def uint256_of_def)

section \<open>SipHash-2-4\<close>

type_synonym sip_state = "64 word \<times> 64 word \<times> 64 word \<times> 64 word"

text \<open>The byte counter is an \<open>int\<close> in the source; it stays far below \<open>2 ^ 31\<close> and is a \<open>nat\<close> here.\<close>

record CSipHasher =
  sip_v :: sip_state
  sip_tmp :: "64 word"
  sip_count :: nat

definition sip_ROTL :: "64 word \<Rightarrow> nat \<Rightarrow> 64 word" where
  "sip_ROTL x b = push_bit b x OR drop_bit (64 - b) x"

fun SIPROUND :: "sip_state \<Rightarrow> sip_state" where
  "SIPROUND (v0, v1, v2, v3) =
     (let v0 = v0 + v1; v1 = sip_ROTL v1 13; v1 = v1 XOR v0;
          v0 = sip_ROTL v0 32;
          v2 = v2 + v3; v3 = sip_ROTL v3 16; v3 = v3 XOR v2;
          v0 = v0 + v3; v3 = sip_ROTL v3 21; v3 = v3 XOR v0;
          v2 = v2 + v1; v1 = sip_ROTL v1 17; v1 = v1 XOR v2;
          v2 = sip_ROTL v2 32
      in (v0, v1, v2, v3))"

declare SIPROUND.simps [simp del]

text \<open>The exclusive-or updates \<open>v0 ^= d\<close>, \<open>v2 ^= d\<close> and \<open>v3 ^= d\<close> of the routines.\<close>

fun sip_xor0 :: "64 word \<Rightarrow> sip_state \<Rightarrow> sip_state" where
  "sip_xor0 d (v0, v1, v2, v3) = (v0 XOR d, v1, v2, v3)"

fun sip_xor2 :: "64 word \<Rightarrow> sip_state \<Rightarrow> sip_state" where
  "sip_xor2 d (v0, v1, v2, v3) = (v0, v1, v2 XOR d, v3)"

fun sip_xor3 :: "64 word \<Rightarrow> sip_state \<Rightarrow> sip_state" where
  "sip_xor3 d (v0, v1, v2, v3) = (v0, v1, v2, v3 XOR d)"

fun sip_result :: "sip_state \<Rightarrow> 64 word" where
  "sip_result (v0, v1, v2, v3) = v0 XOR v1 XOR v2 XOR v3"

definition CSipHasher :: "64 word \<Rightarrow> 64 word \<Rightarrow> CSipHasher" where
  "CSipHasher k0 k1 =
     \<lparr>sip_v = (0x736f6d6570736575 XOR k0, 0x646f72616e646f6d XOR k1,
               0x6c7967656e657261 XOR k0, 0x7465646279746573 XOR k1),
      sip_tmp = 0, sip_count = 0\<rparr>"

text \<open>\<open>Write(uint64_t)\<close> asserts that whole words have been written so far; a failed assertion is \<open>None\<close>.\<close>

definition CSipHasher_Write64 :: "CSipHasher \<Rightarrow> 64 word \<Rightarrow> CSipHasher option" where
  "CSipHasher_Write64 h data =
     (if sip_count h mod 8 \<noteq> 0 then None
      else Some (h\<lparr>sip_v := sip_xor0 data (SIPROUND (SIPROUND (sip_xor3 data (sip_v h)))),
                   sip_count := sip_count h + 8\<rparr>))"

fun sip_write_loop :: "sip_state \<Rightarrow> 64 word \<Rightarrow> nat \<Rightarrow> byte list \<Rightarrow> sip_state \<times> 64 word \<times> nat" where
  "sip_write_loop v t c [] = (v, t, c)"
| "sip_write_loop v t c (b # data) =
     (let t = t OR push_bit (8 * (c mod 8)) (ucast b); c = c + 1
      in if c mod 8 = 0
         then sip_write_loop (sip_xor0 t (SIPROUND (SIPROUND (sip_xor3 t v)))) 0 c data
         else sip_write_loop v t c data)"

definition CSipHasher_Write :: "CSipHasher \<Rightarrow> byte list \<Rightarrow> CSipHasher" where
  "CSipHasher_Write h data =
     (case sip_write_loop (sip_v h) (sip_tmp h) (sip_count h) data of
        (v, t, c) \<Rightarrow> h\<lparr>sip_v := v, sip_count := c, sip_tmp := t\<rparr>)"

definition CSipHasher_Finalize :: "CSipHasher \<Rightarrow> 64 word" where
  "CSipHasher_Finalize h =
     (let t = sip_tmp h OR push_bit 56 (of_nat (sip_count h));
          v = sip_xor0 t (SIPROUND (SIPROUND (sip_xor3 t (sip_v h))))
      in sip_result (SIPROUND (SIPROUND (SIPROUND (SIPROUND (sip_xor2 0xFF v))))))"

definition SipHashUint256 :: "64 word \<Rightarrow> 64 word \<Rightarrow> uint256 \<Rightarrow> 64 word" where
  "SipHashUint256 k0 k1 val =
     (let d = GetUint64 val 0;
          v = (0x736f6d6570736575 XOR k0, 0x646f72616e646f6d XOR k1,
               0x6c7967656e657261 XOR k0, 0x7465646279746573 XOR k1 XOR d);
          v = sip_xor0 d (SIPROUND (SIPROUND v));
          d = GetUint64 val 1;
          v = sip_xor0 d (SIPROUND (SIPROUND (sip_xor3 d v)));
          d = GetUint64 val 2;
          v = sip_xor0 d (SIPROUND (SIPROUND (sip_xor3 d v)));
          d = GetUint64 val 3;
          v = sip_xor0 d (SIPROUND (SIPROUND (sip_xor3 d v)));
          v = sip_xor0 (push_bit 59 4) (SIPROUND (SIPROUND (sip_xor3 (push_bit 59 4) v)))
      in sip_result (SIPROUND (SIPROUND (SIPROUND (SIPROUND (sip_xor2 0xFF v))))))"

definition SipHashUint256Extra :: "64 word \<Rightarrow> 64 word \<Rightarrow> uint256 \<Rightarrow> 32 word \<Rightarrow> 64 word" where
  "SipHashUint256Extra k0 k1 val extra =
     (let d = GetUint64 val 0;
          v = (0x736f6d6570736575 XOR k0, 0x646f72616e646f6d XOR k1,
               0x6c7967656e657261 XOR k0, 0x7465646279746573 XOR k1 XOR d);
          v = sip_xor0 d (SIPROUND (SIPROUND v));
          d = GetUint64 val 1;
          v = sip_xor0 d (SIPROUND (SIPROUND (sip_xor3 d v)));
          d = GetUint64 val 2;
          v = sip_xor0 d (SIPROUND (SIPROUND (sip_xor3 d v)));
          d = GetUint64 val 3;
          v = sip_xor0 d (SIPROUND (SIPROUND (sip_xor3 d v)));
          d = push_bit 56 36 OR ucast extra;
          v = sip_xor0 d (SIPROUND (SIPROUND (sip_xor3 d v)))
      in sip_result (SIPROUND (SIPROUND (SIPROUND (SIPROUND (sip_xor2 0xFF v))))))"

subsection \<open>The byte loop absorbs little-endian words\<close>

lemma sip_or_byte:
  assumes "length bs < 8"
  shows "of_nat (le_val bs) OR push_bit (8 * length bs) (ucast b) = (of_nat (le_val (bs @ [b])) :: 64 word)"
proof -
  have l: "le_val bs < 2 ^ (8 * length bs)" using le_val_less [of bs] by (simp add: power_mult)
  have p: "2 ^ (8 * length bs) * (2::nat) ^ 8 \<le> 2 ^ 64"
    unfolding power_add [symmetric] using assms by (intro power_increasing) auto
  have b: "unat (ucast b :: 64 word) = unat b" by (rule unat_ucast_up) simp
  have "unat b < 2 ^ 8" using byte_unat_less [of b] by simp
  then have "2 ^ (8 * length bs) * unat b < 2 ^ (8 * length bs) * 2 ^ 8" by (rule mult_strict_left_mono) simp
  from less_le_trans [OF this p] have m: "2 ^ (8 * length bs) * unat (ucast b :: 64 word) < 2 ^ 64" by (simp only: b)
  have "(2::nat) ^ (8 * length bs) \<le> 2 ^ 56" using assms by (intro power_increasing) auto
  with l have u: "unat (of_nat (le_val bs) :: 64 word) = le_val bs" by (simp add: unat_of_nat)
  have "unat (of_nat (le_val bs) OR push_bit (8 * length bs) (ucast b) :: 64 word) =
      le_val bs + 2 ^ (8 * length bs) * unat b"
    using unat_or_push_bit [of "of_nat (le_val bs) :: 64 word" "8 * length bs" "ucast b"] l m u b by simp
  also have "\<dots> = le_val (bs @ [b])" by (simp add: le_val_append power_mult)
  finally show ?thesis by (metis of_nat_unat ucast_id)
qed

definition sip_word :: "sip_state \<Rightarrow> 64 word \<Rightarrow> sip_state" where
  "sip_word v d = sip_xor0 d (SIPROUND (SIPROUND (sip_xor3 d v)))"

lemma sip_write_loop_append:
  "sip_write_loop v t c (xs @ ys) = (case sip_write_loop v t c xs of (v, t, c) \<Rightarrow> sip_write_loop v t c ys)"
  by (induction v t c xs rule: sip_write_loop.induct) (simp_all add: Let_def)

lemma sip_write_loop_part:
  "length bs < 8 \<Longrightarrow> c mod 8 = 0 \<Longrightarrow> sip_write_loop v 0 c bs = (v, of_nat (le_val bs), c + length bs)"
proof (induction bs rule: rev_induct)
  case (snoc b bs)
  define n where "n = length bs"
  have "n < 7" "c mod 8 = 0" using snoc.prems by (simp_all add: n_def)
  then have "(c + n) mod 8 = n" "(c + n + 1) mod 8 \<noteq> 0" by presburger+
  then have "(c + length bs) mod 8 = length bs" "(c + length bs + 1) mod 8 \<noteq> 0" by (simp_all add: n_def)
  with snoc sip_or_byte [of bs b] show ?case by (simp add: sip_write_loop_append Let_def)
qed simp

lemma sip_write_loop_word:
  assumes "length bs = 8" "c mod 8 = 0"
  shows "sip_write_loop v 0 c bs = (sip_word v (ReadLE64 bs), 0, c + 8)"
proof -
  obtain as b where bs: "bs = as @ [b]" "length as = 7"
    using assms(1) by (cases bs rule: rev_exhaust) auto
  then have "(c + 7) mod 8 = 7" "(c + 7 + 1) mod 8 = 0" using assms(2) by presburger+
  with bs sip_or_byte [of as b] assms show ?thesis
    by (simp add: sip_write_loop_append sip_write_loop_part Let_def sip_word_def ReadLE64_def)
qed

lemma uint256_data_split:
  "\<exists>a b c d. uint256_data val = a @ b @ c @ d \<and> length a = 8 \<and> length b = 8 \<and> length c = 8 \<and> length d = 8 \<and>
     ReadLE64 a = GetUint64 val 0 \<and> ReadLE64 b = GetUint64 val 1 \<and>
     ReadLE64 c = GetUint64 val 2 \<and> ReadLE64 d = GetUint64 val 3"
proof (intro exI conjI)
  let ?d = "uint256_data val"
  show "?d = take 8 ?d @ take 8 (drop 8 ?d) @ take 8 (drop 16 ?d) @ drop 24 ?d"
    using append_take_drop_id [of 8 ?d] append_take_drop_id [of 8 "drop 8 ?d"] append_take_drop_id [of 8 "drop 16 ?d"]
    by (simp add: drop_drop)
qed (simp_all add: GetUint64_def ReadLE64_def)

lemma sip_write_uint256:
  "sip_write_loop v 0 0 (uint256_data val) =
   (sip_word (sip_word (sip_word (sip_word v (GetUint64 val 0)) (GetUint64 val 1)) (GetUint64 val 2)) (GetUint64 val 3), 0, 32)"
proof -
  obtain a b c d where d: "uint256_data val = a @ b @ c @ d" "length a = 8" "length b = 8" "length c = 8" "length d = 8"
    "ReadLE64 a = GetUint64 val 0" "ReadLE64 b = GetUint64 val 1"
    "ReadLE64 c = GetUint64 val 2" "ReadLE64 d = GetUint64 val 3"
    using uint256_data_split [of val] by (elim exE conjE) (rule that)
  then show ?thesis by (simp add: sip_write_loop_append sip_write_loop_word)
qed

text \<open>
  The routine specialised for 256-bit values computes the same SipHash-2-4 as the general class
  on the 32 bytes of the value.
\<close>

theorem siphash_uint256:
  "SipHashUint256 k0 k1 val = CSipHasher_Finalize (CSipHasher_Write (CSipHasher k0 k1) (uint256_data val))"
  by (simp add: SipHashUint256_def CSipHasher_Finalize_def CSipHasher_Write_def CSipHasher_def
      sip_write_uint256 sip_word_def xor.assoc Let_def)

text \<open>
  The routine specialised for a 256-bit value followed by a 32-bit integer computes the same
  SipHash-2-4 as the general class on the 32 bytes of the value and the 4 little-endian bytes of the integer.
\<close>

theorem siphash_uint256_extra:
  "SipHashUint256Extra k0 k1 val extra =
     CSipHasher_Finalize (CSipHasher_Write (CSipHasher k0 k1) (uint256_data val @ WriteLE32 extra))"
proof -
  have "sip_write_loop v 0 32 (WriteLE32 extra) = (v, ucast extra, 36)" for v
    using unsigned_less [of extra, where 'a = nat]
    by (simp add: sip_write_loop_part WriteLE32_def le_val_le_bytes of_nat_unat)
  then show ?thesis
    by (simp add: SipHashUint256Extra_def CSipHasher_Finalize_def CSipHasher_Write_def CSipHasher_def
        sip_write_loop_append sip_write_uint256 sip_word_def or.commute xor.assoc Let_def)
qed

end
