(* ===== verification/Interpreter.thy ===== *)
theory Interpreter
  imports Script Hash
begin

unbundle bit_operations_syntax

text \<open>
  The script interpreter: \<^verbatim>\<open>src/script/interpreter.cpp\<close> up to \<open>EvalScript\<close>, with the flags and
  the checker interface of \<^verbatim>\<open>src/script/interpreter.h\<close>.

  The local variables of \<open>EvalScript\<close> are the record \<open>estate\<close>.  The stacks \<open>stack\<close>, \<open>altstack\<close>
  and \<open>vfExec\<close> are lists with their top (the vector's back) first.  An early \<open>return set_error(...)\<close>
  is \<open>Inl\<close> of the error; an exception thrown inside the loop is caught there and becomes
  \<open>SCRIPT_ERR_UNKNOWN_ERROR\<close>.  Each \<open>case\<close> group of the switch is one definition, \<open>exec_opcode\<close>
  is the switch, \<open>eval_step\<close> one iteration of the loop and \<open>eval_loop\<close> the loop.

  The signature checker is the virtual class \<open>BaseSignatureChecker\<close>, here a record of its three
  methods.  \<open>CPubKey::CheckLowS\<close>, which parses with libsecp256k1, is a field of the environment.
\<close>

section \<open>Errors, flags and interfaces\<close>

datatype ScriptError =
    SCRIPT_ERR_UNKNOWN_ERROR
  | SCRIPT_ERR_EVAL_FALSE
  | SCRIPT_ERR_OP_RETURN
  | SCRIPT_ERR_SCRIPT_SIZE
  | SCRIPT_ERR_PUSH_SIZE
  | SCRIPT_ERR_OP_COUNT
  | SCRIPT_ERR_STACK_SIZE
  | SCRIPT_ERR_SIG_COUNT
  | SCRIPT_ERR_PUBKEY_COUNT
  | SCRIPT_ERR_VERIFY
  | SCRIPT_ERR_EQUALVERIFY
  | SCRIPT_ERR_CHECKMULTISIGVERIFY
  | SCRIPT_ERR_CHECKSIGVERIFY
  | SCRIPT_ERR_NUMEQUALVERIFY
  | SCRIPT_ERR_BAD_OPCODE
  | SCRIPT_ERR_DISABLED_OPCODE
  | SCRIPT_ERR_INVALID_STACK_OPERATION
  | SCRIPT_ERR_INVALID_ALTSTACK_OPERATION
  | SCRIPT_ERR_UNBALANCED_CONDITIONAL
  | SCRIPT_ERR_NEGATIVE_LOCKTIME
  | SCRIPT_ERR_UNSATISFIED_LOCKTIME
  | SCRIPT_ERR_SIG_HASHTYPE
  | SCRIPT_ERR_SIG_DER
  | SCRIPT_ERR_MINIMALDATA
  | SCRIPT_ERR_SIG_PUSHONLY
  | SCRIPT_ERR_SIG_HIGH_S
  | SCRIPT_ERR_SIG_NULLDUMMY
  | SCRIPT_ERR_PUBKEYTYPE
  | SCRIPT_ERR_CLEANSTACK
  | SCRIPT_ERR_MINIMALIF
  | SCRIPT_ERR_SIG_NULLFAIL
  | SCRIPT_ERR_DISCOURAGE_UPGRADABLE_NOPS
  | SCRIPT_ERR_DISCOURAGE_UPGRADABLE_WITNESS_PROGRAM
  | SCRIPT_ERR_WITNESS_PROGRAM_WRONG_LENGTH
  | SCRIPT_ERR_WITNESS_PROGRAM_WITNESS_EMPTY
  | SCRIPT_ERR_WITNESS_PROGRAM_MISMATCH
  | SCRIPT_ERR_WITNESS_MALLEATED
  | SCRIPT_ERR_WITNESS_MALLEATED_P2SH
  | SCRIPT_ERR_WITNESS_UNEXPECTED
  | SCRIPT_ERR_WITNESS_PUBKEYTYPE
  | SCRIPT_ERR_ILLEGAL_FORKID
  | SCRIPT_ERR_MUST_USE_FORKID

text \<open>
  The verification flags are the bits of an \<open>unsigned int\<close>, a set of positions here:
  \<open>flags & SCRIPT_VERIFY_X\<close> is \<open>X \<in> flags\<close>.
\<close>

datatype script_flag =
    SCRIPT_VERIFY_P2SH
  | SCRIPT_VERIFY_STRICTENC
  | SCRIPT_VERIFY_DERSIG
  | SCRIPT_VERIFY_LOW_S
  | SCRIPT_VERIFY_NULLDUMMY
  | SCRIPT_VERIFY_SIGPUSHONLY
  | SCRIPT_VERIFY_MINIMALDATA
  | SCRIPT_VERIFY_DISCOURAGE_UPGRADABLE_NOPS
  | SCRIPT_VERIFY_CLEANSTACK
  | SCRIPT_VERIFY_CHECKLOCKTIMEVERIFY
  | SCRIPT_VERIFY_CHECKSEQUENCEVERIFY
  | SCRIPT_VERIFY_WITNESS
  | SCRIPT_VERIFY_DISCOURAGE_UPGRADABLE_WITNESS_PROGRAM
  | SCRIPT_VERIFY_MINIMALIF
  | SCRIPT_VERIFY_NULLFAIL
  | SCRIPT_VERIFY_WITNESS_PUBKEYTYPE
  | SCRIPT_ENABLE_SIGHASH_FORKID

type_synonym script_flags = "script_flag set"

datatype SigVersion = SIGVERSION_BASE | SIGVERSION_WITNESS_V0

text \<open>The bit position of each flag in the \<open>unsigned int\<close>, and the set a flags word stands for.\<close>

primrec flag_bit :: "script_flag \<Rightarrow> nat" where
  "flag_bit SCRIPT_VERIFY_P2SH = 0"
| "flag_bit SCRIPT_VERIFY_STRICTENC = 1"
| "flag_bit SCRIPT_VERIFY_DERSIG = 2"
| "flag_bit SCRIPT_VERIFY_LOW_S = 3"
| "flag_bit SCRIPT_VERIFY_NULLDUMMY = 4"
| "flag_bit SCRIPT_VERIFY_SIGPUSHONLY = 5"
| "flag_bit SCRIPT_VERIFY_MINIMALDATA = 6"
| "flag_bit SCRIPT_VERIFY_DISCOURAGE_UPGRADABLE_NOPS = 7"
| "flag_bit SCRIPT_VERIFY_CLEANSTACK = 8"
| "flag_bit SCRIPT_VERIFY_CHECKLOCKTIMEVERIFY = 9"
| "flag_bit SCRIPT_VERIFY_CHECKSEQUENCEVERIFY = 10"
| "flag_bit SCRIPT_VERIFY_WITNESS = 11"
| "flag_bit SCRIPT_VERIFY_DISCOURAGE_UPGRADABLE_WITNESS_PROGRAM = 12"
| "flag_bit SCRIPT_VERIFY_MINIMALIF = 13"
| "flag_bit SCRIPT_VERIFY_NULLFAIL = 14"
| "flag_bit SCRIPT_VERIFY_WITNESS_PUBKEYTYPE = 15"
| "flag_bit SCRIPT_ENABLE_SIGHASH_FORKID = 16"

text \<open>
  The methods of a signature checker.  \<open>script_env\<close> collects the arguments of \<open>EvalScript\<close> that do
  not change while it runs, with \<open>CPubKey::CheckLowS\<close>, which parses with libsecp256k1.
\<close>

record sig_checker =
  CheckSig :: "valtype \<Rightarrow> valtype \<Rightarrow> CScript \<Rightarrow> SigVersion \<Rightarrow> bool"
  CheckLockTime :: "int \<Rightarrow> bool"
  CheckSequence :: "int \<Rightarrow> bool"

record script_env =
  flags :: script_flags
  checker :: sig_checker
  sigversion :: SigVersion
  CheckLowS :: "valtype \<Rightarrow> bool"

text \<open>\<open>BaseSignatureChecker\<close> itself refuses everything.\<close>

definition BaseSignatureChecker :: sig_checker where
  "BaseSignatureChecker =
     \<lparr>CheckSig = (\<lambda>_ _ _ _. False), CheckLockTime = (\<lambda>_. False), CheckSequence = (\<lambda>_. False)\<rparr>"

section \<open>Truth values and encodings\<close>

fun CastToBool :: "valtype \<Rightarrow> bool" where
  "CastToBool [] = False"
| "CastToBool (b # vch) = (if b \<noteq> 0 then \<not> (vch = [] \<and> b = 0x80) else CastToBool vch)"

definition IsCompressedOrUncompressedPubKey :: "valtype \<Rightarrow> bool" where
  "IsCompressedOrUncompressedPubKey vchPubKey =
     (if length vchPubKey < 33 then False
      else if vchPubKey ! 0 = 0x04 then length vchPubKey = 65
      else if vchPubKey ! 0 = 0x02 \<or> vchPubKey ! 0 = 0x03 then length vchPubKey = 33
      else False)"

definition IsCompressedPubKey :: "valtype \<Rightarrow> bool" where
  "IsCompressedPubKey vchPubKey =
     (if length vchPubKey \<noteq> 33 then False
      else if vchPubKey ! 0 \<noteq> 0x02 \<and> vchPubKey ! 0 \<noteq> 0x03 then False
      else True)"

definition IsValidSignatureEncoding :: "valtype \<Rightarrow> bool" where
  "IsValidSignatureEncoding sig =
     (if length sig < 9 then False
      else if length sig > 73 then False
      else if sig ! 0 \<noteq> 0x30 then False
      else if unat (sig ! 1) \<noteq> length sig - 3 then False
      else let lenR = unat (sig ! 3) in
      if 5 + lenR \<ge> length sig then False
      else let lenS = unat (sig ! (5 + lenR)) in
      if lenR + lenS + 7 \<noteq> length sig then False
      else if sig ! 2 \<noteq> 0x02 then False
      else if lenR = 0 then False
      else if sig ! 4 AND 0x80 \<noteq> 0 then False
      else if lenR > 1 \<and> sig ! 4 = 0 \<and> sig ! 5 AND 0x80 = 0 then False
      else if sig ! (lenR + 4) \<noteq> 0x02 then False
      else if lenS = 0 then False
      else if sig ! (lenR + 6) AND 0x80 \<noteq> 0 then False
      else if lenS > 1 \<and> sig ! (lenR + 6) = 0 \<and> sig ! (lenR + 7) AND 0x80 = 0 then False
      else True)"

definition IsLowDERSignature :: "(valtype \<Rightarrow> bool) \<Rightarrow> valtype \<Rightarrow> ScriptError + unit" where
  "IsLowDERSignature lowS vchSig =
     (if \<not> IsValidSignatureEncoding vchSig then Inl SCRIPT_ERR_SIG_DER
      else if \<not> lowS (butlast vchSig) then Inl SCRIPT_ERR_SIG_HIGH_S
      else Inr ())"

definition SIGHASH_ALL :: "32 word" where "SIGHASH_ALL = 1"
definition SIGHASH_NONE :: "32 word" where "SIGHASH_NONE = 2"
definition SIGHASH_SINGLE :: "32 word" where "SIGHASH_SINGLE = 3"
definition SIGHASH_FORKID :: "32 word" where "SIGHASH_FORKID = 0x40"
definition SIGHASH_ANYONECANPAY :: "32 word" where "SIGHASH_ANYONECANPAY = 0x80"

definition GetHashType :: "valtype \<Rightarrow> 32 word" where
  "GetHashType vchSig = (if vchSig = [] then 0 else ucast (last vchSig))"

definition IsDefinedHashtypeSignature :: "valtype \<Rightarrow> bool" where
  "IsDefinedHashtypeSignature vchSig =
     (if vchSig = [] then False
      else let nHashType = last vchSig AND NOT (ucast (SIGHASH_ANYONECANPAY OR SIGHASH_FORKID)) in
      if nHashType < ucast SIGHASH_ALL \<or> nHashType > ucast SIGHASH_SINGLE then False
      else True)"

definition CheckSignatureEncoding :: "script_env \<Rightarrow> valtype \<Rightarrow> ScriptError + unit" where
  "CheckSignatureEncoding E vchSig =
     (if vchSig = [] then Inr ()
      else if (SCRIPT_VERIFY_DERSIG \<in> flags E \<or> SCRIPT_VERIFY_LOW_S \<in> flags E \<or> SCRIPT_VERIFY_STRICTENC \<in> flags E)
              \<and> \<not> IsValidSignatureEncoding vchSig then Inl SCRIPT_ERR_SIG_DER
      else ebind (if SCRIPT_VERIFY_LOW_S \<in> flags E then IsLowDERSignature (CheckLowS E) vchSig else Inr ()) (\<lambda>_.
        if SCRIPT_VERIFY_STRICTENC \<in> flags E then
          (if \<not> IsDefinedHashtypeSignature vchSig then Inl SCRIPT_ERR_SIG_HASHTYPE
           else let usesForkId = (GetHashType vchSig AND SIGHASH_FORKID \<noteq> 0);
                    forkIdEnabled = (SCRIPT_ENABLE_SIGHASH_FORKID \<in> flags E) in
           if \<not> forkIdEnabled \<and> usesForkId then Inl SCRIPT_ERR_ILLEGAL_FORKID
           else if forkIdEnabled \<and> \<not> usesForkId then Inl SCRIPT_ERR_MUST_USE_FORKID
           else Inr ())
        else Inr ()))"

definition CheckPubKeyEncoding :: "script_env \<Rightarrow> valtype \<Rightarrow> ScriptError + unit" where
  "CheckPubKeyEncoding E vchPubKey =
     (if SCRIPT_VERIFY_STRICTENC \<in> flags E \<and> \<not> IsCompressedOrUncompressedPubKey vchPubKey
      then Inl SCRIPT_ERR_PUBKEYTYPE
      else if SCRIPT_VERIFY_WITNESS_PUBKEYTYPE \<in> flags E \<and> sigversion E = SIGVERSION_WITNESS_V0 \<and>
              \<not> IsCompressedPubKey vchPubKey
      then Inl SCRIPT_ERR_WITNESS_PUBKEYTYPE
      else Inr ())"

definition CheckMinimalPush :: "valtype \<Rightarrow> opcodetype \<Rightarrow> bool" where
  "CheckMinimalPush data opcode =
     (if length data = 0 then opcode = OP_0
      else if length data = 1 \<and> data ! 0 \<ge> 1 \<and> data ! 0 \<le> 16 then opcode = OP_1 + (unat (data ! 0) - 1)
      else if length data = 1 \<and> data ! 0 = 0x81 then opcode = OP_1NEGATE
      else if length data \<le> 75 then opcode = length data
      else if length data \<le> 255 then opcode = OP_PUSHDATA1
      else if length data \<le> 65535 then opcode = OP_PUSHDATA2
      else True)"

section \<open>The state of EvalScript\<close>

record estate =
  stack :: "valtype list"
  altstack :: "valtype list"
  vfExec :: "bool list"
  nOpCount :: nat
  pbegincodehash :: CScript

type_synonym eresult = "ScriptError + estate"

definition vchBool :: "bool \<Rightarrow> valtype" where
  "vchBool b = (if b then [1] else [])"

abbreviation fRequireMinimal :: "script_env \<Rightarrow> bool" where
  "fRequireMinimal E \<equiv> SCRIPT_VERIFY_MINIMALDATA \<in> flags E"

text \<open>
  The constructor of \<open>CScriptNum\<close> throws on an overlong or non-minimal operand; \<open>EvalScript\<close> catches
  that exception and returns \<open>SCRIPT_ERR_UNKNOWN_ERROR\<close>.
\<close>

definition script_num :: "script_env \<Rightarrow> nat \<Rightarrow> valtype \<Rightarrow> ScriptError + int" where
  "script_num E nMaxNumSize vch =
     (case CScriptNum vch (fRequireMinimal E) nMaxNumSize of
        Inl _ \<Rightarrow> Inl SCRIPT_ERR_UNKNOWN_ERROR
      | Inr n \<Rightarrow> Inr n)"

abbreviation bad_stack :: "ScriptError + 'a" where
  "bad_stack \<equiv> Inl SCRIPT_ERR_INVALID_STACK_OPERATION"

section \<open>Operations of the switch\<close>

subsection \<open>Constants and control\<close>

definition op_push_number :: "opcodetype \<Rightarrow> estate \<Rightarrow> eresult" where
  "op_push_number opcode st = Inr (st\<lparr>stack := scriptnum_serialize (int opcode - int (OP_1 - 1)) # stack st\<rparr>)"

definition op_CHECKLOCKTIMEVERIFY :: "script_env \<Rightarrow> estate \<Rightarrow> eresult" where
  "op_CHECKLOCKTIMEVERIFY E st =
     (if SCRIPT_VERIFY_CHECKLOCKTIMEVERIFY \<notin> flags E then
        (if SCRIPT_VERIFY_DISCOURAGE_UPGRADABLE_NOPS \<in> flags E then Inl SCRIPT_ERR_DISCOURAGE_UPGRADABLE_NOPS
         else Inr st)
      else case stack st of
        [] \<Rightarrow> bad_stack
      | vch # _ \<Rightarrow> ebind (script_num E 5 vch) (\<lambda>nLockTime.
          if nLockTime < 0 then Inl SCRIPT_ERR_NEGATIVE_LOCKTIME
          else if \<not> CheckLockTime (checker E) nLockTime then Inl SCRIPT_ERR_UNSATISFIED_LOCKTIME
          else Inr st))"

definition op_CHECKSEQUENCEVERIFY :: "script_env \<Rightarrow> estate \<Rightarrow> eresult" where
  "op_CHECKSEQUENCEVERIFY E st =
     (if SCRIPT_VERIFY_CHECKSEQUENCEVERIFY \<notin> flags E then
        (if SCRIPT_VERIFY_DISCOURAGE_UPGRADABLE_NOPS \<in> flags E then Inl SCRIPT_ERR_DISCOURAGE_UPGRADABLE_NOPS
         else Inr st)
      else case stack st of
        [] \<Rightarrow> bad_stack
      | vch # _ \<Rightarrow> ebind (script_num E 5 vch) (\<lambda>nSequence.
          if nSequence < 0 then Inl SCRIPT_ERR_NEGATIVE_LOCKTIME
          else if nSequence AND 0x80000000 \<noteq> 0 then Inr st
          else if \<not> CheckSequence (checker E) nSequence then Inl SCRIPT_ERR_UNSATISFIED_LOCKTIME
          else Inr st))"

definition op_upgradable_nop :: "script_env \<Rightarrow> estate \<Rightarrow> eresult" where
  "op_upgradable_nop E st =
     (if SCRIPT_VERIFY_DISCOURAGE_UPGRADABLE_NOPS \<in> flags E then Inl SCRIPT_ERR_DISCOURAGE_UPGRADABLE_NOPS
      else Inr st)"

definition op_IF :: "script_env \<Rightarrow> bool \<Rightarrow> opcodetype \<Rightarrow> estate \<Rightarrow> eresult" where
  "op_IF E fExec opcode st =
     (if fExec then
        (case stack st of
           [] \<Rightarrow> Inl SCRIPT_ERR_UNBALANCED_CONDITIONAL
         | vch # stk \<Rightarrow>
             if sigversion E = SIGVERSION_WITNESS_V0 \<and> SCRIPT_VERIFY_MINIMALIF \<in> flags E \<and>
                (length vch > 1 \<or> (length vch = 1 \<and> vch ! 0 \<noteq> 1))
             then Inl SCRIPT_ERR_MINIMALIF
             else let fValue = (if opcode = OP_NOTIF then \<not> CastToBool vch else CastToBool vch)
                  in Inr (st\<lparr>stack := stk, vfExec := fValue # vfExec st\<rparr>))
      else Inr (st\<lparr>vfExec := False # vfExec st\<rparr>))"

definition op_ELSE :: "estate \<Rightarrow> eresult" where
  "op_ELSE st =
     (case vfExec st of
        [] \<Rightarrow> Inl SCRIPT_ERR_UNBALANCED_CONDITIONAL
      | b # bs \<Rightarrow> Inr (st\<lparr>vfExec := (\<not> b) # bs\<rparr>))"

definition op_ENDIF :: "estate \<Rightarrow> eresult" where
  "op_ENDIF st =
     (case vfExec st of
        [] \<Rightarrow> Inl SCRIPT_ERR_UNBALANCED_CONDITIONAL
      | b # bs \<Rightarrow> Inr (st\<lparr>vfExec := bs\<rparr>))"

definition op_VERIFY :: "estate \<Rightarrow> eresult" where
  "op_VERIFY st =
     (case stack st of
        [] \<Rightarrow> bad_stack
      | vch # stk \<Rightarrow> if CastToBool vch then Inr (st\<lparr>stack := stk\<rparr>) else Inl SCRIPT_ERR_VERIFY)"

subsection \<open>Stack operations\<close>

definition op_TOALTSTACK :: "estate \<Rightarrow> eresult" where
  "op_TOALTSTACK st =
     (case stack st of
        [] \<Rightarrow> bad_stack
      | vch # stk \<Rightarrow> Inr (st\<lparr>stack := stk, altstack := vch # altstack st\<rparr>))"

definition op_FROMALTSTACK :: "estate \<Rightarrow> eresult" where
  "op_FROMALTSTACK st =
     (case altstack st of
        [] \<Rightarrow> Inl SCRIPT_ERR_INVALID_ALTSTACK_OPERATION
      | vch # alt \<Rightarrow> Inr (st\<lparr>stack := vch # stack st, altstack := alt\<rparr>))"

text \<open>The operations that only rearrange the stack, on the list with the top first.\<close>

definition op_2DROP :: "valtype list \<Rightarrow> ScriptError + valtype list" where
  "op_2DROP stk = (case stk of x2 # x1 # r \<Rightarrow> Inr r | _ \<Rightarrow> bad_stack)"

definition op_2DUP :: "valtype list \<Rightarrow> ScriptError + valtype list" where
  "op_2DUP stk = (case stk of x2 # x1 # r \<Rightarrow> Inr (x2 # x1 # x2 # x1 # r) | _ \<Rightarrow> bad_stack)"

definition op_3DUP :: "valtype list \<Rightarrow> ScriptError + valtype list" where
  "op_3DUP stk = (case stk of x3 # x2 # x1 # r \<Rightarrow> Inr (x3 # x2 # x1 # x3 # x2 # x1 # r) | _ \<Rightarrow> bad_stack)"

definition op_2OVER :: "valtype list \<Rightarrow> ScriptError + valtype list" where
  "op_2OVER stk =
     (case stk of x4 # x3 # x2 # x1 # r \<Rightarrow> Inr (x2 # x1 # x4 # x3 # x2 # x1 # r) | _ \<Rightarrow> bad_stack)"

definition op_2ROT :: "valtype list \<Rightarrow> ScriptError + valtype list" where
  "op_2ROT stk =
     (case stk of x6 # x5 # x4 # x3 # x2 # x1 # r \<Rightarrow> Inr (x2 # x1 # x6 # x5 # x4 # x3 # r) | _ \<Rightarrow> bad_stack)"

definition op_2SWAP :: "valtype list \<Rightarrow> ScriptError + valtype list" where
  "op_2SWAP stk = (case stk of x4 # x3 # x2 # x1 # r \<Rightarrow> Inr (x2 # x1 # x4 # x3 # r) | _ \<Rightarrow> bad_stack)"

definition op_IFDUP :: "valtype list \<Rightarrow> ScriptError + valtype list" where
  "op_IFDUP stk = (case stk of x # r \<Rightarrow> Inr (if CastToBool x then x # x # r else x # r) | _ \<Rightarrow> bad_stack)"

definition op_DEPTH :: "valtype list \<Rightarrow> ScriptError + valtype list" where
  "op_DEPTH stk = Inr (scriptnum_serialize (int (length stk)) # stk)"

definition op_DROP :: "valtype list \<Rightarrow> ScriptError + valtype list" where
  "op_DROP stk = (case stk of x # r \<Rightarrow> Inr r | _ \<Rightarrow> bad_stack)"

definition op_DUP :: "valtype list \<Rightarrow> ScriptError + valtype list" where
  "op_DUP stk = (case stk of x # r \<Rightarrow> Inr (x # x # r) | _ \<Rightarrow> bad_stack)"

definition op_NIP :: "valtype list \<Rightarrow> ScriptError + valtype list" where
  "op_NIP stk = (case stk of x2 # x1 # r \<Rightarrow> Inr (x2 # r) | _ \<Rightarrow> bad_stack)"

definition op_OVER :: "valtype list \<Rightarrow> ScriptError + valtype list" where
  "op_OVER stk = (case stk of x2 # x1 # r \<Rightarrow> Inr (x1 # x2 # x1 # r) | _ \<Rightarrow> bad_stack)"

definition op_PICK_ROLL :: "script_env \<Rightarrow> opcodetype \<Rightarrow> valtype list \<Rightarrow> ScriptError + valtype list" where
  "op_PICK_ROLL E opcode stk =
     (if length stk < 2 then bad_stack
      else ebind (script_num E nDefaultMaxNumSize (hd stk)) (\<lambda>bn.
        let n = getint bn; r = tl stk in
        if n < 0 \<or> n \<ge> int (length r) then bad_stack
        else let vch = r ! nat n in
             Inr (vch # (if opcode = OP_ROLL then take (nat n) r @ drop (nat n + 1) r else r))))"

definition op_ROT :: "valtype list \<Rightarrow> ScriptError + valtype list" where
  "op_ROT stk = (case stk of x3 # x2 # x1 # r \<Rightarrow> Inr (x1 # x3 # x2 # r) | _ \<Rightarrow> bad_stack)"

definition op_SWAP :: "valtype list \<Rightarrow> ScriptError + valtype list" where
  "op_SWAP stk = (case stk of x2 # x1 # r \<Rightarrow> Inr (x1 # x2 # r) | _ \<Rightarrow> bad_stack)"

definition op_TUCK :: "valtype list \<Rightarrow> ScriptError + valtype list" where
  "op_TUCK stk = (case stk of x2 # x1 # r \<Rightarrow> Inr (x2 # x1 # x2 # r) | _ \<Rightarrow> bad_stack)"

definition op_SIZE :: "valtype list \<Rightarrow> ScriptError + valtype list" where
  "op_SIZE stk = (case stk of x # r \<Rightarrow> Inr (scriptnum_serialize (int (length x)) # x # r) | _ \<Rightarrow> bad_stack)"

subsection \<open>Comparison, arithmetic and hashes\<close>

definition op_EQUAL :: "opcodetype \<Rightarrow> valtype list \<Rightarrow> ScriptError + valtype list" where
  "op_EQUAL opcode stk =
     (case stk of
        vch2 # vch1 # r \<Rightarrow>
          let fEqual = (vch1 = vch2) in
          if opcode = OP_EQUALVERIFY then (if fEqual then Inr r else Inl SCRIPT_ERR_EQUALVERIFY)
          else Inr (vchBool fEqual # r)
      | _ \<Rightarrow> bad_stack)"

definition unary_num :: "opcodetype \<Rightarrow> int \<Rightarrow> int" where
  "unary_num opcode bn =
     (if opcode = OP_1ADD then bn + 1
      else if opcode = OP_1SUB then bn - 1
      else if opcode = OP_NEGATE then - bn
      else if opcode = OP_ABS then (if bn < 0 then - bn else bn)
      else if opcode = OP_NOT then of_bool (bn = 0)
      else of_bool (bn \<noteq> 0))"

definition op_unary :: "script_env \<Rightarrow> opcodetype \<Rightarrow> valtype list \<Rightarrow> ScriptError + valtype list" where
  "op_unary E opcode stk =
     (case stk of
        x # r \<Rightarrow> ebind (script_num E nDefaultMaxNumSize x) (\<lambda>bn. Inr (scriptnum_serialize (unary_num opcode bn) # r))
      | _ \<Rightarrow> bad_stack)"

definition binary_num :: "opcodetype \<Rightarrow> int \<Rightarrow> int \<Rightarrow> int" where
  "binary_num opcode bn1 bn2 =
     (if opcode = OP_ADD then bn1 + bn2
      else if opcode = OP_SUB then bn1 - bn2
      else if opcode = OP_BOOLAND then of_bool (bn1 \<noteq> 0 \<and> bn2 \<noteq> 0)
      else if opcode = OP_BOOLOR then of_bool (bn1 \<noteq> 0 \<or> bn2 \<noteq> 0)
      else if opcode = OP_NUMEQUAL then of_bool (bn1 = bn2)
      else if opcode = OP_NUMEQUALVERIFY then of_bool (bn1 = bn2)
      else if opcode = OP_NUMNOTEQUAL then of_bool (bn1 \<noteq> bn2)
      else if opcode = OP_LESSTHAN then of_bool (bn1 < bn2)
      else if opcode = OP_GREATERTHAN then of_bool (bn1 > bn2)
      else if opcode = OP_LESSTHANOREQUAL then of_bool (bn1 \<le> bn2)
      else if opcode = OP_GREATERTHANOREQUAL then of_bool (bn1 \<ge> bn2)
      else if opcode = OP_MIN then (if bn1 < bn2 then bn1 else bn2)
      else (if bn1 > bn2 then bn1 else bn2))"

definition op_binary :: "script_env \<Rightarrow> opcodetype \<Rightarrow> valtype list \<Rightarrow> ScriptError + valtype list" where
  "op_binary E opcode stk =
     (case stk of
        x2 # x1 # r \<Rightarrow>
          ebind (script_num E nDefaultMaxNumSize x1) (\<lambda>bn1.
          ebind (script_num E nDefaultMaxNumSize x2) (\<lambda>bn2.
            let vch = scriptnum_serialize (binary_num opcode bn1 bn2) in
            if opcode = OP_NUMEQUALVERIFY then
              (if CastToBool vch then Inr r else Inl SCRIPT_ERR_NUMEQUALVERIFY)
            else Inr (vch # r)))
      | _ \<Rightarrow> bad_stack)"

definition op_WITHIN :: "script_env \<Rightarrow> valtype list \<Rightarrow> ScriptError + valtype list" where
  "op_WITHIN E stk =
     (case stk of
        x3 # x2 # x1 # r \<Rightarrow>
          ebind (script_num E nDefaultMaxNumSize x1) (\<lambda>bn1.
          ebind (script_num E nDefaultMaxNumSize x2) (\<lambda>bn2.
          ebind (script_num E nDefaultMaxNumSize x3) (\<lambda>bn3.
            Inr (vchBool (bn2 \<le> bn1 \<and> bn1 < bn3) # r))))
      | _ \<Rightarrow> bad_stack)"

definition op_hash :: "opcodetype \<Rightarrow> valtype list \<Rightarrow> ScriptError + valtype list" where
  "op_hash opcode stk =
     (case stk of
        vch # r \<Rightarrow>
          Inr ((if opcode = OP_RIPEMD160 then ripemd160 vch
                else if opcode = OP_SHA1 then sha1 vch
                else if opcode = OP_SHA256 then sha256 vch
                else if opcode = OP_HASH160 then hash160 vch
                else hash256 vch) # r)
      | _ \<Rightarrow> bad_stack)"

subsection \<open>Signatures\<close>

text \<open>\<open>CScript(vchSig)\<close> is the script that pushes the signature; pre-segwit it is cut out of the code.\<close>

definition drop_sig :: "script_env \<Rightarrow> valtype \<Rightarrow> CScript \<Rightarrow> CScript" where
  "drop_sig E vchSig scriptCode =
     (if sigversion E = SIGVERSION_BASE then fst (FindAndDelete scriptCode (push_data vchSig)) else scriptCode)"

definition op_CHECKSIG :: "script_env \<Rightarrow> opcodetype \<Rightarrow> estate \<Rightarrow> eresult" where
  "op_CHECKSIG E opcode st =
     (case stack st of
        vchPubKey # vchSig # r \<Rightarrow>
          let scriptCode = drop_sig E vchSig (pbegincodehash st) in
          ebind (CheckSignatureEncoding E vchSig) (\<lambda>_.
          ebind (CheckPubKeyEncoding E vchPubKey) (\<lambda>_.
            let fSuccess = CheckSig (checker E) vchSig vchPubKey scriptCode (sigversion E) in
            if \<not> fSuccess \<and> SCRIPT_VERIFY_NULLFAIL \<in> flags E \<and> vchSig \<noteq> [] then Inl SCRIPT_ERR_SIG_NULLFAIL
            else if opcode = OP_CHECKSIGVERIFY then
              (if fSuccess then Inr (st\<lparr>stack := r\<rparr>) else Inl SCRIPT_ERR_CHECKSIGVERIFY)
            else Inr (st\<lparr>stack := vchBool fSuccess # r\<rparr>)))
      | _ \<Rightarrow> bad_stack)"

text \<open>
  The matching loop of \<open>CHECKMULTISIG\<close>.  The lists hold the signatures and the keys not looked at yet,
  in stack order; their lengths are \<open>nSigsCount\<close> and \<open>nKeysCount\<close>.  The loop is entered with at
  most as many signatures as keys and keeps that, so the second equation is never used.
\<close>

fun multisig_loop :: "script_env \<Rightarrow> CScript \<Rightarrow> valtype list \<Rightarrow> valtype list \<Rightarrow> ScriptError + bool" where
  "multisig_loop E scriptCode [] keys = Inr True"
| "multisig_loop E scriptCode (vchSig # sigs) [] = Inr False"
| "multisig_loop E scriptCode (vchSig # sigs) (vchPubKey # keys) =
     ebind (CheckSignatureEncoding E vchSig) (\<lambda>_.
     ebind (CheckPubKeyEncoding E vchPubKey) (\<lambda>_.
       let fOk = CheckSig (checker E) vchSig vchPubKey scriptCode (sigversion E);
           rest = (if fOk then sigs else vchSig # sigs) in
       if length rest > length keys then Inr False
       else multisig_loop E scriptCode rest keys))"

text \<open>
  The clean-up loop pops \<open>i - 1\<close> elements; \<open>ikey2\<close> counts down over those that are not signatures,
  and a failed operation requires the elements popped after that to be empty under \<open>NULLFAIL\<close>.
\<close>

primrec multisig_cleanup :: "script_env \<Rightarrow> bool \<Rightarrow> nat \<Rightarrow> nat \<Rightarrow> valtype list \<Rightarrow> ScriptError + valtype list" where
  "multisig_cleanup E fSuccess 0 ikey2 stk = Inr stk"
| "multisig_cleanup E fSuccess (Suc i) ikey2 stk =
     (case stk of
        [] \<Rightarrow> Inl SCRIPT_ERR_UNKNOWN_ERROR
      | x # r \<Rightarrow>
          if \<not> fSuccess \<and> SCRIPT_VERIFY_NULLFAIL \<in> flags E \<and> ikey2 = 0 \<and> x \<noteq> [] then Inl SCRIPT_ERR_SIG_NULLFAIL
          else multisig_cleanup E fSuccess i (ikey2 - 1) r)"

definition multisig_finish :: "script_env \<Rightarrow> opcodetype \<Rightarrow> bool \<Rightarrow> estate \<Rightarrow> eresult" where
  "multisig_finish E opcode fSuccess st =
     (case stack st of
        [] \<Rightarrow> bad_stack
      | dummy # r \<Rightarrow>
          if SCRIPT_VERIFY_NULLDUMMY \<in> flags E \<and> dummy \<noteq> [] then Inl SCRIPT_ERR_SIG_NULLDUMMY
          else if opcode = OP_CHECKMULTISIGVERIFY then
            (if fSuccess then Inr (st\<lparr>stack := r\<rparr>) else Inl SCRIPT_ERR_CHECKMULTISIGVERIFY)
          else Inr (st\<lparr>stack := vchBool fSuccess # r\<rparr>))"

definition op_CHECKMULTISIG :: "script_env \<Rightarrow> opcodetype \<Rightarrow> estate \<Rightarrow> eresult" where
  "op_CHECKMULTISIG E opcode st =
     (let stk = stack st in
      if length stk < 1 then bad_stack
      else ebind (script_num E nDefaultMaxNumSize (stk ! 0)) (\<lambda>bnKeys.
        let nKeysCount = getint bnKeys in
        if nKeysCount < 0 \<or> nKeysCount > int MAX_PUBKEYS_PER_MULTISIG then Inl SCRIPT_ERR_PUBKEY_COUNT
        else let nKeys = nat nKeysCount; st = st\<lparr>nOpCount := nOpCount st + nKeys\<rparr> in
        if nOpCount st > MAX_OPS_PER_SCRIPT then Inl SCRIPT_ERR_OP_COUNT
        else if length stk < 2 + nKeys then bad_stack
        else ebind (script_num E nDefaultMaxNumSize (stk ! (1 + nKeys))) (\<lambda>bnSigs.
          let nSigsCount = getint bnSigs in
          if nSigsCount < 0 \<or> nSigsCount > nKeysCount then Inl SCRIPT_ERR_SIG_COUNT
          else let nSigs = nat nSigsCount in
          if length stk < 3 + nKeys + nSigs then bad_stack
          else let keys = take nKeys (drop 1 stk);
                   sigs = take nSigs (drop (2 + nKeys) stk);
                   scriptCode = fold (drop_sig E) sigs (pbegincodehash st) in
          ebind (multisig_loop E scriptCode sigs keys) (\<lambda>fSuccess.
          ebind (multisig_cleanup E fSuccess (2 + nKeys + nSigs) (nKeys + 2) stk) (\<lambda>stk.
            multisig_finish E opcode fSuccess (st\<lparr>stack := stk\<rparr>))))))"

section \<open>The loop\<close>

definition on_stack :: "(valtype list \<Rightarrow> ScriptError + valtype list) \<Rightarrow> estate \<Rightarrow> eresult" where
  "on_stack f st = ebind (f (stack st)) (\<lambda>stk. Inr (st\<lparr>stack := stk\<rparr>))"

definition exec_stack_op :: "script_env \<Rightarrow> opcodetype \<Rightarrow> (valtype list \<Rightarrow> ScriptError + valtype list) option" where
  "exec_stack_op E opcode =
     (if opcode = OP_2DROP then Some op_2DROP
      else if opcode = OP_2DUP then Some op_2DUP
      else if opcode = OP_3DUP then Some op_3DUP
      else if opcode = OP_2OVER then Some op_2OVER
      else if opcode = OP_2ROT then Some op_2ROT
      else if opcode = OP_2SWAP then Some op_2SWAP
      else if opcode = OP_IFDUP then Some op_IFDUP
      else if opcode = OP_DEPTH then Some op_DEPTH
      else if opcode = OP_DROP then Some op_DROP
      else if opcode = OP_DUP then Some op_DUP
      else if opcode = OP_NIP then Some op_NIP
      else if opcode = OP_OVER then Some op_OVER
      else if opcode = OP_PICK \<or> opcode = OP_ROLL then Some (op_PICK_ROLL E opcode)
      else if opcode = OP_ROT then Some op_ROT
      else if opcode = OP_SWAP then Some op_SWAP
      else if opcode = OP_TUCK then Some op_TUCK
      else if opcode = OP_SIZE then Some op_SIZE
      else if opcode = OP_EQUAL \<or> opcode = OP_EQUALVERIFY then Some (op_EQUAL opcode)
      else if opcode \<in> {OP_1ADD, OP_1SUB, OP_NEGATE, OP_ABS, OP_NOT, OP_0NOTEQUAL} then Some (op_unary E opcode)
      else if opcode \<in> {OP_ADD, OP_SUB, OP_BOOLAND, OP_BOOLOR, OP_NUMEQUAL, OP_NUMEQUALVERIFY, OP_NUMNOTEQUAL,
                        OP_LESSTHAN, OP_GREATERTHAN, OP_LESSTHANOREQUAL, OP_GREATERTHANOREQUAL, OP_MIN, OP_MAX}
        then Some (op_binary E opcode)
      else if opcode = OP_WITHIN then Some (op_WITHIN E)
      else if opcode \<in> {OP_RIPEMD160, OP_SHA1, OP_SHA256, OP_HASH160, OP_HASH256} then Some (op_hash opcode)
      else None)"

text \<open>The switch; \<open>pc\<close> is the iterator after the opcode.\<close>

definition exec_opcode :: "script_env \<Rightarrow> bool \<Rightarrow> opcodetype \<Rightarrow> CScript \<Rightarrow> estate \<Rightarrow> eresult" where
  "exec_opcode E fExec opcode pc st =
     (if opcode = OP_1NEGATE \<or> (OP_1 \<le> opcode \<and> opcode \<le> OP_16) then op_push_number opcode st
      else if opcode = OP_NOP then Inr st
      else if opcode = OP_CHECKLOCKTIMEVERIFY then op_CHECKLOCKTIMEVERIFY E st
      else if opcode = OP_CHECKSEQUENCEVERIFY then op_CHECKSEQUENCEVERIFY E st
      else if opcode \<in> {OP_NOP1, OP_NOP4, OP_NOP5, OP_NOP6, OP_NOP7, OP_NOP8, OP_NOP9, OP_NOP10}
        then op_upgradable_nop E st
      else if opcode = OP_IF \<or> opcode = OP_NOTIF then op_IF E fExec opcode st
      else if opcode = OP_ELSE then op_ELSE st
      else if opcode = OP_ENDIF then op_ENDIF st
      else if opcode = OP_VERIFY then op_VERIFY st
      else if opcode = OP_RETURN then Inl SCRIPT_ERR_OP_RETURN
      else if opcode = OP_TOALTSTACK then op_TOALTSTACK st
      else if opcode = OP_FROMALTSTACK then op_FROMALTSTACK st
      else if opcode = OP_CODESEPARATOR then Inr (st\<lparr>pbegincodehash := pc\<rparr>)
      else if opcode = OP_CHECKSIG \<or> opcode = OP_CHECKSIGVERIFY then op_CHECKSIG E opcode st
      else if opcode = OP_CHECKMULTISIG \<or> opcode = OP_CHECKMULTISIGVERIFY then op_CHECKMULTISIG E opcode st
      else if opcode = OP_AVN_ASSET then Inr st
      else (case exec_stack_op E opcode of
              Some f \<Rightarrow> on_stack f st
            | None \<Rightarrow> Inl SCRIPT_ERR_BAD_OPCODE))"

definition disabled_opcode :: "opcodetype \<Rightarrow> bool" where
  "disabled_opcode opcode \<longleftrightarrow>
     opcode \<in> {OP_CAT, OP_SUBSTR, OP_LEFT, OP_RIGHT, OP_INVERT, OP_AND, OP_OR, OP_XOR, OP_2MUL, OP_2DIV,
               OP_MUL, OP_DIV, OP_MOD, OP_LSHIFT, OP_RSHIFT}"

definition count_op :: "opcodetype \<Rightarrow> estate \<Rightarrow> estate" where
  "count_op opcode st = (if opcode > OP_16 then st\<lparr>nOpCount := nOpCount st + 1\<rparr> else st)"

text \<open>One iteration of the loop, from \<open>GetOp\<close> to the size check; the result has the new \<open>pc\<close>.\<close>

definition eval_step :: "script_env \<Rightarrow> CScript \<Rightarrow> estate \<Rightarrow> ScriptError + CScript \<times> estate" where
  "eval_step E pc st =
     (let fExec = (False \<notin> set (vfExec st)) in
      case GetOp2 pc of
        (ok, pc, opcode, vchPushValue) \<Rightarrow>
          if \<not> ok then Inl SCRIPT_ERR_BAD_OPCODE
          else if length vchPushValue > MAX_SCRIPT_ELEMENT_SIZE then Inl SCRIPT_ERR_PUSH_SIZE
          else let st = count_op opcode st in
          if opcode > OP_16 \<and> nOpCount st > MAX_OPS_PER_SCRIPT then Inl SCRIPT_ERR_OP_COUNT
          else if disabled_opcode opcode then Inl SCRIPT_ERR_DISABLED_OPCODE
          else ebind
            (if fExec \<and> opcode \<le> OP_PUSHDATA4 then
               (if fRequireMinimal E \<and> \<not> CheckMinimalPush vchPushValue opcode then Inl SCRIPT_ERR_MINIMALDATA
                else Inr (st\<lparr>stack := vchPushValue # stack st\<rparr>))
             else if fExec \<or> (OP_IF \<le> opcode \<and> opcode \<le> OP_ENDIF) then exec_opcode E fExec opcode pc st
             else Inr st)
            (\<lambda>st. if length (stack st) + length (altstack st) > MAX_STACK_SIZE then Inl SCRIPT_ERR_STACK_SIZE
                  else Inr (pc, st)))"

lemma eval_step_shorter: "eval_step E pc st = Inr (pc', st') \<Longrightarrow> length pc' < length pc"
  unfolding eval_step_def
  by (auto simp: err_simps Let_def split: prod.splits if_splits dest!: GetOp2_shorter)

function eval_loop :: "script_env \<Rightarrow> CScript \<Rightarrow> estate \<Rightarrow> eresult" where
  "eval_loop E pc st =
     (if pc = [] then Inr st
      else ebind (eval_step E pc st) (\<lambda>(pc, st). eval_loop E pc st))"
  by pat_completeness auto
termination
  by (relation "measure (\<lambda>(E, pc, st). length pc)") (auto dest: eval_step_shorter)

declare eval_loop.simps [simp del]

definition EvalScript :: "script_env \<Rightarrow> CScript \<Rightarrow> valtype list \<Rightarrow> ScriptError + valtype list" where
  "EvalScript E script stk =
     (if length script > MAX_SCRIPT_SIZE then Inl SCRIPT_ERR_SCRIPT_SIZE
      else ebind (eval_loop E script
             \<lparr>stack = stk, altstack = [], vfExec = [], nOpCount = 0, pbegincodehash = script\<rparr>)
        (\<lambda>st. if vfExec st \<noteq> [] then Inl SCRIPT_ERR_UNBALANCED_CONDITIONAL else Inr (stack st)))"

end
