(* ===== verification/Transaction.thy ===== *)
theory Transaction
  imports Script Hash
begin

unbundle bit_operations_syntax

text \<open>
  Transactions: \<^verbatim>\<open>src/primitives/transaction.h\<close> and \<^verbatim>\<open>src/primitives/transaction.cpp\<close>, with \<open>CAmount\<close>
  of \<^verbatim>\<open>src/amount.h\<close> and the \<open>CHashWriter\<close> of \<^verbatim>\<open>src/hash.h\<close>.  \<open>CAmount\<close> is an \<open>int64_t\<close>, an \<open>int\<close> here with its
  range written out; \<open>nVersion\<close>, an \<open>int32_t\<close>, is kept as its 32 bits.

  A stream's version enters the (un)serializer through one bit, \<open>SERIALIZE_TRANSACTION_NO_WITNESS\<close>;
  the argument \<open>fAllowWitness\<close> says that it is clear.  The main result is the exact language the
  reader accepts.
\<close>

section \<open>Amounts\<close>

type_synonym CAmount = int

definition COIN :: CAmount where "COIN = 100000000"
definition CENT :: CAmount where "CENT = 1000000"
definition MAX_MONEY :: CAmount where "MAX_MONEY = 21000000000 * COIN"

definition MoneyRange :: "CAmount \<Rightarrow> bool" where
  "MoneyRange nValue \<longleftrightarrow> 0 \<le> nValue \<and> nValue \<le> MAX_MONEY"

section \<open>The classes\<close>

record COutPoint =
  out_hash :: uint256
  out_n :: "32 word"

record CTxIn =
  prevout :: COutPoint
  scriptSig :: CScript
  nSequence :: "32 word"
  scriptWitness :: "valtype list"

record CTxOut =
  nValue :: CAmount
  scriptPubKey :: CScript

record CTransaction =
  vin :: "CTxIn list"
  vout :: "CTxOut list"
  nVersion :: "32 word"
  nLockTime :: "32 word"

definition SEQUENCE_FINAL :: "32 word" where "SEQUENCE_FINAL = 0xffffffff"
definition SEQUENCE_LOCKTIME_DISABLE_FLAG :: "32 word" where "SEQUENCE_LOCKTIME_DISABLE_FLAG = push_bit 31 1"
definition SEQUENCE_LOCKTIME_TYPE_FLAG :: "32 word" where "SEQUENCE_LOCKTIME_TYPE_FLAG = push_bit 22 1"
definition SEQUENCE_LOCKTIME_MASK :: "32 word" where "SEQUENCE_LOCKTIME_MASK = 0x0000ffff"
definition SEQUENCE_LOCKTIME_GRANULARITY :: nat where "SEQUENCE_LOCKTIME_GRANULARITY = 9"

definition COutPoint_null :: COutPoint where
  "COutPoint_null = \<lparr>out_hash = 0, out_n = - 1\<rparr>"

definition COutPoint_IsNull :: "COutPoint \<Rightarrow> bool" where
  "COutPoint_IsNull p \<longleftrightarrow> out_hash p = 0 \<and> out_n p = - 1"

text \<open>\<open>base_blob::Compare\<close> is \<open>memcmp\<close>, the lexicographic order of the bytes.\<close>

fun memcmp :: "byte list \<Rightarrow> byte list \<Rightarrow> int" where
  "memcmp (a # as) (b # bs) = (if a < b then - 1 else if b < a then 1 else memcmp as bs)"
| "memcmp _ _ = 0"

definition COutPoint_less :: "COutPoint \<Rightarrow> COutPoint \<Rightarrow> bool" where
  "COutPoint_less a b =
     (let cmp = memcmp (uint256_data (out_hash a)) (uint256_data (out_hash b))
      in cmp < 0 \<or> (cmp = 0 \<and> out_n a < out_n b))"

definition CTxIn_new :: "COutPoint \<Rightarrow> CScript \<Rightarrow> 32 word \<Rightarrow> CTxIn" where
  "CTxIn_new prevoutIn scriptSigIn nSequenceIn =
     \<lparr>prevout = prevoutIn, scriptSig = scriptSigIn, nSequence = nSequenceIn, scriptWitness = []\<rparr>"

definition CTxIn_eq :: "CTxIn \<Rightarrow> CTxIn \<Rightarrow> bool" where
  "CTxIn_eq a b \<longleftrightarrow> prevout a = prevout b \<and> scriptSig a = scriptSig b \<and> nSequence a = nSequence b"

definition CTxOut_null :: CTxOut where
  "CTxOut_null = \<lparr>nValue = - 1, scriptPubKey = []\<rparr>"

definition CTxOut_IsNull :: "CTxOut \<Rightarrow> bool" where
  "CTxOut_IsNull out \<longleftrightarrow> nValue out = - 1"

definition CTransaction_IsNull :: "CTransaction \<Rightarrow> bool" where
  "CTransaction_IsNull tx \<longleftrightarrow> vin tx = [] \<and> vout tx = []"

definition IsCoinBase :: "CTransaction \<Rightarrow> bool" where
  "IsCoinBase tx \<longleftrightarrow> length (vin tx) = 1 \<and> COutPoint_IsNull (prevout (vin tx ! 0))"

definition HasWitness :: "CTransaction \<Rightarrow> bool" where
  "HasWitness tx \<longleftrightarrow> list_ex (\<lambda>i. scriptWitness i \<noteq> []) (vin tx)"

section \<open>Serialization\<close>

definition ser_uint256 :: "uint256 \<Rightarrow> byte list" where
  "ser_uint256 h = uint256_data h"

definition unser_uint256 :: "uint256 reader" where
  "unser_uint256 s = ebind (stream_read 32 s) (\<lambda>(v, s). Inr (uint256_of v, s))"

definition ser_amount :: "CAmount \<Rightarrow> byte list" where
  "ser_amount v = ser_writedata64 (of_int v)"

definition unser_amount :: "CAmount reader" where
  "unser_amount s = ebind (ser_readdata64 s) (\<lambda>(v, s). Inr (sint v, s))"

definition ser_COutPoint :: "COutPoint \<Rightarrow> byte list" where
  "ser_COutPoint p = ser_uint256 (out_hash p) @ ser_writedata32 (out_n p)"

definition unser_COutPoint :: "COutPoint reader" where
  "unser_COutPoint s =
     ebind (unser_uint256 s) (\<lambda>(h, s). ebind (ser_readdata32 s) (\<lambda>(i, s).
       Inr (\<lparr>out_hash = h, out_n = i\<rparr>, s)))"

definition ser_CTxIn :: "CTxIn \<Rightarrow> byte list" where
  "ser_CTxIn i = ser_COutPoint (prevout i) @ ser_bytes (scriptSig i) @ ser_writedata32 (nSequence i)"

definition unser_CTxIn :: "CTxIn reader" where
  "unser_CTxIn s =
     ebind (unser_COutPoint s) (\<lambda>(p, s). ebind (unser_bytes s) (\<lambda>(sc, s). ebind (ser_readdata32 s) (\<lambda>(q, s).
       Inr (\<lparr>prevout = p, scriptSig = sc, nSequence = q, scriptWitness = []\<rparr>, s))))"

definition ser_CTxOut :: "CTxOut \<Rightarrow> byte list" where
  "ser_CTxOut out = ser_amount (nValue out) @ ser_bytes (scriptPubKey out)"

definition unser_CTxOut :: "CTxOut reader" where
  "unser_CTxOut s =
     ebind (unser_amount s) (\<lambda>(v, s). ebind (unser_bytes s) (\<lambda>(sc, s).
       Inr (\<lparr>nValue = v, scriptPubKey = sc\<rparr>, s)))"

definition ser_witness :: "valtype list \<Rightarrow> byte list" where
  "ser_witness = ser_vector ser_bytes"

definition unser_witness :: "valtype list reader" where
  "unser_witness = unser_vector unser_bytes"

definition SerializeTransaction :: "bool \<Rightarrow> CTransaction \<Rightarrow> byte list" where
  "SerializeTransaction fAllowWitness tx =
     (let flags = (if fAllowWitness \<and> HasWitness tx then 1 else 0 :: byte) in
      ser_writedata32 (nVersion tx) @
      (if flags \<noteq> 0 then ser_vector ser_CTxIn [] @ ser_writedata8 flags else []) @
      ser_vector ser_CTxIn (vin tx) @
      ser_vector ser_CTxOut (vout tx) @
      (if flags AND 1 \<noteq> 0 then concat (map (\<lambda>i. ser_witness (scriptWitness i)) (vin tx)) else []) @
      ser_writedata32 (nLockTime tx))"

text \<open>The loop that reads one witness stack for each input.\<close>

fun unser_witnesses :: "CTxIn list \<Rightarrow> CTxIn list reader" where
  "unser_witnesses [] s = Inr ([], s)"
| "unser_witnesses (i # is) s =
     ebind (unser_witness s) (\<lambda>(w, s). ebind (unser_witnesses is s) (\<lambda>(js, s).
       Inr (i\<lparr>scriptWitness := w\<rparr> # js, s)))"

text \<open>The three stages of the reader: inputs and outputs, witnesses, the whole.\<close>

definition unser_ins_outs :: "bool \<Rightarrow> (byte \<times> CTxIn list \<times> CTxOut list) reader" where
  "unser_ins_outs fAllowWitness s =
     ebind (unser_vector unser_CTxIn s) (\<lambda>(ins, s).
       if ins = [] \<and> fAllowWitness then
         ebind (ser_readdata8 s) (\<lambda>(flags, s).
           if flags \<noteq> 0 then
             ebind (unser_vector unser_CTxIn s) (\<lambda>(ins, s).
             ebind (unser_vector unser_CTxOut s) (\<lambda>(outs, s). Inr ((flags, ins, outs), s)))
           else Inr ((flags, ins, []), s))
       else ebind (unser_vector unser_CTxOut s) (\<lambda>(outs, s). Inr ((0, ins, outs), s)))"

definition unser_tx_witness :: "bool \<Rightarrow> byte \<Rightarrow> CTxIn list \<Rightarrow> CTxIn list reader" where
  "unser_tx_witness fAllowWitness flags ins s =
     ebind (if flags AND 1 \<noteq> 0 \<and> fAllowWitness then
              ebind (unser_witnesses ins s) (\<lambda>(ins, s). Inr (flags XOR 1, ins, s))
            else Inr (flags, ins, s))
       (\<lambda>(flags, ins, s). if flags \<noteq> 0 then Inl UnknownOptionalData else Inr (ins, s))"

definition UnserializeTransaction :: "bool \<Rightarrow> CTransaction reader" where
  "UnserializeTransaction fAllowWitness s =
     ebind (ser_readdata32 s) (\<lambda>(version, s).
     ebind (unser_ins_outs fAllowWitness s) (\<lambda>((flags, ins, outs), s).
     ebind (unser_tx_witness fAllowWitness flags ins s) (\<lambda>(ins, s).
     ebind (ser_readdata32 s) (\<lambda>(lockTime, s).
       Inr (\<lparr>vin = ins, vout = outs, nVersion = version, nLockTime = lockTime\<rparr>, s)))))"

section \<open>Hashes and sums\<close>

text \<open>\<open>CHashWriter\<close> feeds what is serialized into a \<open>CHash256\<close>, one \<open>write\<close> after the other.\<close>

definition CHashWriter_GetHash :: "byte list list \<Rightarrow> uint256" where
  "CHashWriter_GetHash writes = uint256_of (CHash256_Finalize (foldl CSHA256_Write (CSHA256 blank) writes))"

definition ComputeHash :: "CTransaction \<Rightarrow> uint256" where
  "ComputeHash tx = CHashWriter_GetHash [SerializeTransaction False tx]"

definition GetWitnessHash :: "CTransaction \<Rightarrow> uint256" where
  "GetWitnessHash tx =
     (if \<not> HasWitness tx then ComputeHash tx else CHashWriter_GetHash [SerializeTransaction True tx])"

definition GetTotalSize :: "CTransaction \<Rightarrow> nat" where
  "GetTotalSize tx = length (SerializeTransaction True tx)"

text \<open>
  The loop of \<open>GetValueOut\<close>; \<open>None\<close> is the exception \<open>value out of range\<close>.  The value is added before it is
  checked, so the sum of the code may wrap; \<open>wrap64\<close> is an addition in \<open>int64_t\<close>.
\<close>

definition wrap64 :: "int \<Rightarrow> int" where
  "wrap64 x = sint (of_int x :: 64 word)"

fun value_out_loop :: "bool \<Rightarrow> CAmount \<Rightarrow> CTxOut list \<Rightarrow> CAmount option" where
  "value_out_loop fAreEnforcedValues nValueOut [] = Some nValueOut"
| "value_out_loop fAreEnforcedValues nValueOut (tx_out # outs) =
     (if \<not> fAreEnforcedValues \<and> IsAssetScript (scriptPubKey tx_out) \<noteq> None
      then value_out_loop fAreEnforcedValues nValueOut outs
      else let nValueOut = wrap64 (nValueOut + nValue tx_out) in
        if \<not> MoneyRange (nValue tx_out) \<or> \<not> MoneyRange nValueOut then None
        else value_out_loop fAreEnforcedValues nValueOut outs)"

definition GetValueOut :: "bool \<Rightarrow> CTransaction \<Rightarrow> CAmount option" where
  "GetValueOut fAreEnforcedValues tx = value_out_loop fAreEnforcedValues 0 (vout tx)"

section \<open>The codecs of the parts\<close>

definition int64_range :: "int \<Rightarrow> bool" where
  "int64_range v \<longleftrightarrow> - (2 ^ 63) \<le> v \<and> v < 2 ^ 63"

lemma wrap64_id: "int64_range v \<Longrightarrow> wrap64 v = v"
  by (simp add: wrap64_def int64_range_def signed_of_int signed_take_bit_int_eq_self)

lemma int64_range_sint: "int64_range (sint (w :: 64 word))"
  using sint_range_size [of w] by (simp add: int64_range_def word_size)

lemma unser_uint256_iff: "unser_uint256 s = Inr (h, s') \<longleftrightarrow> s = ser_uint256 h @ s'"
  using le_word_iff [of 32 s s' h]
  by (auto simp: unser_uint256_def ebind_eq_Inr stream_read_iff ser_uint256_def uint256_of_def uint256_data_def)

interpretation u256: canonical_codec ser_uint256 unser_uint256 "\<lambda>_. True"
  by unfold_locales (simp_all add: unser_uint256_iff)

interpretation amount: canonical_codec ser_amount unser_amount int64_range
proof
  fix v s assume "int64_range v"
  then have "sint (of_int v :: 64 word) = v" using wrap64_id by (simp add: wrap64_def)
  then show "unser_amount (ser_amount v @ s) = Inr (v, s)"
    by (simp add: unser_amount_def ser_amount_def u64.unser_ser)
next
  fix s v s' assume "unser_amount s = Inr (v, s')"
  then show "int64_range v \<and> s = ser_amount v @ s'"
    by (auto simp: unser_amount_def ser_amount_def ebind_eq_Inr u64.unser_iff int64_range_sint)
qed

interpretation outpoint: canonical_codec ser_COutPoint unser_COutPoint "\<lambda>_. True"
  by unfold_locales (simp add: unser_COutPoint_def ser_COutPoint_def u256.unser_ser u32.unser_ser,
    auto simp: unser_COutPoint_def ser_COutPoint_def ebind_eq_Inr u256.unser_iff u32.unser_iff)

definition CTxIn_ok :: "CTxIn \<Rightarrow> bool" where
  "CTxIn_ok i \<longleftrightarrow> length (scriptSig i) \<le> MAX_SIZE \<and> scriptWitness i = []"

interpretation txin: canonical_codec ser_CTxIn unser_CTxIn CTxIn_ok
  by unfold_locales (simp add: unser_CTxIn_def ser_CTxIn_def CTxIn_ok_def outpoint.unser_ser bytes.unser_ser u32.unser_ser,
    auto simp: unser_CTxIn_def ser_CTxIn_def CTxIn_ok_def ebind_eq_Inr outpoint.unser_iff bytes.unser_iff u32.unser_iff)

definition CTxOut_ok :: "CTxOut \<Rightarrow> bool" where
  "CTxOut_ok out \<longleftrightarrow> int64_range (nValue out) \<and> length (scriptPubKey out) \<le> MAX_SIZE"

interpretation txout: canonical_codec ser_CTxOut unser_CTxOut CTxOut_ok
  by unfold_locales (simp add: unser_CTxOut_def ser_CTxOut_def CTxOut_ok_def amount.unser_ser bytes.unser_ser,
    auto simp: unser_CTxOut_def ser_CTxOut_def CTxOut_ok_def ebind_eq_Inr amount.unser_iff bytes.unser_iff)

definition vector_ok :: "('a \<Rightarrow> bool) \<Rightarrow> 'a list \<Rightarrow> bool" where
  "vector_ok ok v \<longleftrightarrow> length v \<le> MAX_SIZE \<and> list_all ok v"

interpretation txins: canonical_codec "ser_vector ser_CTxIn" "unser_vector unser_CTxIn" "vector_ok CTxIn_ok"
  unfolding vector_ok_def by (rule txin.vector_canonical)

interpretation txouts: canonical_codec "ser_vector ser_CTxOut" "unser_vector unser_CTxOut" "vector_ok CTxOut_ok"
  unfolding vector_ok_def by (rule txout.vector_canonical)

definition witness_ok :: "valtype list \<Rightarrow> bool" where
  "witness_ok = vector_ok (\<lambda>v. length v \<le> MAX_SIZE)"

interpretation witness: canonical_codec ser_witness unser_witness witness_ok
  unfolding ser_witness_def unser_witness_def witness_ok_def vector_ok_def by (rule bytes.vector_canonical)

section \<open>The language of the transaction reader\<close>

definition no_witness :: "CTxIn \<Rightarrow> CTxIn" where
  "no_witness i = i\<lparr>scriptWitness := []\<rparr>"

definition strip_witness :: "CTransaction \<Rightarrow> CTransaction" where
  "strip_witness tx = tx\<lparr>vin := map no_witness (vin tx)\<rparr>"

text \<open>What the streams can carry: sizes within \<open>MAX_SIZE\<close> and values of \<open>int64_t\<close>.\<close>

definition tx_ok :: "CTransaction \<Rightarrow> bool" where
  "tx_ok tx \<longleftrightarrow> vector_ok (\<lambda>i. length (scriptSig i) \<le> MAX_SIZE \<and> witness_ok (scriptWitness i)) (vin tx) \<and>
     vector_ok CTxOut_ok (vout tx)"

definition extended_format :: "CTransaction \<Rightarrow> byte list" where
  "extended_format tx =
     ser_writedata32 (nVersion tx) @ [0x00, 0x01] @ ser_vector ser_CTxIn (vin tx) @ ser_vector ser_CTxOut (vout tx) @
     concat (map (\<lambda>i. ser_witness (scriptWitness i)) (vin tx)) @ ser_writedata32 (nLockTime tx)"

lemma ser_vector_Nil: "ser_vector ser [] = [0x00]"
  by (simp add: ser_vector_def WriteCompactSize_def ser_writedata8_def)

lemma ser_CTxIn_no_witness [simp]: "ser_CTxIn (no_witness i) = ser_CTxIn i"
  by (simp add: ser_CTxIn_def no_witness_def)

lemma ser_txins_no_witness [simp]: "ser_vector ser_CTxIn (map no_witness is) = ser_vector ser_CTxIn is"
  by (simp add: ser_vector_def comp_def)

lemma Serialize_with_witness: "HasWitness tx \<Longrightarrow> SerializeTransaction True tx = extended_format tx"
  by (simp add: SerializeTransaction_def extended_format_def ser_vector_Nil ser_writedata8_def)

lemma Serialize_legacy: "\<not> (fAllowWitness \<and> HasWitness tx) \<Longrightarrow> SerializeTransaction fAllowWitness tx =
    ser_writedata32 (nVersion tx) @ ser_vector ser_CTxIn (vin tx) @ ser_vector ser_CTxOut (vout tx) @ ser_writedata32 (nLockTime tx)"
  by (auto simp: SerializeTransaction_def)

lemma unser_witnesses_iff:
  "unser_witnesses is s = Inr (js, s') \<longleftrightarrow>
     map no_witness js = map no_witness is \<and> list_all (\<lambda>i. witness_ok (scriptWitness i)) js \<and>
     s = concat (map (\<lambda>i. ser_witness (scriptWitness i)) js) @ s'"
proof (induction "is" arbitrary: js s)
  case (Cons i "is")
  show ?case
  proof (cases js)
    case (Cons j js')
    have "i\<lparr>scriptWitness := w\<rparr> = j \<longleftrightarrow> no_witness i = no_witness j \<and> w = scriptWitness j" for w
      by (cases i; cases j) (auto simp: no_witness_def)
    then show ?thesis using Cons.IH unfolding Cons
      by (auto simp: ebind_eq_Inr witness.unser_iff)
  qed (auto simp: ebind_eq_Inr)
qed auto

lemma vector_ok_no_witness:
  "vector_ok CTxIn_ok is \<longleftrightarrow> vector_ok (\<lambda>i. length (scriptSig i) \<le> MAX_SIZE) is \<and> list_all (\<lambda>i. scriptWitness i = []) is"
  by (auto simp: vector_ok_def CTxIn_ok_def list_all_iff)

lemma not_HasWitness: "\<not> HasWitness tx \<longleftrightarrow> list_all (\<lambda>i. scriptWitness i = []) (vin tx)"
  by (auto simp: HasWitness_def list_ex_iff list_all_iff)

lemma witness_ok_Nil [simp]: "witness_ok []"
  by (simp add: witness_ok_def vector_ok_def)

lemma tx_ok_legacy:
  "tx_ok tx \<and> \<not> HasWitness tx \<longleftrightarrow> vector_ok CTxIn_ok (vin tx) \<and> vector_ok CTxOut_ok (vout tx)"
  by (auto simp: tx_ok_def not_HasWitness CTxIn_ok_def vector_ok_def list_all_iff)

lemma map_no_witness_id: "list_all (\<lambda>i. scriptWitness i = []) is \<Longrightarrow> map no_witness is = is"
  by (rule map_idI) (auto simp: list_all_iff no_witness_def)

lemma tx_ok_extended:
  "vector_ok CTxIn_ok is \<and> map no_witness (vin tx) = map no_witness is \<and>
     list_all (\<lambda>i. witness_ok (scriptWitness i)) (vin tx) \<and> vector_ok CTxOut_ok (vout tx) \<longleftrightarrow>
   tx_ok tx \<and> is = map no_witness (vin tx)"
proof -
  have "length (scriptSig (no_witness i)) = length (scriptSig i)" "scriptWitness (no_witness i) = []" for i
    by (simp_all add: no_witness_def)
  then have "vector_ok CTxIn_ok (map no_witness js) \<longleftrightarrow> vector_ok (\<lambda>i. length (scriptSig i) \<le> MAX_SIZE) js" for js
    by (simp add: vector_ok_def CTxIn_ok_def list_all_iff)
  then have "vector_ok CTxIn_ok (map no_witness (vin tx)) \<and> list_all (\<lambda>i. witness_ok (scriptWitness i)) (vin tx) \<longleftrightarrow>
      vector_ok (\<lambda>i. length (scriptSig i) \<le> MAX_SIZE \<and> witness_ok (scriptWitness i)) (vin tx)"
    by (auto simp: vector_ok_def list_all_iff)
  moreover have "vector_ok CTxIn_ok is \<Longrightarrow> map no_witness is = is"
    using vector_ok_no_witness map_no_witness_id by blast
  moreover have "map no_witness (map no_witness (vin tx)) = map no_witness (vin tx)" by (simp add: no_witness_def)
  ultimately show ?thesis unfolding tx_ok_def by (cases "is = map no_witness (vin tx)") auto
qed

lemma unser_ins_outs_iff:
  "unser_ins_outs fAllowWitness s = Inr ((flags, ins, outs), s') \<longleftrightarrow>
     vector_ok CTxIn_ok ins \<and> vector_ok CTxOut_ok outs \<and>
     (flags = 0 \<and> (fAllowWitness \<and> ins = [] \<longrightarrow> outs = []) \<and> s = ser_vector ser_CTxIn ins @ ser_vector ser_CTxOut outs @ s' \<or>
      flags \<noteq> 0 \<and> fAllowWitness \<and> s = [0, flags] @ ser_vector ser_CTxIn ins @ ser_vector ser_CTxOut outs @ s')"
proof -
  have ok: "vector_ok CTxIn_ok []" "vector_ok CTxOut_ok []" by (simp_all add: vector_ok_def)
  have "unser_ins_outs fAllowWitness s = Inr ((flags, ins, outs), s') \<longleftrightarrow>
    (\<exists>is r. vector_ok CTxIn_ok is \<and> s = ser_vector ser_CTxIn is @ r \<and>
      (if is = [] \<and> fAllowWitness then
         (\<exists>r'. r = flags # r' \<and>
           (if flags \<noteq> 0 then vector_ok CTxIn_ok ins \<and> vector_ok CTxOut_ok outs \<and>
              r' = ser_vector ser_CTxIn ins @ ser_vector ser_CTxOut outs @ s'
            else ins = [] \<and> outs = [] \<and> r' = s'))
       else flags = 0 \<and> ins = is \<and> vector_ok CTxOut_ok outs \<and> r = ser_vector ser_CTxOut outs @ s'))"
    unfolding unser_ins_outs_def
    by (auto simp: ebind_eq_Inr txins.unser_iff txouts.unser_iff ser_readdata8_iff split: if_splits)
  also have "\<dots> \<longleftrightarrow> vector_ok CTxIn_ok ins \<and> vector_ok CTxOut_ok outs \<and>
     (flags = 0 \<and> (fAllowWitness \<and> ins = [] \<longrightarrow> outs = []) \<and> s = ser_vector ser_CTxIn ins @ ser_vector ser_CTxOut outs @ s' \<or>
      flags \<noteq> 0 \<and> fAllowWitness \<and> s = [0, flags] @ ser_vector ser_CTxIn ins @ ser_vector ser_CTxOut outs @ s')"
    (is "?l \<longleftrightarrow> ?r")
  proof
    assume ?l
    then show ?r by (elim exE conjE) (auto simp: ser_vector_Nil ok split: if_splits)
  next
    assume ?r
    then show ?l
      by (elim conjE disjE) (rule exI [of _ "if flags = 0 then ins else []"], auto simp: ser_vector_Nil ok)+
  qed
  finally show ?thesis .
qed

lemma flags_only_1: "(flags :: byte) XOR 1 = 0 \<longleftrightarrow> flags = 1"
proof
  assume "flags XOR 1 = 0"
  moreover have "flags = (flags XOR 1) XOR 1" by (simp add: xor.assoc)
  ultimately show "flags = 1" by simp
qed simp

lemma unser_tx_witness_iff:
  "unser_tx_witness fAllowWitness flags ins s = Inr (js, s') \<longleftrightarrow>
     flags = 0 \<and> js = ins \<and> s = s' \<or> flags = 1 \<and> fAllowWitness \<and> unser_witnesses ins s = Inr (js, s')"
  by (auto simp: unser_tx_witness_def ebind_eq_Inr flags_only_1 split: if_splits)

text \<open>The inputs, outputs and witnesses as the two formats: \<open>flags = 0\<close> is the basic one, \<open>flags = 1\<close> the extended one.\<close>

definition unser_formats :: "bool \<Rightarrow> CTransaction \<Rightarrow> byte list \<Rightarrow> byte list \<Rightarrow> byte \<Rightarrow> CTxIn list \<Rightarrow> byte list \<Rightarrow> bool" where
  "unser_formats fAllowWitness tx s s' flags ins r \<longleftrightarrow>
     vector_ok CTxIn_ok ins \<and> vector_ok CTxOut_ok (vout tx) \<and>
     (flags = 0 \<and> (fAllowWitness \<and> ins = [] \<longrightarrow> vout tx = []) \<and>
        s = ser_writedata32 (nVersion tx) @ ser_vector ser_CTxIn ins @ ser_vector ser_CTxOut (vout tx) @ r \<or>
      flags \<noteq> 0 \<and> fAllowWitness \<and>
        s = ser_writedata32 (nVersion tx) @ [0, flags] @ ser_vector ser_CTxIn ins @ ser_vector ser_CTxOut (vout tx) @ r) \<and>
     unser_tx_witness fAllowWitness flags ins r = Inr (vin tx, ser_writedata32 (nLockTime tx) @ s')"

lemma unser_formats:
  "UnserializeTransaction fAllowWitness s = Inr (tx, s') \<longleftrightarrow> (\<exists>flags ins r. unser_formats fAllowWitness tx s s' flags ins r)"
  unfolding UnserializeTransaction_def unser_formats_def
  by (cases tx) (auto simp: ebind_eq_Inr u32.unser_iff unser_ins_outs_iff; blast)

lemma same_inputs_ser:
  "map no_witness is = map no_witness js \<Longrightarrow> ser_vector ser_CTxIn is = ser_vector ser_CTxIn js"
  using ser_txins_no_witness by metis

lemma unser_formats_basic:
  "(\<exists>ins r. unser_formats fAllowWitness tx s s' 0 ins r) \<longleftrightarrow>
     tx_ok tx \<and> \<not> HasWitness tx \<and> (fAllowWitness \<and> vin tx = [] \<longrightarrow> vout tx = []) \<and> s = SerializeTransaction False tx @ s'"
  using tx_ok_legacy [of tx] by (auto simp: unser_formats_def unser_tx_witness_iff Serialize_legacy)

lemma unser_formats_extended:
  "(\<exists>flags ins r. flags \<noteq> 0 \<and> unser_formats fAllowWitness tx s s' flags ins r) \<longleftrightarrow>
     tx_ok tx \<and> fAllowWitness \<and> s = extended_format tx @ s'"
proof
  assume "\<exists>flags ins r. flags \<noteq> 0 \<and> unser_formats fAllowWitness tx s s' flags ins r"
  then obtain flags ins r where f: "flags \<noteq> 0" "unser_formats fAllowWitness tx s s' flags ins r" by blast
  then have m: "map no_witness (vin tx) = map no_witness ins" "list_all (\<lambda>i. witness_ok (scriptWitness i)) (vin tx)"
    by (auto simp: unser_formats_def unser_tx_witness_iff unser_witnesses_iff)
  from f m same_inputs_ser [OF m(1)] tx_ok_extended [of ins tx] show "tx_ok tx \<and> fAllowWitness \<and> s = extended_format tx @ s'"
    by (auto simp: unser_formats_def unser_tx_witness_iff unser_witnesses_iff extended_format_def)
next
  assume r: "tx_ok tx \<and> fAllowWitness \<and> s = extended_format tx @ s'"
  let ?ins = "map no_witness (vin tx)"
  have "vector_ok CTxIn_ok ?ins \<and> map no_witness (vin tx) = map no_witness ?ins \<and>
     list_all (\<lambda>i. witness_ok (scriptWitness i)) (vin tx) \<and> vector_ok CTxOut_ok (vout tx)"
    unfolding tx_ok_extended using r by simp
  with r have "unser_formats fAllowWitness tx s s' 1 ?ins
      (concat (map (\<lambda>i. ser_witness (scriptWitness i)) (vin tx)) @ ser_writedata32 (nLockTime tx) @ s')"
    unfolding unser_formats_def unser_tx_witness_iff unser_witnesses_iff extended_format_def by simp
  then show "\<exists>flags ins r. flags \<noteq> 0 \<and> unser_formats fAllowWitness tx s s' flags ins r"
    by (intro exI [of _ "1 :: byte"]) auto
qed

lemma UnserializeTransaction_iff:
  "UnserializeTransaction fAllowWitness s = Inr (tx, s') \<longleftrightarrow>
     tx_ok tx \<and>
     (\<not> HasWitness tx \<and> (fAllowWitness \<and> vin tx = [] \<longrightarrow> vout tx = []) \<and> s = SerializeTransaction False tx @ s' \<or>
      fAllowWitness \<and> s = extended_format tx @ s')"
  unfolding unser_formats using unser_formats_basic unser_formats_extended by metis

text \<open>
  C4. The transaction reader accepts exactly two formats and reads them back correctly.  A byte string reads as
  \<open>tx\<close>, with \<open>s'\<close> left over, exactly when it is the basic format of a transaction without witnesses or,
  where witnesses are allowed, the extended format, followed by \<open>s'\<close>.  Where witnesses are allowed, the
  basic format is not available to a transaction that has outputs and no inputs: its zero
  input count reads as the marker of the extended format.
\<close>

theorem transaction_language:
  "UnserializeTransaction fAllowWitness s = Inr (tx, s') \<longleftrightarrow>
     tx_ok tx \<and>
     (\<not> HasWitness tx \<and> \<not> (fAllowWitness \<and> vin tx = [] \<and> vout tx \<noteq> []) \<and> s = SerializeTransaction False tx @ s' \<or>
      fAllowWitness \<and> s = extended_format tx @ s')"
  using UnserializeTransaction_iff by blast

lemma strip_witness_facts:
  "tx_ok tx \<Longrightarrow> tx_ok (strip_witness tx)" "\<not> HasWitness (strip_witness tx)"
  "SerializeTransaction False (strip_witness tx) = SerializeTransaction False tx"
  "\<not> HasWitness tx \<Longrightarrow> strip_witness tx = tx"
proof -
  show "tx_ok tx \<Longrightarrow> tx_ok (strip_witness tx)"
    by (auto simp: tx_ok_def strip_witness_def vector_ok_def list_all_iff no_witness_def)
  show "\<not> HasWitness (strip_witness tx)"
    by (auto simp: not_HasWitness strip_witness_def list_all_iff no_witness_def)
  show "SerializeTransaction False (strip_witness tx) = SerializeTransaction False tx"
    by (simp add: Serialize_legacy) (simp add: strip_witness_def)
  show "\<not> HasWitness tx \<Longrightarrow> strip_witness tx = tx"
    by (simp add: strip_witness_def not_HasWitness map_no_witness_id)
qed

lemma unser_ser_no_witness:
  assumes "tx_ok tx"
  shows "UnserializeTransaction False (SerializeTransaction False tx @ s) = Inr (strip_witness tx, s)"
  using strip_witness_facts [of tx] assms by (simp add: UnserializeTransaction_iff)

lemma ser_no_witness_inject:
  assumes "tx_ok tx" "tx_ok tx'" "SerializeTransaction False tx @ s = SerializeTransaction False tx' @ s'"
  shows "strip_witness tx = strip_witness tx' \<and> s = s'"
  using unser_ser_no_witness [OF assms(1), of s] unser_ser_no_witness [OF assms(2), of s'] assms(3) by simp

text \<open>
  C15. Transactions survive the wire: what \<open>SerializeTransaction\<close> writes is read back as the same transaction,
  or, on a stream without witnesses, as the transaction with its witnesses removed.  The one
  exception is a transaction without inputs and with outputs on a stream that allows witnesses.
\<close>

theorem transaction_roundtrip:
  assumes "tx_ok tx" "fAllowWitness \<Longrightarrow> vin tx = [] \<Longrightarrow> vout tx = []"
  shows "UnserializeTransaction fAllowWitness (SerializeTransaction fAllowWitness tx @ s) =
    Inr (if fAllowWitness then tx else strip_witness tx, s)"
proof (cases "fAllowWitness \<and> HasWitness tx")
  case True
  with assms(1) show ?thesis by (simp add: UnserializeTransaction_iff Serialize_with_witness)
next
  case False
  then have "SerializeTransaction fAllowWitness tx = SerializeTransaction False tx" by (simp add: Serialize_legacy)
  with False assms strip_witness_facts [of tx] show ?thesis
    by (cases fAllowWitness) (simp_all add: UnserializeTransaction_iff)
qed

theorem transaction_roundtrip_witness:
  "let tx = \<lparr>vin = [\<lparr>prevout = \<lparr>out_hash = 5, out_n = 1\<rparr>, scriptSig = [0x51], nSequence = 7, scriptWitness = [[1, 2]]\<rparr>],
      vout = [\<lparr>nValue = - 1, scriptPubKey = []\<rparr>], nVersion = 2, nLockTime = 9\<rparr>
   in tx_ok tx \<and> UnserializeTransaction True (SerializeTransaction True tx) = Inr (tx, [])"
proof -
  let ?tx = "\<lparr>vin = [\<lparr>prevout = \<lparr>out_hash = 5, out_n = 1\<rparr>, scriptSig = [0x51], nSequence = 7, scriptWitness = [[1, 2]]\<rparr>],
      vout = [\<lparr>nValue = - 1, scriptPubKey = []\<rparr>], nVersion = 2, nLockTime = 9\<rparr>"
  have ok: "tx_ok ?tx"
    by (simp add: tx_ok_def vector_ok_def witness_ok_def CTxOut_ok_def int64_range_def MAX_SIZE_def)
  from transaction_roundtrip [OF this, of True "[]"] ok show ?thesis by simp
qed

section \<open>Hashes\<close>

lemma foldl_Write_absorbed:
  "absorbed 64 sha256_compress sha256_Initialize h m \<Longrightarrow>
     absorbed 64 sha256_compress sha256_Initialize (foldl CSHA256_Write h ws) (m @ concat ws)"
proof (induction ws arbitrary: h m)
  case (Cons w ws)
  from Cons.IH [OF sha256.Write_absorbs [OF Cons.prems]] show ?case by simp
qed simp

lemma CHashWriter_GetHash_eq: "CHashWriter_GetHash ws = Hash (concat ws)"
  using CHash256_Finalize_absorbed [OF foldl_Write_absorbed [OF CSHA256_new, of blank ws]]
  by (simp add: CHashWriter_GetHash_def Hash_def hash256_eq sha256_eq)

lemma ComputeHash_strip_witness: "ComputeHash (strip_witness tx) = ComputeHash tx"
  by (simp add: ComputeHash_def strip_witness_facts)

section \<open>The value of the outputs\<close>

lemma value_out_loop_exact:
  assumes "MoneyRange v"
  shows "value_out_loop e v outs =
    (let vs = map nValue (filter (\<lambda>out. e \<or> IsAssetScript (scriptPubKey out) = None) outs) in
     if (\<forall>x\<in>set vs. MoneyRange x) \<and> v + sum_list vs \<le> MAX_MONEY then Some (v + sum_list vs) else None)"
  using assms
proof (induction outs arbitrary: v)
  case Nil
  then show ?case by (simp add: MoneyRange_def)
next
  case (Cons out outs)
  have w: "wrap64 (v + nValue out) = v + nValue out" if "MoneyRange (nValue out)"
    using that Cons.prems by (intro wrap64_id) (simp add: MoneyRange_def MAX_MONEY_def COIN_def int64_range_def)
  let ?vs = "map nValue (filter (\<lambda>out. e \<or> IsAssetScript (scriptPubKey out) = None) outs)"
  have s: "0 \<le> sum_list ?vs" if "\<forall>x\<in>set ?vs. MoneyRange x"
    using that by (intro sum_list_nonneg) (auto simp: MoneyRange_def)
  show ?case
  proof (cases "\<not> e \<and> IsAssetScript (scriptPubKey out) \<noteq> None")
    case True
    then have "filter (\<lambda>out. e \<or> IsAssetScript (scriptPubKey out) = None) (out # outs) =
        filter (\<lambda>out. e \<or> IsAssetScript (scriptPubKey out) = None) outs"
      "value_out_loop e v (out # outs) = value_out_loop e v outs" by simp_all
    with Cons.IH [OF Cons.prems] show ?thesis by (simp only:)
  next
    case False
    show ?thesis
    proof (cases "MoneyRange (nValue out) \<and> MoneyRange (v + nValue out)")
      case True
      with False w Cons.IH [of "v + nValue out"] show ?thesis by (auto simp: Let_def add.assoc)
    next
      case range: False
      have "\<not> v + (nValue out + sum_list ?vs) \<le> MAX_MONEY" if "MoneyRange (nValue out)" "\<forall>x\<in>set ?vs. MoneyRange x"
        using s [OF that(2)] that(1) range Cons.prems by (auto simp: MoneyRange_def)
      with False range w show ?thesis by (auto simp: Let_def)
    qed
  qed
qed

text \<open>
  C16. \<open>GetValueOut\<close> computes the exact sum: it returns the sum of the output values (leaving out asset outputs
  before values are enforced) exactly when every one of them and the sum are within
  \<open>MAX_MONEY\<close>, and throws otherwise.  In particular no wrapped 64-bit sum is ever returned.
\<close>

theorem GetValueOut_exact:
  "GetValueOut e tx =
    (let vs = map nValue (filter (\<lambda>out. e \<or> IsAssetScript (scriptPubKey out) = None) (vout tx)) in
     if list_all MoneyRange vs \<and> sum_list vs \<le> MAX_MONEY then Some (sum_list vs) else None)"
proof -
  have "MoneyRange 0" by (simp add: MoneyRange_def MAX_MONEY_def COIN_def)
  from value_out_loop_exact [OF this, of e "vout tx"] show ?thesis
    unfolding GetValueOut_def list_all_iff Let_def add_0 .
qed

end
