(* ===== verification/Script_Props.thy ===== *)
theory Script_Props
  imports Script
begin

text \<open>
  Behaviour of the script builders and walkers: what is pushed is read back, \<open>FindAndDelete\<close>
  removes exactly the instructions equal to its argument, and the small integers round trip.
\<close>

section \<open>Reading after a prefix\<close>

lemma push_size_append:
  "push_size opcode pc = Some (n, pc') \<Longrightarrow> push_size opcode (pc @ r) = Some (n, pc' @ r)"
  by (auto simp: push_size_def ReadLE16_def ReadLE32_def split: if_splits)

lemma GetOp2_append:
  assumes "GetOp2 pc = (True, pc', opcode, d)" "opcode \<noteq> OP_AVN_ASSET"
  shows "GetOp2 (pc @ r) = (True, pc' @ r, opcode, d)"
  using assms
  by (auto simp: GetOp2_def Let_def push_size_append split: list.splits if_splits option.splits)

lemma ReadLE_WriteLE: "ReadLE16 (WriteLE16 x @ r) = x" "ReadLE32 (WriteLE32 y @ r) = y"
  "length (WriteLE16 x) = 2" "length (WriteLE32 y) = 4"
  by (simp_all add: ReadLE16_def WriteLE16_def ReadLE32_def WriteLE32_def le_val_le_bytes
      unsigned_less [of x, simplified] unsigned_less [of y, simplified])

definition push_opcode_for :: "nat \<Rightarrow> opcodetype" where
  "push_opcode_for n =
     (if n < OP_PUSHDATA1 then n else if n \<le> 0xff then OP_PUSHDATA1
      else if n \<le> 0xffff then OP_PUSHDATA2 else OP_PUSHDATA4)"

lemma GetOp2_push_data:
  assumes "length d < 2 ^ 32"
  shows "GetOp2 (push_data d @ r) = (True, r, push_opcode_for (length d), d)"
proof -
  have u8: "unat (of_nat n :: byte) = n" if "n < 256" for n using that by (simp add: unat_of_nat)
  have u16: "unat (of_nat n :: 16 word) = n" if "n < 65536" for n using that by (simp add: unat_of_nat)
  have u32: "unat (of_nat (length d) :: 32 word) = length d" using assms by (simp add: unat_of_nat)
  consider "length d < 76" | "76 \<le> length d" "length d \<le> 255" | "256 \<le> length d" "length d \<le> 65535" | "65536 \<le> length d"
    by linarith
  then show ?thesis
  proof cases
    case 1
    then show ?thesis by (simp add: push_data_def GetOp2_def push_size_def push_opcode_for_def u8)
  next
    case 2
    then show ?thesis by (simp add: push_data_def GetOp2_def push_size_def push_opcode_for_def u8)
  next
    case 3
    then show ?thesis by (simp add: push_data_def GetOp2_def push_size_def push_opcode_for_def ReadLE_WriteLE u16)
  next
    case 4
    then show ?thesis by (simp add: push_data_def GetOp2_def push_size_def push_opcode_for_def ReadLE_WriteLE u32)
  qed
qed

section \<open>The small integers\<close>

lemma DecodeOP_N_iff: "DecodeOP_N opcode = Some n \<longleftrightarrow> EncodeOP_N n = Some opcode"
  by (auto simp: DecodeOP_N_def EncodeOP_N_def)

section \<open>Deleting a subscript\<close>

text \<open>
  A script as the byte strings of its instructions and the rest that does not parse.
\<close>

function chunks :: "CScript \<Rightarrow> CScript list \<times> CScript" where
  "chunks pc =
     (case GetOp2 pc of (ok, pc', _, _) \<Rightarrow>
        if ok then (case chunks pc' of (cs, t) \<Rightarrow> (take (length pc - length pc') pc # cs, t)) else ([], pc))"
  by pat_completeness auto
termination
  by (relation "measure length") (auto dest!: GetOp2_shorter [OF sym])

declare chunks.simps [simp del]

lemma chunks_step:
  "GetOp2 pc = (True, pc', opcode, d) \<Longrightarrow>
     chunks pc = (take (length pc - length pc') pc # fst (chunks pc'), snd (chunks pc'))"
  "GetOp2 pc = (False, pc', opcode, d) \<Longrightarrow> chunks pc = ([], pc)"
  by (subst chunks.simps, simp split: prod.splits)+

text \<open>A single complete instruction: \<open>GetOp\<close> reads all of it.\<close>

definition one_instruction :: "CScript \<Rightarrow> bool" where
  "one_instruction b \<longleftrightarrow> (\<exists>opcode d. GetOp2 b = (True, [], opcode, d) \<and> opcode \<noteq> OP_AVN_ASSET)"

lemma one_instruction_push_data: "length d < 2 ^ 32 \<Longrightarrow> one_instruction (push_data d)"
  using GetOp2_push_data [of d "[]"] by (auto simp: one_instruction_def push_opcode_for_def)

lemma one_instruction_nonempty: "one_instruction b \<Longrightarrow> b \<noteq> []"
  by (auto simp: one_instruction_def GetOp2_def)

lemma chunks_instruction:
  assumes "one_instruction b"
  shows "chunks (b @ r) = (b # fst (chunks r), snd (chunks r))"
proof -
  obtain opcode d where "GetOp2 b = (True, [], opcode, d)" "opcode \<noteq> OP_AVN_ASSET"
    using assms by (auto simp: one_instruction_def)
  from chunks_step(1) [OF GetOp2_append [OF this, of r]] show ?thesis by simp
qed

lemma chunks_append: "concat (fst (chunks pc)) @ snd (chunks pc) = pc"
proof (induction pc rule: chunks.induct)
  case (1 pc)
  obtain ok pc' opcode d where g: "GetOp2 pc = (ok, pc', opcode, d)" by (cases "GetOp2 pc") auto
  show ?case
  proof (cases ok)
    case True
    obtain p where "pc = p @ pc'" using GetOp2_suffix [OF g] by (auto simp: suffix_def)
    moreover have "concat (fst (chunks pc')) @ snd (chunks pc') = pc'" using 1 g True by auto
    ultimately show ?thesis using chunks_step(1) [OF g [unfolded eqTrueI [OF True]]] by simp
  next
    case False
    then show ?thesis using chunks_step(2) g by simp
  qed
qed

definition kept :: "CScript \<Rightarrow> CScript \<Rightarrow> CScript" where
  "kept b pc = concat (filter (\<lambda>c. c \<noteq> b) (fst (chunks pc))) @ snd (chunks pc)"

lemma skip_matches_kept:
  assumes "one_instruction b"
  shows "kept b (fst (skip_matches b pc n)) = kept b pc \<and>
    snd (skip_matches b pc n) + count_list (fst (chunks (fst (skip_matches b pc n)))) b = n + count_list (fst (chunks pc)) b \<and>
    take (length b) (fst (skip_matches b pc n)) \<noteq> b"
  using assms
proof (induction b pc n rule: skip_matches.induct)
  case (1 b pc n)
  note ne = one_instruction_nonempty [OF 1(2)]
  show ?case
  proof (cases "b \<noteq> [] \<and> length b \<le> length pc \<and> take (length b) pc = b")
    case True
    then have "pc = b @ drop (length b) pc" by (metis append_take_drop_id)
    with chunks_instruction [OF 1(2), of "drop (length b) pc"]
    have c: "chunks pc = (b # fst (chunks (drop (length b) pc)), snd (chunks (drop (length b) pc)))" by simp
    show ?thesis using 1(1) [OF True 1(2)] True
      by (subst (1 2 3 4) skip_matches.simps) (simp add: c kept_def)
  next
    case False
    then have "take (length b) pc \<noteq> b" using ne by (metis length_take min_def nat_le_linear take_all)
    with False show ?thesis by (subst (1 2 3 4) skip_matches.simps) auto
  qed
qed

lemma delete_loop_kept:
  assumes "one_instruction b"
  shows "delete_loop b result pc2 pc n = (R, P, N) \<Longrightarrow>
    R @ P = result @ take (length pc2 - length pc) pc2 @ kept b pc \<and> N = n + count_list (fst (chunks pc)) b"
  using assms
proof (induction b result pc2 pc n rule: delete_loop.induct)
  case (1 b result pc2 pc n)
  let ?r = "result @ take (length pc2 - length pc) pc2" and ?m = "skip_matches b pc n"
  obtain ok pc' opcode d where g: "GetOp2 (fst ?m) = (ok, pc', opcode, d)" by (cases "GetOp2 (fst ?m)") auto
  note k = skip_matches_kept [OF 1(3), of pc n]
  show ?case
  proof (cases ok)
    case True
    note g' = g [unfolded eqTrueI [OF True]]
    let ?c = "take (length (fst ?m) - length pc') (fst ?m)"
    have "delete_loop b ?r (fst ?m) pc' (snd ?m) = (R, P, N)"
      using 1(2) g' by (subst (asm) delete_loop.simps) (simp add: Let_def)
    with 1(1) [OF refl refl g [symmetric] refl refl True _ 1(3)]
    have "R @ P = ?r @ ?c @ kept b pc'" "N = snd ?m + count_list (fst (chunks pc')) b" by simp_all
    moreover have "?c \<noteq> b" using k by (metis length_take min.absorb2 diff_le_self)
    then have "kept b (fst ?m) = ?c @ kept b pc'"
      "count_list (fst (chunks (fst ?m))) b = count_list (fst (chunks pc')) b"
      by (simp_all add: kept_def chunks_step(1) [OF g'])
    ultimately show ?thesis using k by simp
  next
    case False
    with 1(2) g have "R = ?r" "P = fst ?m" "N = snd ?m" by (simp_all add: delete_loop.simps [of b result] Let_def)
    moreover have "kept b (fst ?m) = fst ?m" "count_list (fst (chunks (fst ?m))) b = 0"
      using chunks_step(2) g False by (simp_all add: kept_def)
    ultimately show ?thesis using k by simp
  qed
qed

lemma FindAndDelete_eq:
  assumes "one_instruction b"
  shows "FindAndDelete script b =
    (concat (filter (\<lambda>c. c \<noteq> b) (fst (chunks script))) @ snd (chunks script), count_list (fst (chunks script)) b)"
proof -
  obtain R P N where l: "delete_loop b [] script script 0 = (R, P, N)" by (cases "delete_loop b [] script script 0") auto
  from delete_loop_kept [OF assms l] have k: "R @ P = kept b script" "N = count_list (fst (chunks script)) b" by simp_all
  have "kept b script = script" if "N = 0"
  proof -
    have "filter (\<lambda>c. c \<noteq> b) (fst (chunks script)) = fst (chunks script)"
      using that k(2) by (auto simp: filter_id_conv count_list_0_iff)
    then show ?thesis by (simp add: kept_def chunks_append)
  qed
  with k l one_instruction_nonempty [OF assms] show ?thesis by (auto simp: FindAndDelete_def kept_def)
qed

text \<open>
  \<open>FindAndDelete\<close> of one instruction removes every occurrence of it as an instruction and nothing else: split
  the script into its instructions and the rest that does not parse; the result is the other
  instructions in their order and that rest, and the count is the number removed.  Bytes inside the
  data of another push are never touched.
\<close>

theorem FindAndDelete_spec:
  assumes "one_instruction b"
  shows "FindAndDelete script b =
    (concat (filter (\<lambda>c. c \<noteq> b) (fst (chunks script))) @ snd (chunks script), count_list (fst (chunks script)) b)"
  by (rule FindAndDelete_eq [OF assms])

theorem FindAndDelete_spec_witness:
  "one_instruction (push_data [7]) \<and> FindAndDelete [1, 7, 2, 1, 7, 0xac, 1, 7] (push_data [7]) = ([2, 1, 7, 0xac], 2)"
proof -
  have 1: "one_instruction (push_data [7])" by (rule one_instruction_push_data) simp
  have 2: "push_data [7] = [1, 7]" by (simp add: push_data_def)
  have "chunks [1, 7, 2, 1, 7, 0xac, 1, 7] = ([[1, 7], [2, 1, 7], [0xac], [1, 7]], [])"
    by (simp add: chunks.simps GetOp2_def push_size_def)
  with FindAndDelete_spec [OF 1, of "[1, 7, 2, 1, 7, 0xac, 1, 7]"] 1 2 show ?thesis by simp
qed

end
