(* ===== verification/SigHash.thy ===== *)
theory SigHash
  imports Interpreter Transaction Script_Props
begin

unbundle bit_operations_syntax

text \<open>
  Signature hashes and the transaction signature checker of \<^verbatim>\<open>src/script/interpreter.cpp\<close>:
  \<open>CTransactionSignatureSerializer\<close>, \<open>SignatureHash\<close> with its cache, and the class
  \<open>TransactionSignatureChecker\<close>.  \<open>CPubKey::Verify\<close>, which calls libsecp256k1, is a parameter of the
  checker.

  The serializer writes the bytes of a transaction that is never built.  \<open>SignatureHashOld\<close> (the
  reference the repository keeps in \<^verbatim>\<open>src/test/sighash_tests.cpp\<close>) builds it; the two are shown equal.
\<close>

section \<open>The legacy serializer\<close>

record sig_serializer =
  ss_txTo :: CTransaction
  ss_scriptCode :: CScript
  ss_nIn :: nat
  ss_fAnyoneCanPay :: bool
  ss_fHashSingle :: bool
  ss_fHashNone :: bool

definition CTransactionSignatureSerializer :: "CTransaction \<Rightarrow> CScript \<Rightarrow> nat \<Rightarrow> 32 word \<Rightarrow> sig_serializer" where
  "CTransactionSignatureSerializer txToIn scriptCodeIn nInIn nHashTypeIn =
     \<lparr>ss_txTo = txToIn, ss_scriptCode = scriptCodeIn, ss_nIn = nInIn,
      ss_fAnyoneCanPay = (nHashTypeIn AND SIGHASH_ANYONECANPAY \<noteq> 0),
      ss_fHashSingle = (nHashTypeIn AND 0x1f = SIGHASH_SINGLE),
      ss_fHashNone = (nHashTypeIn AND 0x1f = SIGHASH_NONE)\<rparr>"

text \<open>
  The two loops of \<open>SerializeScriptCode\<close>.  The second one holds both iterators; where \<open>GetOp\<close> fails the
  bytes from \<open>itBegin\<close> up to where the failed call left \<open>it\<close> are written.
\<close>

function count_separators :: "CScript \<Rightarrow> nat" where
  "count_separators it =
     (case GetOp2 it of (ok, it', opcode, _) \<Rightarrow>
        if ok then (if opcode = OP_CODESEPARATOR then 1 else 0) + count_separators it' else 0)"
  by pat_completeness auto
termination
  by (relation "measure length") (auto dest!: GetOp2_shorter [OF sym])

function write_code :: "CScript \<Rightarrow> CScript \<Rightarrow> byte list" where
  "write_code itBegin it =
     (case GetOp2 it of (ok, it', opcode, _) \<Rightarrow>
        if ok then
          (if opcode = OP_CODESEPARATOR then take (length itBegin - length it' - 1) itBegin @ write_code it' it'
           else write_code itBegin it')
        else if itBegin \<noteq> [] then take (length itBegin - length it') itBegin
        else [])"
  by pat_completeness auto
termination
  by (relation "measure (\<lambda>(b, it). length it)") (auto dest!: GetOp2_shorter [OF sym])

declare count_separators.simps [simp del] write_code.simps [simp del]

definition SerializeScriptCode :: "sig_serializer \<Rightarrow> byte list" where
  "SerializeScriptCode S =
     WriteCompactSize (of_nat (length (ss_scriptCode S) - count_separators (ss_scriptCode S))) @
     write_code (ss_scriptCode S) (ss_scriptCode S)"

definition SerializeInput :: "sig_serializer \<Rightarrow> nat \<Rightarrow> byte list" where
  "SerializeInput S nInput0 =
     (let nInput = (if ss_fAnyoneCanPay S then ss_nIn S else nInput0);
          txin = vin (ss_txTo S) ! nInput in
      ser_COutPoint (prevout txin) @
      (if nInput \<noteq> ss_nIn S then ser_bytes [] else SerializeScriptCode S) @
      (if nInput \<noteq> ss_nIn S \<and> (ss_fHashSingle S \<or> ss_fHashNone S) then ser_writedata32 0
       else ser_writedata32 (nSequence txin)))"

definition SerializeOutput :: "sig_serializer \<Rightarrow> nat \<Rightarrow> byte list" where
  "SerializeOutput S nOutput =
     (if ss_fHashSingle S \<and> nOutput \<noteq> ss_nIn S then ser_CTxOut CTxOut_null
      else ser_CTxOut (vout (ss_txTo S) ! nOutput))"

definition Serialize_sig :: "sig_serializer \<Rightarrow> byte list" where
  "Serialize_sig S =
     (let tx = ss_txTo S;
          nInputs = (if ss_fAnyoneCanPay S then 1 else length (vin tx));
          nOutputs = (if ss_fHashNone S then 0 else if ss_fHashSingle S then ss_nIn S + 1 else length (vout tx)) in
      ser_writedata32 (nVersion tx) @
      WriteCompactSize (of_nat nInputs) @ concat (map (SerializeInput S) [0..<nInputs]) @
      WriteCompactSize (of_nat nOutputs) @ concat (map (SerializeOutput S) [0..<nOutputs]) @
      ser_writedata32 (nLockTime tx))"

section \<open>The hashes of version 0 witness programs\<close>

definition GetPrevoutHash :: "CTransaction \<Rightarrow> uint256" where
  "GetPrevoutHash txTo = CHashWriter_GetHash (map (\<lambda>txin. ser_COutPoint (prevout txin)) (vin txTo))"

definition GetSequenceHash :: "CTransaction \<Rightarrow> uint256" where
  "GetSequenceHash txTo = CHashWriter_GetHash (map (\<lambda>txin. ser_writedata32 (nSequence txin)) (vin txTo))"

definition GetOutputsHash :: "CTransaction \<Rightarrow> uint256" where
  "GetOutputsHash txTo = CHashWriter_GetHash (map ser_CTxOut (vout txTo))"

record PrecomputedTransactionData =
  hashPrevouts :: uint256
  hashSequence :: uint256
  hashOutputs :: uint256
  ready :: bool

definition PrecomputedTransactionData_new :: "CTransaction \<Rightarrow> PrecomputedTransactionData" where
  "PrecomputedTransactionData_new txTo =
     (if HasWitness txTo
      then \<lparr>hashPrevouts = GetPrevoutHash txTo, hashSequence = GetSequenceHash txTo,
            hashOutputs = GetOutputsHash txTo, ready = True\<rparr>
      else \<lparr>hashPrevouts = 0, hashSequence = 0, hashOutputs = 0, ready = False\<rparr>)"

text \<open>The hash is \<open>None\<close> where the assertion on \<open>nIn\<close> fails.\<close>

definition SignatureHash_witness ::
  "CScript \<Rightarrow> CTransaction \<Rightarrow> nat \<Rightarrow> 32 word \<Rightarrow> CAmount \<Rightarrow> PrecomputedTransactionData option \<Rightarrow> uint256" where
  "SignatureHash_witness scriptCode txTo nIn nHashType amount cache =
     (let base = nHashType AND 0x1f;
          anyone = (nHashType AND SIGHASH_ANYONECANPAY \<noteq> 0);
          cached = (case cache of Some c \<Rightarrow> if ready c then Some c else None | None \<Rightarrow> None);
          prevouts = (if \<not> anyone then
              (case cached of Some c \<Rightarrow> hashPrevouts c | None \<Rightarrow> GetPrevoutHash txTo) else 0);
          sequence = (if \<not> anyone \<and> base \<noteq> SIGHASH_SINGLE \<and> base \<noteq> SIGHASH_NONE then
              (case cached of Some c \<Rightarrow> hashSequence c | None \<Rightarrow> GetSequenceHash txTo) else 0);
          outputs = (if base \<noteq> SIGHASH_SINGLE \<and> base \<noteq> SIGHASH_NONE then
              (case cached of Some c \<Rightarrow> hashOutputs c | None \<Rightarrow> GetOutputsHash txTo)
            else if base = SIGHASH_SINGLE \<and> nIn < length (vout txTo) then
              CHashWriter_GetHash [ser_CTxOut (vout txTo ! nIn)]
            else 0) in
      CHashWriter_GetHash
        [ser_writedata32 (nVersion txTo), ser_uint256 prevouts, ser_uint256 sequence,
         ser_COutPoint (prevout (vin txTo ! nIn)), ser_bytes scriptCode, ser_amount amount,
         ser_writedata32 (nSequence (vin txTo ! nIn)), ser_uint256 outputs,
         ser_writedata32 (nLockTime txTo), ser_writedata32 nHashType])"

definition SignatureHash ::
  "CScript \<Rightarrow> CTransaction \<Rightarrow> nat \<Rightarrow> 32 word \<Rightarrow> CAmount \<Rightarrow> SigVersion \<Rightarrow> PrecomputedTransactionData option \<Rightarrow> uint256 option" where
  "SignatureHash scriptCode txTo nIn nHashType amount sv cache =
     (if \<not> nIn < length (vin txTo) then None
      else if sv = SIGVERSION_WITNESS_V0 then
        Some (SignatureHash_witness scriptCode txTo nIn nHashType amount cache)
      else if nHashType AND 0x1f = SIGHASH_SINGLE \<and> nIn \<ge> length (vout txTo) then Some 1
      else Some (CHashWriter_GetHash
        [Serialize_sig (CTransactionSignatureSerializer txTo scriptCode nIn nHashType), ser_writedata32 nHashType]))"

section \<open>The checker\<close>

text \<open>\<open>CPubKey\<close> keeps its bytes only where their number fits the first of them.\<close>

definition GetLen :: "byte \<Rightarrow> nat" where
  "GetLen chHeader =
     (if chHeader = 2 \<or> chHeader = 3 then 33
      else if chHeader = 4 \<or> chHeader = 6 \<or> chHeader = 7 then 65
      else 0)"

definition CPubKey :: "valtype \<Rightarrow> valtype option" where
  "CPubKey vch =
     (let len = (if vch = [] then 0 else GetLen (hd vch))
      in if len \<noteq> 0 \<and> len = length vch then Some vch else None)"

record tx_checker =
  ck_txTo :: CTransaction
  ck_nIn :: nat
  ck_amount :: CAmount
  ck_txdata :: "PrecomputedTransactionData option"
  ck_Verify :: "valtype \<Rightarrow> uint256 \<Rightarrow> valtype \<Rightarrow> bool"

definition tx_CheckSig :: "tx_checker \<Rightarrow> valtype \<Rightarrow> valtype \<Rightarrow> CScript \<Rightarrow> SigVersion \<Rightarrow> bool" where
  "tx_CheckSig C vchSigIn vchPubKey scriptCode sv =
     (case CPubKey vchPubKey of
        None \<Rightarrow> False
      | Some pubkey \<Rightarrow>
          if vchSigIn = [] then False
          else (case SignatureHash scriptCode (ck_txTo C) (ck_nIn C) (ucast (last vchSigIn)) (ck_amount C) sv (ck_txdata C) of
                  None \<Rightarrow> False
                | Some sighash \<Rightarrow> ck_Verify C pubkey sighash (butlast vchSigIn)))"

definition tx_CheckLockTime :: "tx_checker \<Rightarrow> int \<Rightarrow> bool" where
  "tx_CheckLockTime C n =
     (let lock = uint (nLockTime (ck_txTo C)) in
      if \<not> ((lock < LOCKTIME_THRESHOLD \<and> n < LOCKTIME_THRESHOLD) \<or> (lock \<ge> LOCKTIME_THRESHOLD \<and> n \<ge> LOCKTIME_THRESHOLD))
      then False
      else if n > lock then False
      else if SEQUENCE_FINAL = nSequence (vin (ck_txTo C) ! ck_nIn C) then False
      else True)"

definition tx_CheckSequence :: "tx_checker \<Rightarrow> int \<Rightarrow> bool" where
  "tx_CheckSequence C n =
     (let txToSequence = uint (nSequence (vin (ck_txTo C) ! ck_nIn C));
          type_flag = uint SEQUENCE_LOCKTIME_TYPE_FLAG;
          nLockTimeMask = uint (SEQUENCE_LOCKTIME_TYPE_FLAG OR SEQUENCE_LOCKTIME_MASK);
          txToSequenceMasked = txToSequence AND nLockTimeMask;
          nSequenceMasked = n AND nLockTimeMask in
      if nVersion (ck_txTo C) < 2 then False
      else if txToSequence AND uint SEQUENCE_LOCKTIME_DISABLE_FLAG \<noteq> 0 then False
      else if \<not> ((txToSequenceMasked < type_flag \<and> nSequenceMasked < type_flag) \<or>
                 (txToSequenceMasked \<ge> type_flag \<and> nSequenceMasked \<ge> type_flag)) then False
      else if nSequenceMasked > txToSequenceMasked then False
      else True)"

definition TransactionSignatureChecker :: "tx_checker \<Rightarrow> sig_checker" where
  "TransactionSignatureChecker C =
     \<lparr>CheckSig = tx_CheckSig C, CheckLockTime = tx_CheckLockTime C, CheckSequence = tx_CheckSequence C\<rparr>"

section \<open>The reference implementation\<close>

text \<open>\<open>SignatureHashOld\<close>: edit a copy of the transaction, then serialize it.\<close>

definition old_inputs :: "CTxIn list \<Rightarrow> CScript \<Rightarrow> nat \<Rightarrow> CTxIn list" where
  "old_inputs ins scriptCode nIn =
     (let blank = map (\<lambda>i. i\<lparr>scriptSig := []\<rparr>) ins
      in blank[nIn := (blank ! nIn)\<lparr>scriptSig := fst (FindAndDelete scriptCode (push_opcode OP_CODESEPARATOR))\<rparr>])"

definition zero_sequences :: "CTxIn list \<Rightarrow> nat \<Rightarrow> CTxIn list" where
  "zero_sequences ins nIn = map (\<lambda>i. if i \<noteq> nIn then (ins ! i)\<lparr>nSequence := 0\<rparr> else ins ! i) [0..<length ins]"

definition SignatureHashOld :: "CScript \<Rightarrow> CTransaction \<Rightarrow> nat \<Rightarrow> 32 word \<Rightarrow> uint256" where
  "SignatureHashOld scriptCode txTo nIn nHashType =
     (if nIn \<ge> length (vin txTo) then 1
      else let txTmp = txTo\<lparr>vin := old_inputs (vin txTo) scriptCode nIn\<rparr> in
      if nHashType AND 0x1f = SIGHASH_SINGLE \<and> nIn \<ge> length (vout txTmp) then 1
      else let txTmp =
          (if nHashType AND 0x1f = SIGHASH_NONE then
             txTmp\<lparr>vout := [], vin := zero_sequences (vin txTmp) nIn\<rparr>
           else if nHashType AND 0x1f = SIGHASH_SINGLE then
             txTmp\<lparr>vout := map (\<lambda>_. CTxOut_null) (take nIn (vout txTmp)) @ [vout txTmp ! nIn], vin := zero_sequences (vin txTmp) nIn\<rparr>
           else txTmp);
        txTmp = (if nHashType AND SIGHASH_ANYONECANPAY \<noteq> 0 then txTmp\<lparr>vin := [vin txTmp ! nIn]\<rparr> else txTmp) in
      CHashWriter_GetHash [SerializeTransaction False txTmp, ser_writedata32 nHashType])"

section \<open>The serializer writes the edited transaction\<close>

abbreviation separator :: CScript where
  "separator \<equiv> push_opcode OP_CODESEPARATOR"

lemma one_instruction_separator: "one_instruction separator"
  by (simp add: one_instruction_def push_opcode_def GetOp2_def)

lemma chunk_separator:
  assumes "GetOp2 pc = (True, pc', opcode, d)"
  shows "take (length pc - length pc') pc = separator \<longleftrightarrow> opcode = OP_CODESEPARATOR"
proof -
  obtain c p where p: "pc = c # p @ pc'" using GetOp2_suffix [OF assms] GetOp2_shorter [OF assms]
    by (auto simp: suffix_def) (metis append_Cons append_self_conv2 list.exhaust less_irrefl)
  have 1: "opcode = unat c" using assms by (auto simp: p GetOp2_def Let_def split: if_splits option.splits)
  have 2: "opcode = OP_CODESEPARATOR \<Longrightarrow> p = []" using assms by (auto simp: p GetOp2_def Let_def 1)
  have 3: "c = of_nat OP_CODESEPARATOR \<longleftrightarrow> unat c = OP_CODESEPARATOR" by (auto simp: word_unat_eq_iff)
  show ?thesis using 1 2 3 by (auto simp: p push_opcode_def)
qed

lemma count_separators_eq: "count_separators pc = count_list (fst (chunks pc)) separator"
proof (induction pc rule: count_separators.induct)
  case (1 pc)
  obtain ok pc' opcode d where g: "GetOp2 pc = (ok, pc', opcode, d)" by (cases "GetOp2 pc") auto
  show ?case
  proof (cases ok)
    case True
    note g' = g [unfolded eqTrueI [OF True]]
    have "count_separators pc' = count_list (fst (chunks pc')) separator" using 1 g True by auto
    then show ?thesis using chunk_separator [OF g'] by (simp add: count_separators.simps [of pc] g' chunks_step(1) [OF g'])
  next
    case False
    then show ?thesis using g by (simp add: count_separators.simps [of pc] chunks_step(2))
  qed
qed

lemma write_code_eq:
  "snd (chunks it) = [] \<Longrightarrow> write_code (p @ it) it = p @ concat (filter (\<lambda>c. c \<noteq> separator) (fst (chunks it)))"
proof (induction "length it" arbitrary: p it rule: less_induct)
  case less
  obtain ok it' opcode d where g: "GetOp2 it = (ok, it', opcode, d)" by (cases "GetOp2 it") auto
  show ?case
  proof (cases ok)
    case True
    note g' = g [unfolded eqTrueI [OF True]]
    obtain q where q: "it = q @ it'" using GetOp2_suffix [OF g] by (auto simp: suffix_def)
    have t: "snd (chunks it') = []" using less.prems by (simp add: chunks_step(1) [OF g'])
    have c: "chunks it = (q # fst (chunks it'), [])" using chunks_step(1) [OF g'] t q by simp
    show ?thesis
    proof (cases "opcode = OP_CODESEPARATOR")
      case sep: True
      then have "q = separator" using chunk_separator [OF g'] by (simp add: q)
      moreover have "write_code it' it' = concat (filter (\<lambda>c. c \<noteq> separator) (fst (chunks it')))"
        using less.hyps [OF GetOp2_shorter [OF g'], of "[]"] t by simp
      ultimately show ?thesis using sep by (subst write_code.simps) (simp add: g' c, simp add: q push_opcode_def)
    next
      case sep: False
      then have "q \<noteq> separator" using chunk_separator [OF g'] by (simp add: q)
      moreover have "write_code (p @ it) it' = (p @ q) @ concat (filter (\<lambda>c. c \<noteq> separator) (fst (chunks it')))"
        using less.hyps [OF GetOp2_shorter [OF g'], of "p @ q"] t q by simp
      ultimately show ?thesis using sep by (subst write_code.simps) (simp add: g' c)
    qed
  next
    case False
    with g chunks_step(2) [of it] less.prems have "it = []" by simp
    then show ?thesis by (subst write_code.simps) (simp add: GetOp2_def chunks.simps)
  qed
qed

lemma length_filter_concat:
  "length (concat (filter (\<lambda>c. c \<noteq> [b]) cs)) = length (concat cs) - count_list cs [b]"
  "count_list cs [b] \<le> length (concat cs)"
proof (induction cs)
  case (Cons c cs)
  { case 1 show ?case using Cons by auto }
  { case 2 show ?case using Cons by auto }
qed simp_all

lemma SerializeScriptCode_eq:
  assumes "snd (chunks (ss_scriptCode S)) = []"
  shows "SerializeScriptCode S = ser_bytes (fst (FindAndDelete (ss_scriptCode S) separator))"
proof -
  let ?c = "ss_scriptCode S"
  have "concat (fst (chunks ?c)) = ?c" using chunks_append [of ?c] assms by simp
  then have "length (concat (filter (\<lambda>c. c \<noteq> separator) (fst (chunks ?c)))) = length ?c - count_separators ?c"
    unfolding count_separators_eq push_opcode_def by (simp only: length_filter_concat)
  with write_code_eq [OF assms, of "[]"] show ?thesis
    by (simp add: SerializeScriptCode_def ser_bytes_def FindAndDelete_eq [OF one_instruction_separator] assms)
qed

lemma old_inputs_nth:
  "i < length ins \<Longrightarrow> old_inputs ins code n ! i =
     (ins ! i)\<lparr>scriptSig := if i = n then fst (FindAndDelete code separator) else []\<rparr>"
  by (simp add: old_inputs_def Let_def nth_list_update)

lemma length_old [simp]: "length (old_inputs ins code n) = length ins" "length (zero_sequences ins n) = length ins"
  by (simp_all add: old_inputs_def zero_sequences_def Let_def)

lemma zero_sequences_nth:
  "i < length ins \<Longrightarrow> zero_sequences ins n ! i = (if i \<noteq> n then (ins ! i)\<lparr>nSequence := 0\<rparr> else ins ! i)"
  by (simp add: zero_sequences_def)

text \<open>One input of the serializer is the serialization of the edited input.\<close>

definition edited_inputs :: "CTransaction \<Rightarrow> CScript \<Rightarrow> nat \<Rightarrow> 32 word \<Rightarrow> CTxIn list" where
  "edited_inputs tx code n ht =
     (let ins = old_inputs (vin tx) code n in
      if ht AND 0x1f = SIGHASH_NONE \<or> ht AND 0x1f = SIGHASH_SINGLE then zero_sequences ins n else ins)"

lemma SerializeInput_eq:
  assumes "snd (chunks code) = []" "i < length (vin tx)" "n < length (vin tx)"
    "S = CTransactionSignatureSerializer tx code n ht"
  shows "SerializeInput S i = ser_CTxIn (edited_inputs tx code n ht ! (if ht AND SIGHASH_ANYONECANPAY \<noteq> 0 then n else i))"
proof -
  have "SerializeScriptCode S = ser_bytes (fst (FindAndDelete code separator))"
    using SerializeScriptCode_eq [of S] assms(1,4) by (simp add: CTransactionSignatureSerializer_def)
  then show ?thesis using assms(2,3)
    by (auto simp: assms(4) SerializeInput_def edited_inputs_def Let_def CTransactionSignatureSerializer_def
        ser_CTxIn_def old_inputs_nth zero_sequences_nth)
qed

definition edited_outputs :: "CTransaction \<Rightarrow> nat \<Rightarrow> 32 word \<Rightarrow> CTxOut list" where
  "edited_outputs tx n ht =
     (if ht AND 0x1f = SIGHASH_NONE then []
      else if ht AND 0x1f = SIGHASH_SINGLE then map (\<lambda>_. CTxOut_null) (take n (vout tx)) @ [vout tx ! n]
      else vout tx)"

lemma SerializeOutput_eq:
  assumes "ht AND 0x1f \<noteq> SIGHASH_NONE" "ht AND 0x1f = SIGHASH_SINGLE \<Longrightarrow> n < length (vout tx)"
    "S = CTransactionSignatureSerializer tx code n ht" "i < length (edited_outputs tx n ht)"
  shows "SerializeOutput S i = ser_CTxOut (edited_outputs tx n ht ! i)"
  using assms by (auto simp: SerializeOutput_def edited_outputs_def CTransactionSignatureSerializer_def nth_append)

lemma map_upt_eq: "n = length xs \<Longrightarrow> (\<And>i. i < length xs \<Longrightarrow> f i = g (xs ! i)) \<Longrightarrow> map f [0..<n] = map g xs"
  by (rule nth_equalityI) simp_all

lemma Serialize_sig_eq:
  assumes "snd (chunks code) = []" "n < length (vin tx)" "ht AND 0x1f = SIGHASH_SINGLE \<Longrightarrow> n < length (vout tx)"
  shows "Serialize_sig (CTransactionSignatureSerializer tx code n ht) =
    SerializeTransaction False (tx\<lparr>vin := if ht AND SIGHASH_ANYONECANPAY \<noteq> 0 then [edited_inputs tx code n ht ! n]
      else edited_inputs tx code n ht, vout := edited_outputs tx n ht\<rparr>)"
proof -
  let ?S = "CTransactionSignatureSerializer tx code n ht"
  let ?ins = "if ht AND SIGHASH_ANYONECANPAY \<noteq> 0 then [edited_inputs tx code n ht ! n] else edited_inputs tx code n ht"
  let ?outs = "edited_outputs tx n ht"
  have li: "length (edited_inputs tx code n ht) = length (vin tx)" by (simp add: edited_inputs_def Let_def)
  have fs: "ss_txTo ?S = tx" "ss_nIn ?S = n" "ss_fAnyoneCanPay ?S = (ht AND SIGHASH_ANYONECANPAY \<noteq> 0)"
    "ss_fHashSingle ?S = (ht AND 0x1f = SIGHASH_SINGLE)" "ss_fHashNone ?S = (ht AND 0x1f = SIGHASH_NONE)"
    by (simp_all add: CTransactionSignatureSerializer_def)
  have i: "map (SerializeInput ?S) [0..<length ?ins] = map ser_CTxIn ?ins"
  proof (rule map_upt_eq)
    fix i assume "i < length ?ins"
    then have "i < length (vin tx)" using assms(2) li by (auto split: if_splits)
    from SerializeInput_eq [OF assms(1) this assms(2) refl] \<open>i < length ?ins\<close>
    show "SerializeInput ?S i = ser_CTxIn (?ins ! i)" by (auto split: if_splits)
  qed simp
  have o: "map (SerializeOutput ?S) [0..<length ?outs] = map ser_CTxOut ?outs"
    by (rule map_upt_eq) (use SerializeOutput_eq [OF _ assms(3) refl] in \<open>auto simp: edited_outputs_def split: if_splits\<close>)
  have n: "(if ht AND SIGHASH_ANYONECANPAY \<noteq> 0 then 1 else length (vin tx)) = length ?ins" by (simp add: li)
  have m: "(if ht AND 0x1f = SIGHASH_NONE then 0 else if ht AND 0x1f = SIGHASH_SINGLE then n + 1 else length (vout tx)) = length ?outs"
    using assms(3) by (auto simp: edited_outputs_def)
  show ?thesis
    unfolding Serialize_sig_def Let_def fs n m i o by (simp add: Serialize_legacy ser_vector_def)
qed

lemma SIGHASH_distinct: "SIGHASH_NONE \<noteq> SIGHASH_SINGLE"
  by (simp add: SIGHASH_NONE_def SIGHASH_SINGLE_def)

text \<open>
  C3. The streaming signature hash equals the original one: for every transaction, input index in range,
  hash type and script code that parses, \<open>SignatureHash\<close>, which writes the bytes of the edited
  transaction without building it, returns the value of \<open>SignatureHashOld\<close>, which blanks the scripts,
  sequences, inputs and outputs of a copy.
\<close>

theorem SignatureHash_eq_old:
  assumes "nIn < length (vin tx)" "snd (chunks code) = []"
  shows "SignatureHash code tx nIn nHashType amt SIGVERSION_BASE cache = Some (SignatureHashOld code tx nIn nHashType)"
proof (cases "nHashType AND 0x1f = SIGHASH_SINGLE \<and> length (vout tx) \<le> nIn")
  case True
  with assms show ?thesis by (auto simp: SignatureHash_def SignatureHashOld_def Let_def)
next
  case False
  let ?i = "edited_inputs tx code nIn nHashType"
  let ?tx = "tx\<lparr>vin := if nHashType AND SIGHASH_ANYONECANPAY \<noteq> 0 then [?i ! nIn] else ?i, vout := edited_outputs tx nIn nHashType\<rparr>"
  have "SignatureHashOld code tx nIn nHashType = CHashWriter_GetHash [SerializeTransaction False ?tx, ser_writedata32 nHashType]"
    using assms(1) False SIGHASH_distinct
    by (cases tx) (auto simp: SignatureHashOld_def Let_def edited_inputs_def edited_outputs_def)
  moreover have "Serialize_sig (CTransactionSignatureSerializer tx code nIn nHashType) = SerializeTransaction False ?tx"
    using assms False by (intro Serialize_sig_eq) auto
  ultimately show ?thesis using assms(1) False by (auto simp: SignatureHash_def)
qed

theorem SignatureHash_eq_old_witness:
  "let tx = \<lparr>vin = [\<lparr>prevout = COutPoint_null, scriptSig = [0x51], nSequence = 7, scriptWitness = []\<rparr>],
      vout = [], nVersion = 2, nLockTime = 9\<rparr>
   in SignatureHash [0xac, 0xab] tx 0 SIGHASH_ALL 0 SIGVERSION_BASE None = Some (SignatureHashOld [0xac, 0xab] tx 0 SIGHASH_ALL)"
proof -
  let ?tx = "\<lparr>vin = [\<lparr>prevout = COutPoint_null, scriptSig = [0x51], nSequence = 7, scriptWitness = []\<rparr>],
      vout = [], nVersion = 2, nLockTime = 9\<rparr>"
  have "0 < length (vin ?tx)" by simp
  moreover have "snd (chunks [0xac, 0xab]) = []" by (simp add: chunks.simps GetOp2_def)
  ultimately show ?thesis using SignatureHash_eq_old [of 0 ?tx "[0xac, 0xab]"] by simp
qed

section \<open>The cache\<close>

text \<open>
  The precomputed data never changes a hash: \<open>SignatureHash\<close> with the cache of the same transaction returns
  what it returns without a cache, for every script code, hash type, amount and signature version.
\<close>

theorem SignatureHash_cache:
  "SignatureHash code tx nIn nHashType amt sv (Some (PrecomputedTransactionData_new tx)) =
     SignatureHash code tx nIn nHashType amt sv None"
  by (simp add: SignatureHash_def SignatureHash_witness_def PrecomputedTransactionData_new_def Let_def)

section \<open>What a signature does not commit to\<close>

lemma Serialize_sig_anyonecanpay:
  assumes "ht AND SIGHASH_ANYONECANPAY \<noteq> 0" "ht AND 0x1f \<noteq> SIGHASH_SINGLE"
    "prevout (vin tx ! n) = prevout (vin tx' ! n')" "nSequence (vin tx ! n) = nSequence (vin tx' ! n')"
    "vout tx = vout tx' \<or> ht AND 0x1f = SIGHASH_NONE" "nVersion tx = nVersion tx'" "nLockTime tx = nLockTime tx'"
  shows "Serialize_sig (CTransactionSignatureSerializer tx code n ht) =
    Serialize_sig (CTransactionSignatureSerializer tx' code n' ht)"
proof -
  let ?S = "CTransactionSignatureSerializer tx code n ht" and ?S' = "CTransactionSignatureSerializer tx' code n' ht"
  have "SerializeScriptCode ?S = SerializeScriptCode ?S'"
    by (simp add: SerializeScriptCode_def CTransactionSignatureSerializer_def)
  then have i: "SerializeInput ?S = SerializeInput ?S'"
    using assms by (auto simp: fun_eq_iff SerializeInput_def CTransactionSignatureSerializer_def Let_def)
  have "vout tx = vout tx' \<Longrightarrow> SerializeOutput ?S = SerializeOutput ?S'"
    using assms(2) by (auto simp: fun_eq_iff SerializeOutput_def CTransactionSignatureSerializer_def)
  with i show ?thesis using assms by (auto simp: Serialize_sig_def Let_def CTransactionSignatureSerializer_def)
qed

lemma SignatureHash_witness_anyonecanpay:
  assumes "ht AND SIGHASH_ANYONECANPAY \<noteq> 0" "ht AND 0x1f \<noteq> SIGHASH_SINGLE"
    "prevout (vin tx ! n) = prevout (vin tx' ! n')" "nSequence (vin tx ! n) = nSequence (vin tx' ! n')"
    "vout tx = vout tx' \<or> ht AND 0x1f = SIGHASH_NONE" "nVersion tx = nVersion tx'" "nLockTime tx = nLockTime tx'"
  shows "SignatureHash_witness code tx n ht amt None = SignatureHash_witness code tx' n' ht amt None"
  using assms by (auto simp: SignatureHash_witness_def GetOutputsHash_def Let_def)



section \<open>What a signature commits to\<close>

lemma FindAndDelete_shorter:
  assumes "one_instruction b"
  shows "length (fst (FindAndDelete s b)) \<le> length s"
proof -
  have "length (concat (filter P cs)) \<le> length (concat cs)" for P and cs :: "byte list list" by (induction cs) auto
  then show ?thesis using arg_cong [OF chunks_append [of s], of length]
    by (simp add: FindAndDelete_eq [OF assms]) (metis add_le_mono1)
qed

definition edited_all :: "CTransaction \<Rightarrow> CScript \<Rightarrow> nat \<Rightarrow> CTransaction" where
  "edited_all tx code n = tx\<lparr>vin := old_inputs (vin tx) code n\<rparr>"

lemma edited_all_ok: "tx_ok tx \<Longrightarrow> length code \<le> MAX_SIZE \<Longrightarrow> tx_ok (edited_all tx code n)"
proof -
  assume a: "tx_ok tx" "length code \<le> MAX_SIZE"
  have "length (fst (FindAndDelete code separator)) \<le> MAX_SIZE"
    using FindAndDelete_shorter [OF one_instruction_separator, of code] a(2) by simp
  with a(1) show ?thesis
    by (auto simp: tx_ok_def edited_all_def vector_ok_def list_all_length old_inputs_nth)
qed

lemma edited_all_inject:
  assumes "strip_witness (edited_all tx code n) = strip_witness (edited_all tx' code' n')"
  shows "nVersion tx = nVersion tx' \<and> nLockTime tx = nLockTime tx' \<and> vout tx = vout tx' \<and>
    map prevout (vin tx) = map prevout (vin tx') \<and> map nSequence (vin tx) = map nSequence (vin tx')"
proof -
  have p: "map prevout (map no_witness (old_inputs is c m)) = map prevout is"
    "map nSequence (map no_witness (old_inputs is c m)) = map nSequence is" for "is" c m
    by (rule nth_equalityI; simp add: no_witness_def old_inputs_nth)+
  have "map no_witness (old_inputs (vin tx) code n) = map no_witness (old_inputs (vin tx') code' n')"
    "nVersion tx = nVersion tx'" "nLockTime tx = nLockTime tx'" "vout tx = vout tx'"
    using assms by (simp_all add: strip_witness_def edited_all_def) (cases tx; cases tx'; auto)+
  with p show ?thesis by metis
qed

lemma Serialize_sig_all:
  assumes "ht AND SIGHASH_ANYONECANPAY = 0" "ht AND 0x1f \<noteq> SIGHASH_SINGLE" "ht AND 0x1f \<noteq> SIGHASH_NONE"
    "n < length (vin tx)" "snd (chunks code) = []"
  shows "Serialize_sig (CTransactionSignatureSerializer tx code n ht) = SerializeTransaction False (edited_all tx code n)"
  using Serialize_sig_eq [OF assms(5,4), of ht] assms
  by (cases tx) (simp add: edited_all_def edited_inputs_def edited_outputs_def Let_def)

text \<open>
  C10. The message of an ordinary signature (all inputs, all outputs) determines what it signs: if the bytes hashed
  for two transactions agree, the transactions have the same version, lock time, outputs, outpoints
  and sequence numbers, and the hash types are equal.  Up to a collision of the hash function, a
  signature is therefore good for one transaction only, scripts and witnesses of its inputs aside.
\<close>

theorem sighash_all_commits:
  assumes "Serialize_sig (CTransactionSignatureSerializer tx code n ht) @ ser_writedata32 ht =
      Serialize_sig (CTransactionSignatureSerializer tx' code' n' ht') @ ser_writedata32 ht'"
    "ht AND SIGHASH_ANYONECANPAY = 0" "ht AND 0x1f \<noteq> SIGHASH_SINGLE" "ht AND 0x1f \<noteq> SIGHASH_NONE"
    "n < length (vin tx)" "n' < length (vin tx')" "snd (chunks code) = []" "snd (chunks code') = []"
    "tx_ok tx" "tx_ok tx'" "length code \<le> MAX_SIZE" "length code' \<le> MAX_SIZE"
  shows "ht = ht' \<and> nVersion tx = nVersion tx' \<and> nLockTime tx = nLockTime tx' \<and> vout tx = vout tx' \<and>
    map prevout (vin tx) = map prevout (vin tx') \<and> map nSequence (vin tx) = map nSequence (vin tx')"
proof -
  have l: "length (ser_writedata32 w) = 4" for w by (simp add: ser_writedata32_def WriteLE32_def)
  from assms(1) have e: "Serialize_sig (CTransactionSignatureSerializer tx code n ht) =
      Serialize_sig (CTransactionSignatureSerializer tx' code' n' ht')" "ser_writedata32 ht = ser_writedata32 ht'"
    by (simp_all add: append_eq_append_conv l)
  from u32.ser_inject e(2) have ht: "ht = ht'" by blast
  have "SerializeTransaction False (edited_all tx code n) @ [] = SerializeTransaction False (edited_all tx' code' n') @ []"
    using e(1) Serialize_sig_all [OF assms(2-5,7)] Serialize_sig_all [OF assms(2-4) [unfolded ht] assms(6,8)] by simp
  from ser_no_witness_inject [OF _ _ this] edited_all_ok assms(9-12)
  have "strip_witness (edited_all tx code n) = strip_witness (edited_all tx' code' n')" by blast
  from edited_all_inject [OF this] ht show ?thesis by simp
qed

theorem sighash_all_commits_witness:
  "let tx = \<lparr>vin = [\<lparr>prevout = COutPoint_null, scriptSig = [], nSequence = 7, scriptWitness = []\<rparr>],
      vout = [], nVersion = 2, nLockTime = 9\<rparr>
   in Serialize_sig (CTransactionSignatureSerializer tx [0xac] 0 1) @ ser_writedata32 1 \<noteq>
      Serialize_sig (CTransactionSignatureSerializer (tx\<lparr>nLockTime := 10\<rparr>) [0xac] 0 1) @ ser_writedata32 1"
proof -
  let ?tx = "\<lparr>vin = [\<lparr>prevout = COutPoint_null, scriptSig = [], nSequence = 7, scriptWitness = []\<rparr>],
      vout = [], nVersion = 2, nLockTime = 9\<rparr>"
  have "snd (chunks [0xac]) = []" by (simp add: chunks.simps GetOp2_def)
  moreover have "tx_ok ?tx" "tx_ok (?tx\<lparr>nLockTime := 10\<rparr>)" by (simp_all add: tx_ok_def vector_ok_def MAX_SIZE_def)
  ultimately show ?thesis
    using sighash_all_commits [of ?tx "[0xac]" 0 1 "?tx\<lparr>nLockTime := 10\<rparr>" "[0xac]" 0 1]
    by (auto simp: SIGHASH_ANYONECANPAY_def SIGHASH_SINGLE_def SIGHASH_NONE_def MAX_SIZE_def)
qed

end
