(* ===== verification/Interp_Limits.thy ===== *)
theory Interp_Limits
  imports Interpreter "HOL-Library.Sublist"
begin

text \<open>
  The resource limits of the interpreter as invariants of its loop.  \<open>eval_reach\<close> are the states at
  the head of the loop of \<open>EvalScript\<close> (\<^verbatim>\<open>src/script/interpreter.cpp\<close>); every one of them keeps the
  limits on stack depth, element size and operation count, and \<open>EvalScript\<close> returns exactly when
  a reachable state has read the whole script with balanced conditionals.

  \<open>parse_ops\<close> reads a script as its list of instructions; what a successful run says about that
  list, whichever branches were taken, is the static part of the limits.
\<close>

definition elems_ok :: "valtype list \<Rightarrow> bool" where
  "elems_ok xs \<longleftrightarrow> (\<forall>x\<in>set xs. length x \<le> MAX_SCRIPT_ELEMENT_SIZE)"

definition limits :: "estate \<Rightarrow> bool" where
  "limits st \<longleftrightarrow> elems_ok (stack st) \<and> elems_ok (altstack st) \<and> nOpCount st \<le> MAX_OPS_PER_SCRIPT"

lemma elems_ok_simps [simp]:
  "elems_ok []" "elems_ok (x # xs) \<longleftrightarrow> length x \<le> MAX_SCRIPT_ELEMENT_SIZE \<and> elems_ok xs"
  "elems_ok (xs @ ys) \<longleftrightarrow> elems_ok xs \<and> elems_ok ys"
  by (auto simp: elems_ok_def)

lemma elems_ok_take_drop: "elems_ok xs \<Longrightarrow> elems_ok (take n xs)" "elems_ok xs \<Longrightarrow> elems_ok (drop n xs)"
  "elems_ok xs \<Longrightarrow> i < length xs \<Longrightarrow> length (xs ! i) \<le> MAX_SCRIPT_ELEMENT_SIZE"
  by (auto simp: elems_ok_def dest: in_set_takeD in_set_dropD)

lemma length_scriptnum_le: "length (scriptnum_serialize v) \<le> MAX_SCRIPT_ELEMENT_SIZE"
proof -
  have "length (scriptnum_magnitude a) \<le> 8" for a
    by (rule length_magnitude) (use unsigned_less [of a, where 'a = nat] in simp)
  from this [of "of_int v"] this [of "- of_int v"] show ?thesis
    by (auto simp: scriptnum_serialize_def Let_def MAX_SCRIPT_ELEMENT_SIZE_def)
qed

lemma vchBool_ok: "length (vchBool b) \<le> MAX_SCRIPT_ELEMENT_SIZE"
  by (simp add: vchBool_def MAX_SCRIPT_ELEMENT_SIZE_def)

lemmas stack_op_defs = op_2DROP_def op_2DUP_def op_3DUP_def op_2OVER_def op_2ROT_def op_2SWAP_def op_IFDUP_def
  op_DEPTH_def op_DROP_def op_DUP_def op_NIP_def op_OVER_def op_ROT_def op_SWAP_def op_TUCK_def op_SIZE_def

lemma exec_stack_op_elems:
  assumes "exec_stack_op E opcode = Some f" "f stk = Inr r" "elems_ok stk"
  shows "elems_ok r"
proof -
  have "elems_ok r" if "op_PICK_ROLL E opcode stk = Inr r"
    using that assms(3) by (cases stk)
      (auto simp: op_PICK_ROLL_def err_simps Let_def elems_ok_take_drop split: if_splits)
  moreover have "elems_ok r" if "op_EQUAL opcode stk = Inr r"
    using that assms(3) by (auto simp: op_EQUAL_def Let_def vchBool_ok split: list.splits if_splits)
  moreover have "elems_ok r" if "op_unary E opcode stk = Inr r"
    using that assms(3) by (auto simp: op_unary_def err_simps length_scriptnum_le split: list.splits)
  moreover have "elems_ok r" if "op_binary E opcode stk = Inr r"
    using that assms(3) by (auto simp: op_binary_def err_simps Let_def length_scriptnum_le split: list.splits if_splits)
  moreover have "elems_ok r" if "op_WITHIN E stk = Inr r"
    using that assms(3) by (auto simp: op_WITHIN_def err_simps vchBool_ok split: list.splits)
  moreover have "elems_ok r" if "op_hash opcode stk = Inr r"
    using that assms(3) by (auto simp: op_hash_def MAX_SCRIPT_ELEMENT_SIZE_def split: list.splits if_splits)
  moreover have "elems_ok r" if "f \<in> {op_2DROP, op_2DUP, op_3DUP, op_2OVER, op_2ROT, op_2SWAP, op_IFDUP,
      op_DEPTH, op_DROP, op_DUP, op_NIP, op_OVER, op_ROT, op_SWAP, op_TUCK, op_SIZE}"
    using that assms(2,3) by (auto simp: stack_op_defs length_scriptnum_le split: list.splits if_splits)
  ultimately show ?thesis using assms(1,2) by (simp add: exec_stack_op_def split: if_splits)
qed

lemma op_CHECKSIG_limits:
  "op_CHECKSIG E opcode st = Inr st' \<Longrightarrow> limits st \<Longrightarrow> limits st'"
  by (auto simp: op_CHECKSIG_def err_simps Let_def limits_def vchBool_ok split: list.splits if_splits)

lemma multisig_cleanup_suffix: "multisig_cleanup E ok i k stk = Inr r \<Longrightarrow> r = drop i stk"
  by (induction i arbitrary: k stk) (auto split: list.splits if_splits)

lemma op_CHECKMULTISIG_Inr:
  assumes "op_CHECKMULTISIG E opcode st = Inr st'"
  obtains nKeys nSigs fSuccess where
    "nOpCount st + nKeys \<le> MAX_OPS_PER_SCRIPT" "nSigs \<le> nKeys" "nKeys \<le> MAX_PUBKEYS_PER_MULTISIG"
    "3 + nKeys + nSigs \<le> length (stack st)"
    "multisig_loop E (fold (drop_sig E) (take nSigs (drop (2 + nKeys) (stack st))) (pbegincodehash st))
       (take nSigs (drop (2 + nKeys) (stack st))) (take nKeys (drop 1 (stack st))) = Inr fSuccess"
    "multisig_finish E opcode fSuccess
       (st\<lparr>nOpCount := nOpCount st + nKeys, stack := drop (2 + nKeys + nSigs) (stack st)\<rparr>) = Inr st'"
  using assms unfolding op_CHECKMULTISIG_def Let_def
  apply (simp only: err_simps)
  apply (elim exE conjE)
  subgoal for bk bs ok stk
    by (rule that [of "nat (getint bk)" "nat (getint bs)" ok]) (auto dest!: multisig_cleanup_suffix simp del: multisig_cleanup.simps)
  done

lemma op_CHECKMULTISIG_limits:
  assumes "op_CHECKMULTISIG E opcode st = Inr st'" "limits st"
  shows "limits st'"
  using assms(1)
proof (rule op_CHECKMULTISIG_Inr)
  fix nKeys nSigs fSuccess
  assume "nOpCount st + nKeys \<le> MAX_OPS_PER_SCRIPT"
    "multisig_finish E opcode fSuccess
       (st\<lparr>nOpCount := nOpCount st + nKeys, stack := drop (2 + nKeys + nSigs) (stack st)\<rparr>) = Inr st'"
  with assms(2) elems_ok_take_drop(2) [of "stack st" "2 + nKeys + nSigs"] show ?thesis
    by (auto simp: multisig_finish_def limits_def vchBool_ok split: list.splits if_splits)
qed

lemma nop_ops_same:
  "op_CHECKLOCKTIMEVERIFY E st = Inr st' \<Longrightarrow> st' = st"
  "op_CHECKSEQUENCEVERIFY E st = Inr st' \<Longrightarrow> st' = st"
  "op_upgradable_nop E st = Inr st' \<Longrightarrow> st' = st"
  unfolding op_CHECKLOCKTIMEVERIFY_def op_CHECKSEQUENCEVERIFY_def op_upgradable_nop_def
  by (simp_all only: err_simps ebind_eq_Inr sum.inject split: if_splits list.splits; blast)+

lemma control_ops_limits:
  "op_IF E fExec opcode st = Inr st' \<Longrightarrow> limits st \<Longrightarrow> limits st'"
  "op_ELSE st = Inr st' \<Longrightarrow> limits st \<Longrightarrow> limits st'"
  "op_ENDIF st = Inr st' \<Longrightarrow> limits st \<Longrightarrow> limits st'"
  "op_VERIFY st = Inr st' \<Longrightarrow> limits st \<Longrightarrow> limits st'"
  "op_TOALTSTACK st = Inr st' \<Longrightarrow> limits st \<Longrightarrow> limits st'"
  "op_FROMALTSTACK st = Inr st' \<Longrightarrow> limits st \<Longrightarrow> limits st'"
  "op_push_number opcode st = Inr st' \<Longrightarrow> limits st \<Longrightarrow> limits st'"
  by (auto simp: op_IF_def op_ELSE_def op_ENDIF_def op_VERIFY_def op_TOALTSTACK_def op_push_number_def
      op_FROMALTSTACK_def limits_def Let_def length_scriptnum_le split: if_splits list.splits)

lemma on_stack_limits:
  "on_stack f st = Inr st' \<Longrightarrow> exec_stack_op E opcode = Some f \<Longrightarrow> limits st \<Longrightarrow> limits st'"
  using exec_stack_op_elems by (auto simp: on_stack_def err_simps limits_def)

text \<open>The ways the switch of \<open>EvalScript\<close> succeeds.\<close>

lemma exec_opcode_Inr:
  assumes "exec_opcode E fExec opcode pc st = Inr st'"
  shows "st' = st \<or> op_push_number opcode st = Inr st' \<or>
    OP_IF \<le> opcode \<and> opcode \<le> OP_ENDIF \<and>
      (op_IF E fExec opcode st = Inr st' \<or> op_ELSE st = Inr st' \<or> op_ENDIF st = Inr st') \<or>
    op_VERIFY st = Inr st' \<or> op_TOALTSTACK st = Inr st' \<or> op_FROMALTSTACK st = Inr st' \<or>
    opcode = OP_CODESEPARATOR \<and> st' = st\<lparr>pbegincodehash := pc\<rparr> \<or>
    op_CHECKSIG E opcode st = Inr st' \<or> op_CHECKMULTISIG E opcode st = Inr st' \<or>
    (\<exists>f. exec_stack_op E opcode = Some f \<and> on_stack f st = Inr st')"
  using assms nop_ops_same [of E st st'] unfolding exec_opcode_def
  by (simp split: if_splits option.splits) (erule disjE; simp)

lemma limits_codehash [simp]: "limits (st\<lparr>pbegincodehash := pc\<rparr>) \<longleftrightarrow> limits st"
  by (simp add: limits_def)

lemma exec_opcode_limits:
  assumes "exec_opcode E fExec opcode pc st = Inr st'" "limits st"
  shows "limits st'"
  using exec_opcode_Inr [OF assms(1)]
  by (elim disjE conjE exE)
    (use assms(2) in \<open>simp_all add: control_ops_limits op_CHECKSIG_limits op_CHECKMULTISIG_limits on_stack_limits\<close>)

lemma eval_step_limits:
  assumes "eval_step E pc st = Inr (pc', st')" "limits st"
  shows "limits st' \<and> length (stack st') + length (altstack st') \<le> MAX_STACK_SIZE"
proof -
  obtain ok r opcode d where g: "GetOp2 pc = (ok, r, opcode, d)" by (cases "GetOp2 pc") auto
  have "limits (count_op opcode st)" if "\<not> (opcode > OP_16 \<and> nOpCount (count_op opcode st) > MAX_OPS_PER_SCRIPT)"
    using that assms(2) by (auto simp: limits_def count_op_def split: if_splits)
  then show ?thesis
    using assms(1) exec_opcode_limits
    by (auto simp: eval_step_def g err_simps Let_def limits_def split: if_splits)
qed

section \<open>The states of a run\<close>

inductive eval_reach :: "script_env \<Rightarrow> CScript \<Rightarrow> valtype list \<Rightarrow> CScript \<Rightarrow> estate \<Rightarrow> bool"
  for E script stk where
  start: "length script \<le> MAX_SCRIPT_SIZE \<Longrightarrow> eval_reach E script stk script
     \<lparr>stack = stk, altstack = [], vfExec = [], nOpCount = 0, pbegincodehash = script\<rparr>"
| step: "eval_reach E script stk pc st \<Longrightarrow> pc \<noteq> [] \<Longrightarrow> eval_step E pc st = Inr (pc', st') \<Longrightarrow>
     eval_reach E script stk pc' st'"

lemma eval_loop_reach:
  "eval_reach E script stk pc st \<Longrightarrow> eval_loop E pc st = Inr st' \<Longrightarrow> eval_reach E script stk [] st'"
proof (induction E pc st rule: eval_loop.induct)
  case (1 E pc st)
  show ?case
  proof (cases "pc = []")
    case False
    with 1(3) obtain pc1 st1 where s: "eval_step E pc st = Inr (pc1, st1)" and l: "eval_loop E pc1 st1 = Inr st'"
      by (subst (asm) eval_loop.simps) (auto simp: err_simps)
    show ?thesis using 1(1) [OF False s refl _ l] eval_reach.step [OF 1(2) False s] by blast
  qed (use 1 eval_loop.simps [of E "[]" st] in auto)
qed

lemma reach_eval_loop:
  "eval_reach E script stk pc st \<Longrightarrow>
     eval_loop E script \<lparr>stack = stk, altstack = [], vfExec = [], nOpCount = 0, pbegincodehash = script\<rparr>
     = eval_loop E pc st"
  by (induction rule: eval_reach.induct) (auto simp: eval_loop.simps)

lemma eval_reach_small: "eval_reach E script stk pc st \<Longrightarrow> length script \<le> MAX_SCRIPT_SIZE"
  by (induction rule: eval_reach.induct)


lemma exec_opcode_codehash:
  assumes "exec_opcode E fExec opcode pc st = Inr st'"
  shows "pbegincodehash st' = pbegincodehash st \<or> pbegincodehash st' = pc"
proof -
  have 1: "op_IF E fExec opcode st = Inr st' \<Longrightarrow> ?thesis" "op_ELSE st = Inr st' \<Longrightarrow> ?thesis"
    "op_ENDIF st = Inr st' \<Longrightarrow> ?thesis" "op_VERIFY st = Inr st' \<Longrightarrow> ?thesis"
    "op_TOALTSTACK st = Inr st' \<Longrightarrow> ?thesis" "op_FROMALTSTACK st = Inr st' \<Longrightarrow> ?thesis"
    "op_push_number opcode st = Inr st' \<Longrightarrow> ?thesis"
    by (auto simp: op_IF_def op_ELSE_def op_ENDIF_def op_VERIFY_def op_TOALTSTACK_def op_push_number_def
        op_FROMALTSTACK_def Let_def split: if_splits list.splits)
  have 2: "on_stack f st = Inr st' \<Longrightarrow> ?thesis" for f by (auto simp: on_stack_def err_simps)
  have 3: "op_CHECKSIG E opcode st = Inr st' \<Longrightarrow> ?thesis"
    by (auto simp: op_CHECKSIG_def err_simps Let_def split: list.splits if_splits)
  have 4: "op_CHECKMULTISIG E opcode st = Inr st' \<Longrightarrow> ?thesis"
    by (erule op_CHECKMULTISIG_Inr) (auto simp: multisig_finish_def split: list.splits if_splits)
  show ?thesis
    using exec_opcode_Inr [OF assms] by (elim disjE conjE exE) (use 1 2 3 4 in simp_all)
qed

lemma eval_step_codehash:
  assumes "eval_step E pc st = Inr (pc', st')"
  shows "pbegincodehash st' = pbegincodehash st \<or> pbegincodehash st' = pc'"
proof -
  obtain ok r opcode d where g: "GetOp2 pc = (ok, r, opcode, d)" by (cases "GetOp2 pc") auto
  have "pbegincodehash (count_op opcode st) = pbegincodehash st" by (simp add: count_op_def)
  then show ?thesis using assms exec_opcode_codehash [of E _ opcode r "count_op opcode st"]
    by (auto simp: eval_step_def g err_simps Let_def split: if_splits)
qed

lemma eval_step_suffix: "eval_step E pc st = Inr (pc', st') \<Longrightarrow> suffix pc' pc"
  by (auto simp: eval_step_def err_simps Let_def split: prod.splits if_splits dest!: GetOp2_suffix)

text \<open>
  C5. The limits hold throughout a run: started on a stack within the limits, every state at the head
  of the loop has at most 1000 elements on the two stacks together, no element over 520
  bytes, and has counted at most 201 operations.  The iterator and \<open>pbegincodehash\<close>, the start
  of the code a signature commits to, are positions of the script itself.
\<close>

theorem eval_limits_invariant:
  assumes "eval_reach E script stk pc st" "elems_ok stk" "length stk \<le> MAX_STACK_SIZE"
  shows "elems_ok (stack st) \<and> elems_ok (altstack st) \<and> length (stack st) + length (altstack st) \<le> MAX_STACK_SIZE \<and>
    nOpCount st \<le> MAX_OPS_PER_SCRIPT \<and> suffix pc script \<and> suffix (pbegincodehash st) script"
proof -
  have "limits st \<and> length (stack st) + length (altstack st) \<le> MAX_STACK_SIZE \<and>
      suffix pc script \<and> suffix (pbegincodehash st) script"
    using assms(1)
  proof (induction rule: eval_reach.induct)
    case start
    then show ?case using assms(2,3) by (simp add: limits_def)
  next
    case (step pc st pc' st')
    then show ?case
      using eval_step_limits [OF step(3)] eval_step_codehash [OF step(3)] eval_step_suffix [OF step(3)]
      by (metis suffix_order.trans)
  qed
  then show ?thesis by (simp add: limits_def)
qed

theorem eval_limits_invariant_witness:
  "elems_ok [[2]] \<and> (\<exists>st. eval_reach (\<lparr>flags = {}, checker = BaseSignatureChecker, sigversion = SIGVERSION_BASE, CheckLowS = (\<lambda>_. False)\<rparr>) [0x6b] [[2]] [] st
     \<and> elems_ok (altstack st) \<and> suffix (pbegincodehash st) [0x6b])"
proof -
  let ?E = "\<lparr>flags = {}, checker = BaseSignatureChecker, sigversion = SIGVERSION_BASE, CheckLowS = (\<lambda>_. False)\<rparr>"
  let ?s0 = "\<lparr>stack = [[2]], altstack = [], vfExec = [], nOpCount = 0, pbegincodehash = [0x6b]\<rparr>"
  let ?s1 = "\<lparr>stack = [], altstack = [[2]], vfExec = [], nOpCount = 1, pbegincodehash = [0x6b]\<rparr>"
  have 1: "eval_step ?E [0x6b] ?s0 = Inr ([], ?s1)"
    by (simp add: eval_step_def GetOp2_def count_op_def disabled_opcode_def exec_opcode_def op_TOALTSTACK_def
        MAX_OPS_PER_SCRIPT_def MAX_STACK_SIZE_def MAX_SCRIPT_ELEMENT_SIZE_def)
  have 2: "eval_reach ?E [0x6b] [[2]] [] ?s1"
    by (rule eval_reach.step [OF eval_reach.start _ 1]) (simp_all add: MAX_SCRIPT_SIZE_def)
  have 3: "elems_ok [[2]]" "length [[2 :: byte]] \<le> MAX_STACK_SIZE"
    by (simp_all add: MAX_SCRIPT_ELEMENT_SIZE_def MAX_STACK_SIZE_def)
  show ?thesis using eval_limits_invariant [OF 2 3] 2 3 by blast
qed

section \<open>What a successful run says about the whole script\<close>

text \<open>The instructions of a script, \<open>None\<close> where \<open>GetOp\<close> fails before its end.\<close>

function parse_ops :: "CScript \<Rightarrow> (opcodetype \<times> valtype) list option" where
  "parse_ops pc =
     (if pc = [] then Some []
      else case GetOp2 pc of (ok, pc', opcode, d) \<Rightarrow>
        if ok then map_option (\<lambda>ops. (opcode, d) # ops) (parse_ops pc') else None)"
  by pat_completeness auto
termination
  by (relation "measure length") (auto dest!: GetOp2_shorter [OF sym])

declare parse_ops.simps [simp del]

text \<open>The nesting depth after a list of opcodes from depth \<open>d\<close>, \<open>None\<close> where one closes nothing.\<close>

fun cond_depth :: "nat \<Rightarrow> opcodetype list \<Rightarrow> nat option" where
  "cond_depth d [] = Some d"
| "cond_depth d (op # ops) =
     (if op = OP_IF \<or> op = OP_NOTIF then cond_depth (Suc d) ops
      else if op = OP_ELSE then (if d = 0 then None else cond_depth d ops)
      else if op = OP_ENDIF then (if d = 0 then None else cond_depth (d - 1) ops)
      else cond_depth d ops)"

lemma exec_opcode_control:
  assumes "OP_IF \<le> opcode" "opcode \<le> OP_ENDIF"
  shows "exec_opcode E fExec opcode pc st =
    (if opcode = OP_IF \<or> opcode = OP_NOTIF then op_IF E fExec opcode st
     else if opcode = OP_ELSE then op_ELSE st else if opcode = OP_ENDIF then op_ENDIF st
     else Inl SCRIPT_ERR_BAD_OPCODE)"
proof -
  from assms have "opcode = 99 \<or> opcode = 100 \<or> opcode = 101 \<or> opcode = 102 \<or> opcode = 103 \<or> opcode = 104"
    by presburger
  then show ?thesis by (elim disjE) (simp_all add: exec_opcode_def exec_stack_op_def)
qed

lemma control_ops_depth:
  "op_IF E fExec opcode st = Inr st' \<Longrightarrow> length (vfExec st') = Suc (length (vfExec st)) \<and> nOpCount st' = nOpCount st"
  "op_ELSE st = Inr st' \<Longrightarrow> vfExec st \<noteq> [] \<and> length (vfExec st') = length (vfExec st) \<and> nOpCount st' = nOpCount st"
  "op_ENDIF st = Inr st' \<Longrightarrow> vfExec st \<noteq> [] \<and> length (vfExec st') = length (vfExec st) - 1 \<and> nOpCount st' = nOpCount st"
  by (auto simp: op_IF_def op_ELSE_def op_ENDIF_def Let_def split: if_splits list.splits)

lemma exec_opcode_other:
  assumes "exec_opcode E fExec opcode pc st = Inr st'" "\<not> (OP_IF \<le> opcode \<and> opcode \<le> OP_ENDIF)"
  shows "vfExec st' = vfExec st \<and> nOpCount st \<le> nOpCount st' \<and>
    (nOpCount st \<le> MAX_OPS_PER_SCRIPT \<longrightarrow> nOpCount st' \<le> MAX_OPS_PER_SCRIPT)"
proof -
  have 1: "op_VERIFY st = Inr st' \<Longrightarrow> ?thesis" "op_TOALTSTACK st = Inr st' \<Longrightarrow> ?thesis"
    "op_FROMALTSTACK st = Inr st' \<Longrightarrow> ?thesis" "op_push_number opcode st = Inr st' \<Longrightarrow> ?thesis"
    by (auto simp: op_VERIFY_def op_TOALTSTACK_def op_push_number_def op_FROMALTSTACK_def
        split: if_splits list.splits)
  have 2: "on_stack f st = Inr st' \<Longrightarrow> ?thesis" for f by (auto simp: on_stack_def err_simps)
  have 3: "op_CHECKSIG E opcode st = Inr st' \<Longrightarrow> ?thesis"
    by (auto simp: op_CHECKSIG_def err_simps Let_def split: list.splits if_splits)
  have 4: "op_CHECKMULTISIG E opcode st = Inr st' \<Longrightarrow> ?thesis"
    by (erule op_CHECKMULTISIG_Inr) (auto simp: multisig_finish_def split: list.splits if_splits)
  show ?thesis
    using exec_opcode_Inr [OF assms(1)] assms(2) by (elim disjE conjE exE) (use 1 2 3 4 in simp_all)
qed

text \<open>What holds of every instruction a run passes, executed or skipped.\<close>

definition static_ok :: "opcodetype \<times> valtype \<Rightarrow> bool" where
  "static_ok i \<longleftrightarrow> length (snd i) \<le> MAX_SCRIPT_ELEMENT_SIZE \<and> \<not> disabled_opcode (fst i) \<and>
     fst i \<noteq> OP_VERIF \<and> fst i \<noteq> OP_VERNOTIF"

lemma eval_step_static:
  assumes "eval_step E pc st = Inr (pc', st')"
  obtains opcode d where "GetOp2 pc = (True, pc', opcode, d)" "static_ok (opcode, d)"
    "nOpCount st + (if opcode > OP_16 then 1 else 0) \<le> nOpCount st'"
    "cond_depth (length (vfExec st)) [opcode] = Some (length (vfExec st'))"
    "nOpCount st \<le> MAX_OPS_PER_SCRIPT \<longrightarrow> nOpCount st' \<le> MAX_OPS_PER_SCRIPT"
proof -
  obtain ok r opcode d where g: "GetOp2 pc = (ok, r, opcode, d)" by (cases "GetOp2 pc") auto
  have c: "vfExec (count_op opcode st) = vfExec st"
    "nOpCount (count_op opcode st) = nOpCount st + (if opcode > OP_16 then 1 else 0)"
    by (simp_all add: count_op_def)
  have m: "nOpCount st \<le> MAX_OPS_PER_SCRIPT \<longrightarrow> nOpCount (count_op opcode st) \<le> MAX_OPS_PER_SCRIPT"
    using assms g by (auto simp: eval_step_def count_op_def Let_def split: if_splits)
  from assms g have 1: "ok" "r = pc'" "length d \<le> MAX_SCRIPT_ELEMENT_SIZE" "\<not> disabled_opcode opcode"
    by (auto simp: eval_step_def err_simps Let_def split: if_splits)
  show thesis
  proof (cases "OP_IF \<le> opcode \<and> opcode \<le> OP_ENDIF")
    case True
    then obtain f where "exec_opcode E f opcode pc' (count_op opcode st) = Inr st'"
      using assms 1 by (auto simp: eval_step_def g err_simps Let_def split: if_splits)
    then have x: "(opcode = OP_IF \<or> opcode = OP_NOTIF) \<and> op_IF E f opcode (count_op opcode st) = Inr st' \<or>
        opcode = OP_ELSE \<and> op_ELSE (count_op opcode st) = Inr st' \<or>
        opcode = OP_ENDIF \<and> op_ENDIF (count_op opcode st) = Inr st'"
      using True by (simp add: exec_opcode_control split: if_splits)
    have "cond_depth (length (vfExec st)) [opcode] = Some (length (vfExec st'))"
      "nOpCount st' = nOpCount (count_op opcode st)"
      using x c(1) by (auto dest!: control_ops_depth)
    moreover have "static_ok (opcode, d)" using x 1 by (auto simp: static_ok_def)
    ultimately show thesis using that [of opcode d] g 1 c(2) m by simp
  next
    case False
    then have "exec_opcode E f opcode pc' (count_op opcode st) = Inr st' \<or> vfExec st' = vfExec st \<and>
        nOpCount st' = nOpCount (count_op opcode st)" if "f = (False \<notin> set (vfExec st))" for f
      using assms 1 that c(1) by (auto simp: eval_step_def g err_simps Let_def split: if_splits)
    then have "vfExec st' = vfExec st \<and> nOpCount (count_op opcode st) \<le> nOpCount st' \<and>
        (nOpCount st \<le> MAX_OPS_PER_SCRIPT \<longrightarrow> nOpCount st' \<le> MAX_OPS_PER_SCRIPT)"
      using exec_opcode_other [OF _ False] c(1) m by (metis order_refl)
    moreover have "static_ok (opcode, d)" using False 1 by (auto simp: static_ok_def)
    ultimately show thesis using that [of opcode d] g 1 c(2) False by auto
  qed
qed

lemma cond_depth_append: "cond_depth d (xs @ ys) = (case cond_depth d xs of None \<Rightarrow> None | Some e \<Rightarrow> cond_depth e ys)"
  by (induction xs arbitrary: d) auto

lemma eval_loop_static:
  "eval_loop E pc st = Inr st' \<Longrightarrow>
     \<exists>ops. parse_ops pc = Some ops \<and> (\<forall>i\<in>set ops. static_ok i) \<and>
       nOpCount st + length (filter (\<lambda>i. fst i > OP_16) ops) \<le> nOpCount st' \<and>
       (nOpCount st \<le> MAX_OPS_PER_SCRIPT \<longrightarrow> nOpCount st' \<le> MAX_OPS_PER_SCRIPT) \<and>
       cond_depth (length (vfExec st)) (map fst ops) = Some (length (vfExec st'))"
proof (induction E pc st rule: eval_loop.induct)
  case (1 E pc st)
  show ?case
  proof (cases "pc = []")
    case True
    with 1(2) show ?thesis by (simp add: eval_loop.simps parse_ops.simps)
  next
    case False
    with 1(2) obtain pc1 st1 where s: "eval_step E pc st = Inr (pc1, st1)" and l: "eval_loop E pc1 st1 = Inr st'"
      by (subst (asm) eval_loop.simps) (auto simp: err_simps)
    obtain opcode d where g: "GetOp2 pc = (True, pc1, opcode, d)" "static_ok (opcode, d)"
      "nOpCount st + (if opcode > OP_16 then 1 else 0) \<le> nOpCount st1"
      "cond_depth (length (vfExec st)) [opcode] = Some (length (vfExec st1))"
      "nOpCount st \<le> MAX_OPS_PER_SCRIPT \<longrightarrow> nOpCount st1 \<le> MAX_OPS_PER_SCRIPT"
      using eval_step_static [OF s] .
    obtain ops where o: "parse_ops pc1 = Some ops" "\<forall>i\<in>set ops. static_ok i"
      "nOpCount st1 + length (filter (\<lambda>i. fst i > OP_16) ops) \<le> nOpCount st'"
      "cond_depth (length (vfExec st1)) (map fst ops) = Some (length (vfExec st'))"
      "nOpCount st1 \<le> MAX_OPS_PER_SCRIPT \<longrightarrow> nOpCount st' \<le> MAX_OPS_PER_SCRIPT"
      using 1(1) [OF False s refl l] by blast
    have "cond_depth (length (vfExec st)) (map fst ((opcode, d) # ops)) = Some (length (vfExec st'))"
      using cond_depth_append [of "length (vfExec st)" "[opcode]" "map fst ops"] g(4) o(4) by simp
    moreover have "parse_ops pc = Some ((opcode, d) # ops)" using False g(1) o(1) by (simp add: parse_ops.simps)
    ultimately show ?thesis using g(2,3,5) o(2,3,5) by (intro exI [of _ "(opcode, d) # ops"]) (auto split: if_splits)
  qed
qed

text \<open>
  C11. A script that evaluates to true is well formed as a whole, in the branches not taken too: it parses to its
  end, no instruction is disabled, \<open>OP_VERIF\<close>, \<open>OP_VERNOTIF\<close> or a push over 520 bytes, at
  most 201 opcodes are counted ones and the conditionals nest and close.
\<close>

theorem EvalScript_static:
  assumes "EvalScript E script stk = Inr r"
  shows "length script \<le> MAX_SCRIPT_SIZE \<and> (\<exists>ops. parse_ops script = Some ops \<and>
    (\<forall>i\<in>set ops. length (snd i) \<le> MAX_SCRIPT_ELEMENT_SIZE \<and> \<not> disabled_opcode (fst i) \<and>
       fst i \<noteq> OP_VERIF \<and> fst i \<noteq> OP_VERNOTIF) \<and>
    length (filter (\<lambda>i. fst i > OP_16) ops) \<le> MAX_OPS_PER_SCRIPT \<and> cond_depth 0 (map fst ops) = Some 0)"
proof -
  let ?s0 = "\<lparr>stack = stk, altstack = [], vfExec = [], nOpCount = 0, pbegincodehash = script\<rparr>"
  obtain st where l: "length script \<le> MAX_SCRIPT_SIZE" "eval_loop E script ?s0 = Inr st" "vfExec st = []"
    using assms unfolding EvalScript_def by (auto simp: err_simps split: if_splits)
  obtain ops where "parse_ops script = Some ops" "nOpCount st \<le> MAX_OPS_PER_SCRIPT" "\<forall>i\<in>set ops. static_ok i"
    "length (filter (\<lambda>i. fst i > OP_16) ops) \<le> nOpCount st" "cond_depth 0 (map fst ops) = Some 0"
    using eval_loop_static [OF l(2)] l(3) by auto
  then show ?thesis using l(1) unfolding static_ok_def by (intro conjI exI [of _ ops]) auto
qed

lemmas run_simps = eval_loop.simps eval_step_def GetOp2_def push_size_def count_op_def disabled_opcode_def exec_opcode_def
  MAX_OPS_PER_SCRIPT_def MAX_STACK_SIZE_def MAX_SCRIPT_ELEMENT_SIZE_def MAX_SCRIPT_SIZE_def

theorem EvalScript_static_witness:
  "EvalScript \<lparr>flags = {}, checker = BaseSignatureChecker, sigversion = SIGVERSION_BASE, CheckLowS = (\<lambda>_. False)\<rparr>
     [0x01, 0x07, 0x63, 0x67, 0x68] [] = Inr [] \<and> (\<exists>ops. parse_ops [0x01, 0x07, 0x63, 0x67, 0x68] = Some ops \<and>
       cond_depth 0 (map fst ops) = Some 0)"
proof -
  have "EvalScript \<lparr>flags = {}, checker = BaseSignatureChecker, sigversion = SIGVERSION_BASE, CheckLowS = (\<lambda>_. False)\<rparr>
     [0x01, 0x07, 0x63, 0x67, 0x68] [] = Inr []"
    by (simp add: EvalScript_def run_simps op_IF_def op_ELSE_def op_ENDIF_def Let_def)
  then show ?thesis using EvalScript_static by blast
qed

end
