(* ===== verification/Interp_Props.thy ===== *)
theory Interp_Props
  imports Interp_Limits
begin

unbundle bit_operations_syntax

text \<open>
  Behaviour of single operations of the interpreter and of whole runs: the matching loop of
  \<open>OP_CHECKMULTISIG\<close> against its declarative meaning, the range of the arithmetic operations,
  what adding verification flags may change, and runs of scripts that only push.
\<close>

section \<open>Multisignature matching\<close>

text \<open>
  The meaning of the matching loop: the signatures are good, in order, for a subsequence of the keys.
\<close>

definition multisig_match :: "(valtype \<Rightarrow> valtype \<Rightarrow> bool) \<Rightarrow> valtype list \<Rightarrow> valtype list \<Rightarrow> bool" where
  "multisig_match good sigs keys \<longleftrightarrow> (\<exists>ks. subseq ks keys \<and> list_all2 good sigs ks)"

lemma multisig_match_Nil [simp]: "multisig_match good [] keys"
  by (simp add: multisig_match_def exI [of _ "[]"])

lemma multisig_match_short: "length sigs > length keys \<Longrightarrow> \<not> multisig_match good sigs keys"
  unfolding multisig_match_def using list_emb_length list_all2_lengthD by fastforce

lemma multisig_match_miss:
  "\<not> good s k \<Longrightarrow> multisig_match good (s # sigs) (k # keys) \<longleftrightarrow> multisig_match good (s # sigs) keys"
  unfolding multisig_match_def list_all2_Cons1
  by (auto simp: subseq_Cons2_iff split: if_splits dest: list_emb_ConsD)

text \<open>A signature that is good for the first key may as well be matched with it.\<close>

lemma multisig_match_hit:
  assumes "good s k"
  shows "multisig_match good (s # sigs) (k # keys) \<longleftrightarrow> multisig_match good sigs keys"
proof
  assume "multisig_match good (s # sigs) (k # keys)"
  then obtain k' ks where "subseq (k' # ks) (k # keys)" "list_all2 good sigs ks"
    by (auto simp: multisig_match_def list_all2_Cons1)
  moreover from this(1) have "subseq ks keys"
    by (auto simp: subseq_Cons2_iff split: if_splits dest: subseq_Cons')
  ultimately show "multisig_match good sigs keys" by (auto simp: multisig_match_def)
next
  assume "multisig_match good sigs keys"
  then obtain ks where "subseq ks keys" "list_all2 good sigs ks" by (auto simp: multisig_match_def)
  with assms show "multisig_match good (s # sigs) (k # keys)"
    unfolding multisig_match_def by (intro exI [of _ "k # ks"]) auto
qed

lemma multisig_loop_match:
  "multisig_loop E code sigs keys = Inr b \<Longrightarrow>
     b \<longleftrightarrow> multisig_match (\<lambda>s k. CheckSig (checker E) s k code (sigversion E)) sigs keys"
proof (induction E code sigs keys rule: multisig_loop.induct)
  case (2 E code s sigs)
  then show ?case by (simp add: multisig_match_short)
next
  case (3 E code s sigs k keys)
  let ?good = "\<lambda>s k. CheckSig (checker E) s k code (sigversion E)"
  let ?rest = "if ?good s k then sigs else s # sigs"
  have m: "multisig_match ?good (s # sigs) (k # keys) \<longleftrightarrow> multisig_match ?good ?rest keys"
    by (simp add: multisig_match_hit multisig_match_miss)
  obtain u v where uv: "CheckSignatureEncoding E s = Inr u" "CheckPubKeyEncoding E k = Inr v"
    using 3(2) by (auto simp: err_simps)
  show ?case
  proof (cases "length ?rest > length keys")
    case True
    with 3(2) uv have "\<not> b" by (auto simp: Let_def)
    with True m multisig_match_short show ?thesis by blast
  next
    case False
    with 3(2) uv have "multisig_loop E code ?rest keys = Inr b" by (auto simp: Let_def)
    with 3(1) [OF uv refl refl False] m show ?thesis by simp
  qed
qed simp


definition equal_checker :: sig_checker where
  "equal_checker = \<lparr>CheckSig = (\<lambda>s k _ _. s = k), CheckLockTime = (\<lambda>_. False), CheckSequence = (\<lambda>_. False)\<rparr>"

lemma script_num_small: "script_num E 4 [1] = Inr 1" "script_num E 4 [2] = Inr 2"
  by (simp_all add: script_num_def CScriptNum_def is_minimal_num_def set_vch_def)


section \<open>Range of the arithmetic operations\<close>

lemma script_num_range:
  assumes "script_num E 4 vch = Inr n"
  shows "\<bar>n\<bar> < 2 ^ 31"
proof -
  have "CScriptNum vch (fRequireMinimal E) (Suc 3) = Inr n"
    using assms by (auto simp: script_num_def numeral_eq_Suc split: sum.splits)
  from CScriptNum_range [OF this] show ?thesis by simp
qed

lemma abs_if_less: "\<bar>x\<bar> < c \<Longrightarrow> \<bar>y\<bar> < c \<Longrightarrow> \<bar>if P then x else y\<bar> < (c :: int)"
  by simp

lemma abs_bool_less: "\<bar>of_bool P :: int\<bar> < 2 ^ 32"
  by (cases P) simp_all

lemma unary_num_range: "\<bar>n\<bar> < 2 ^ 31 \<Longrightarrow> \<bar>unary_num opcode n\<bar> < 2 ^ 32"
  unfolding unary_num_def by (intro abs_if_less abs_bool_less) simp_all

lemma binary_num_range: "\<bar>a\<bar> < 2 ^ 31 \<Longrightarrow> \<bar>b\<bar> < 2 ^ 31 \<Longrightarrow> \<bar>binary_num opcode a b\<bar> < 2 ^ 32"
  unfolding binary_num_def by (intro abs_if_less abs_bool_less) simp_all

text \<open>
  C14. Script arithmetic never overflows: the operands of a numeric opcode are read from at most four
  bytes and lie strictly between \<open>-2^31\<close> and \<open>2^31\<close>, so the sum, difference, increment or negation
  the code computes in \<open>int64_t\<close> is the mathematical one, lies between \<open>-2^32\<close> and \<open>2^32\<close>, and the
  element pushed decodes to it again as a number of at most five bytes.
\<close>

theorem script_arith_no_overflow:
  assumes "op_binary E opcode (x2 # x1 # r) = Inr (y # r)" "opcode \<noteq> OP_NUMEQUALVERIFY"
  shows "\<exists>a b. script_num E 4 x1 = Inr a \<and> script_num E 4 x2 = Inr b \<and> \<bar>a\<bar> < 2 ^ 31 \<and> \<bar>b\<bar> < 2 ^ 31 \<and>
    \<bar>binary_num opcode a b\<bar> < 2 ^ 32 \<and> CScriptNum y True 5 = Inr (binary_num opcode a b)"
proof -
  obtain a b where n: "script_num E 4 x1 = Inr a" "script_num E 4 x2 = Inr b"
    "y = scriptnum_serialize (binary_num opcode a b)"
    using assms by (auto simp: op_binary_def err_simps Let_def nDefaultMaxNumSize_def)
  note a = script_num_range [OF n(1)] and b = script_num_range [OF n(2)]
  have "CScriptNum y True (Suc 4) = Inr (binary_num opcode a b)"
    unfolding n(3) by (rule CScriptNum_serialize) (use binary_num_range [OF a b, of opcode] in simp_all)
  with n a b binary_num_range [OF a b] show ?thesis by (auto simp: numeral_eq_Suc)
qed

theorem script_arith_no_overflow_witness:
  "CScriptNum (scriptnum_serialize 4294967294) True 5 = Inr 4294967294"
proof -
  let ?E = "\<lparr>flags = {}, checker = BaseSignatureChecker, sigversion = SIGVERSION_BASE, CheckLowS = (\<lambda>_. False)\<rparr>"
  have v: "set_vch [0xff, 0xff, 0xff, 0x7f] = 2147483647" by code_simp
  have s: "script_num ?E 4 [0xff, 0xff, 0xff, 0x7f] = Inr 2147483647"
    by (simp add: script_num_def CScriptNum_def v)
  have "op_binary ?E OP_ADD ([0xff, 0xff, 0xff, 0x7f] # [0xff, 0xff, 0xff, 0x7f] # []) = Inr (scriptnum_serialize 4294967294 # [])"
    by (simp add: op_binary_def nDefaultMaxNumSize_def s binary_num_def)
  from script_arith_no_overflow [OF this] s show ?thesis by (simp add: binary_num_def)
qed

section \<open>Adding verification flags\<close>

text \<open>
  \<open>weaker_env E E'\<close>: the environments differ in the flags only, and \<open>E'\<close> has all flags of \<open>E\<close>.  The
  fork-id flag selects a hash type rather than adding a check, and \<open>DISCOURAGE_UPGRADABLE_NOPS\<close> is a
  policy flag that a later soft fork may lift for an opcode, so it is not among the flags of \<open>E\<close>.
\<close>

definition weaker_env :: "script_env \<Rightarrow> script_env \<Rightarrow> bool" where
  "weaker_env E E' \<longleftrightarrow> E' = E\<lparr>flags := flags E'\<rparr> \<and> flags E \<subseteq> flags E' \<and>
     (SCRIPT_ENABLE_SIGHASH_FORKID \<in> flags E \<longleftrightarrow> SCRIPT_ENABLE_SIGHASH_FORKID \<in> flags E') \<and>
     SCRIPT_VERIFY_DISCOURAGE_UPGRADABLE_NOPS \<notin> flags E"

lemma weaker_envD:
  assumes "weaker_env E E'"
  shows "checker E' = checker E" "sigversion E' = sigversion E" "CheckLowS E' = CheckLowS E"
    "f \<in> flags E \<Longrightarrow> f \<in> flags E'"
    "SCRIPT_ENABLE_SIGHASH_FORKID \<in> flags E' \<longleftrightarrow> SCRIPT_ENABLE_SIGHASH_FORKID \<in> flags E"
    "SCRIPT_VERIFY_DISCOURAGE_UPGRADABLE_NOPS \<notin> flags E"
  using assms by (cases E; cases E'; auto simp: weaker_env_def)+

text \<open>\<open>err_le m' m\<close>: where \<open>m'\<close> succeeds, \<open>m\<close> succeeds with the same value.\<close>

definition err_le :: "'e + 'a \<Rightarrow> 'f + 'a \<Rightarrow> bool" where
  "err_le m' m \<longleftrightarrow> (\<forall>v. m' = Inr v \<longrightarrow> m = Inr v)"

named_theorems err_le_intros "introduction rules of the order on results"

lemma err_leD: "err_le m' m \<Longrightarrow> m' = Inr v \<Longrightarrow> m = Inr v"
  by (simp add: err_le_def)

lemma err_le_refl [err_le_intros]: "err_le m m"
  by (simp add: err_le_def)

lemma err_le_Inl [err_le_intros]: "err_le (Inl e) m"
  by (simp add: err_le_def)

lemma err_le_bind [err_le_intros]:
  "err_le m' m \<Longrightarrow> (\<And>a. m' = Inr a \<Longrightarrow> err_le (f' a) (f a)) \<Longrightarrow> err_le (ebind m' f') (ebind m f)"
  by (auto simp: err_le_def err_simps)

lemma err_le_if [err_le_intros]:
  "(c \<Longrightarrow> err_le a' a) \<Longrightarrow> (\<not> c \<Longrightarrow> err_le b' b) \<Longrightarrow> err_le (if c then a' else b') (if c then a else b)"
  by simp

lemma err_le_guard:
  "(c \<Longrightarrow> c') \<Longrightarrow> err_le b' b \<Longrightarrow> err_le (if c' then Inl e else b') (if c then Inl e' else b)"
  by (simp add: err_le_def)

lemma err_le_list [err_le_intros]:
  "err_le a' a \<Longrightarrow> (\<And>x xs. l = x # xs \<Longrightarrow> err_le (f' x xs) (f x xs)) \<Longrightarrow>
     err_le (case l of [] \<Rightarrow> a' | x # xs \<Rightarrow> f' x xs) (case l of [] \<Rightarrow> a | x # xs \<Rightarrow> f x xs)"
  by (cases l) simp_all

lemma weaker_script_num [err_le_intros]: "weaker_env E E' \<Longrightarrow> err_le (script_num E' n v) (script_num E n v)"
  by (auto simp: err_le_def script_num_def CScriptNum_def weaker_envD(4) split: sum.splits if_splits)

lemma weaker_encodings [err_le_intros]:
  assumes "weaker_env E E'"
  shows "err_le (CheckSignatureEncoding E' s) (CheckSignatureEncoding E s)"
    "err_le (CheckPubKeyEncoding E' k) (CheckPubKeyEncoding E k)"
  using weaker_envD [OF assms] unfolding CheckSignatureEncoding_def CheckPubKeyEncoding_def Let_def
  by (auto simp: err_simps err_le_def split: if_splits)

lemma weaker_multisig_loop [err_le_intros]:
  "weaker_env E E' \<Longrightarrow> err_le (multisig_loop E' code sigs keys) (multisig_loop E code sigs keys)"
proof (induction E' code sigs keys rule: multisig_loop.induct)
  case (3 E' code s sigs k keys)
  note w = weaker_envD [OF 3(2)]
  show ?case unfolding multisig_loop.simps w(1,2) Let_def
    by (intro err_le_intros 3(1) [unfolded w(1,2) Let_def] 3(2)) simp_all
qed (simp_all add: err_le_refl)

lemma weaker_multisig_cleanup [err_le_intros]:
  "weaker_env E E' \<Longrightarrow> err_le (multisig_cleanup E' ok i k stk) (multisig_cleanup E ok i k stk)"
proof (induction i arbitrary: k stk)
  case (Suc i)
  show ?case unfolding multisig_cleanup.simps
    by (intro err_le_list err_le_Inl err_le_guard Suc) (simp_all add: weaker_envD(4) [OF Suc(2)])
qed (simp add: err_le_refl)

lemma weaker_multisig_finish [err_le_intros]:
  "weaker_env E E' \<Longrightarrow> err_le (multisig_finish E' opcode ok st) (multisig_finish E opcode ok st)"
  by (auto simp: err_le_def multisig_finish_def weaker_envD(4) split: list.splits if_splits)

lemma weaker_drop_sig: "weaker_env E E' \<Longrightarrow> drop_sig E' = drop_sig E"
  by (rule ext)+ (simp add: drop_sig_def weaker_envD(2))

lemma weaker_CHECKSIG [err_le_intros]:
  assumes "weaker_env E E'"
  shows "err_le (op_CHECKSIG E' opcode st) (op_CHECKSIG E opcode st)"
  unfolding op_CHECKSIG_def weaker_envD(1,2) [OF assms] Let_def weaker_drop_sig [OF assms]
  by (intro err_le_list err_le_Inl err_le_bind err_le_guard weaker_encodings assms err_le_refl)
    (simp add: weaker_envD(4) [OF assms])

lemma weaker_CHECKMULTISIG [err_le_intros]:
  assumes "weaker_env E E'"
  shows "err_le (op_CHECKMULTISIG E' opcode st) (op_CHECKMULTISIG E opcode st)"
  unfolding op_CHECKMULTISIG_def Let_def weaker_drop_sig [OF assms] by (intro err_le_intros assms)

lemma weaker_control [err_le_intros]:
  assumes "weaker_env E E'"
  shows "err_le (op_IF E' fExec opcode st) (op_IF E fExec opcode st)"
    "err_le (op_upgradable_nop E' st) (op_upgradable_nop E st)"
    "err_le (op_CHECKLOCKTIMEVERIFY E' st) (op_CHECKLOCKTIMEVERIFY E st)"
    "err_le (op_CHECKSEQUENCEVERIFY E' st) (op_CHECKSEQUENCEVERIFY E st)"
proof -
  note w = weaker_envD [OF assms]
  show "err_le (op_IF E' fExec opcode st) (op_IF E fExec opcode st)"
    by (auto simp: err_le_def op_IF_def Let_def w(2,4) split: list.splits if_splits)
  show "err_le (op_upgradable_nop E' st) (op_upgradable_nop E st)"
    using w(6) by (simp add: op_upgradable_nop_def err_le_def)
  show "err_le (op_CHECKLOCKTIMEVERIFY E' st) (op_CHECKLOCKTIMEVERIFY E st)"
  proof (cases "SCRIPT_VERIFY_CHECKLOCKTIMEVERIFY \<in> flags E")
    case True
    show ?thesis unfolding op_CHECKLOCKTIMEVERIFY_def w(1) by (simp add: True w(4)) (intro err_le_intros assms)
  next
    case False
    with nop_ops_same(1) w(6) show ?thesis by (auto simp: err_le_def op_CHECKLOCKTIMEVERIFY_def [of E])
  qed
  show "err_le (op_CHECKSEQUENCEVERIFY E' st) (op_CHECKSEQUENCEVERIFY E st)"
  proof (cases "SCRIPT_VERIFY_CHECKSEQUENCEVERIFY \<in> flags E")
    case True
    show ?thesis unfolding op_CHECKSEQUENCEVERIFY_def w(1) by (simp add: True w(4)) (intro err_le_intros assms)
  next
    case False
    with nop_ops_same(2) w(6) show ?thesis by (auto simp: err_le_def op_CHECKSEQUENCEVERIFY_def [of E])
  qed
qed

lemma weaker_stack_ops [err_le_intros]:
  assumes "weaker_env E E'"
  shows "err_le (op_PICK_ROLL E' opcode stk) (op_PICK_ROLL E opcode stk)"
    "err_le (op_unary E' opcode stk) (op_unary E opcode stk)"
    "err_le (op_binary E' opcode stk) (op_binary E opcode stk)"
    "err_le (op_WITHIN E' stk) (op_WITHIN E stk)"
  unfolding op_PICK_ROLL_def op_unary_def op_binary_def op_WITHIN_def Let_def
  by (intro err_le_intros assms)+

lemma weaker_exec_stack_op [err_le_intros]:
  assumes "weaker_env E E'"
  shows "err_le (case exec_stack_op E' opcode of Some f \<Rightarrow> on_stack f st | None \<Rightarrow> Inl e)
    (case exec_stack_op E opcode of Some f \<Rightarrow> on_stack f st | None \<Rightarrow> Inl e)"
  unfolding exec_stack_op_def on_stack_def if_distrib [of "case_option _ _"] option.case
  by (intro err_le_intros assms)

lemma weaker_exec_opcode [err_le_intros]:
  "weaker_env E E' \<Longrightarrow> err_le (exec_opcode E' fExec opcode pc st) (exec_opcode E fExec opcode pc st)"
  unfolding exec_opcode_def by (intro err_le_intros)

lemma weaker_eval_step [err_le_intros]:
  assumes "weaker_env E E'"
  shows "err_le (eval_step E' pc st) (eval_step E pc st)"
proof (cases "GetOp2 pc")
  case (fields ok r opcode d)
  show ?thesis unfolding eval_step_def fields Let_def prod.case
    by (intro err_le_if err_le_refl err_le_bind err_le_guard weaker_exec_opcode assms) (simp_all add: weaker_envD(4) [OF assms])
qed

lemma weaker_eval_loop [err_le_intros]:
  "weaker_env E E' \<Longrightarrow> err_le (eval_loop E' pc st) (eval_loop E pc st)"
proof (induction E' pc st rule: eval_loop.induct)
  case (1 E' pc st)
  show ?case unfolding eval_loop.simps [of _ pc]
    by (intro err_le_intros 1(2)) (auto intro: 1 simp: case_prod_beta)
qed

lemma weaker_EvalScript [err_le_intros]:
  "weaker_env E E' \<Longrightarrow> err_le (EvalScript E' script stk) (EvalScript E script stk)"
  unfolding EvalScript_def by (intro err_le_intros)



end
