(* ===== verification/Verify.thy ===== *)
theory Verify
  imports SigHash Interp_Props
begin

text \<open>
  Script verification: \<open>VerifyWitnessProgram\<close>, \<open>VerifyScript\<close> and the witness signature-operation counters of
  \<^verbatim>\<open>src/script/interpreter.cpp\<close>.  A failed \<open>assert\<close>, which aborts the node, is the error
  \<open>Assertion\<close>.  A witness is the list of its stack items as \<open>CScriptWitness\<close> holds them, last
  item on top; the interpreter's stacks have their top first.
\<close>

section \<open>Verification\<close>

datatype verify_error = Err ScriptError | Assertion

definition lift_err :: "ScriptError + 'a \<Rightarrow> verify_error + 'a" where
  "lift_err m = (case m of Inl e \<Rightarrow> Inl (Err e) | Inr a \<Rightarrow> Inr a)"

definition eval_env :: "script_flags \<Rightarrow> sig_checker \<Rightarrow> (valtype \<Rightarrow> bool) \<Rightarrow> SigVersion \<Rightarrow> script_env" where
  "eval_env F chk lowS sv = \<lparr>flags = F, checker = chk, sigversion = sv, CheckLowS = lowS\<rparr>"

definition witness_script :: "valtype list \<Rightarrow> valtype \<Rightarrow> ScriptError + valtype list \<times> CScript" where
  "witness_script witness program =
     (if length program = 32 then
        (if witness = [] then Inl SCRIPT_ERR_WITNESS_PROGRAM_WITNESS_EMPTY
         else if sha256 (last witness) \<noteq> program then Inl SCRIPT_ERR_WITNESS_PROGRAM_MISMATCH
         else Inr (rev (butlast witness), last witness))
      else if length program = 20 then
        (if length witness \<noteq> 2 then Inl SCRIPT_ERR_WITNESS_PROGRAM_MISMATCH
         else Inr (rev witness, push_opcode OP_DUP @ push_opcode OP_HASH160 @ push_data program @
                   push_opcode OP_EQUALVERIFY @ push_opcode OP_CHECKSIG))
      else Inl SCRIPT_ERR_WITNESS_PROGRAM_WRONG_LENGTH)"

definition VerifyWitnessProgram ::
  "valtype list \<Rightarrow> nat \<Rightarrow> valtype \<Rightarrow> script_flags \<Rightarrow> sig_checker \<Rightarrow> (valtype \<Rightarrow> bool) \<Rightarrow> ScriptError + unit" where
  "VerifyWitnessProgram witness witversion program F chk lowS =
     (if witversion = 0 then
        ebind (witness_script witness program) (\<lambda>(stk, script).
          if list_ex (\<lambda>x. length x > MAX_SCRIPT_ELEMENT_SIZE) stk then Inl SCRIPT_ERR_PUSH_SIZE
          else ebind (EvalScript (eval_env F chk lowS SIGVERSION_WITNESS_V0) script stk) (\<lambda>stk.
            if length stk \<noteq> 1 then Inl SCRIPT_ERR_EVAL_FALSE
            else if \<not> CastToBool (hd stk) then Inl SCRIPT_ERR_EVAL_FALSE
            else Inr ()))
      else if SCRIPT_VERIFY_DISCOURAGE_UPGRADABLE_WITNESS_PROGRAM \<in> F
        then Inl SCRIPT_ERR_DISCOURAGE_UPGRADABLE_WITNESS_PROGRAM
      else Inr ())"

definition check_top :: "valtype list \<Rightarrow> verify_error + unit" where
  "check_top stk =
     (if stk = [] then Inl (Err SCRIPT_ERR_EVAL_FALSE)
      else if \<not> CastToBool (hd stk) then Inl (Err SCRIPT_ERR_EVAL_FALSE)
      else Inr ())"

text \<open>
  The stages of \<open>VerifyScript\<close> after the two evaluations; each returns \<open>hadWitness\<close> and the stack.
  \<open>stack.resize(1)\<close> keeps the bottom element.
\<close>

definition verify_bare_witness ::
  "script_flags \<Rightarrow> sig_checker \<Rightarrow> (valtype \<Rightarrow> bool) \<Rightarrow> CScript \<Rightarrow> CScript \<Rightarrow> valtype list \<Rightarrow> valtype list
    \<Rightarrow> verify_error + bool \<times> valtype list" where
  "verify_bare_witness F chk lowS sSig sPubKey witness stk =
     (if SCRIPT_VERIFY_WITNESS \<in> F then
        (case IsWitnessProgram sPubKey of
           Some (version, program) \<Rightarrow>
             if length sSig \<noteq> 0 then Inl (Err SCRIPT_ERR_WITNESS_MALLEATED)
             else ebind (lift_err (VerifyWitnessProgram witness version program F chk lowS)) (\<lambda>_.
               Inr (True, [last stk]))
         | None \<Rightarrow> Inr (False, stk))
      else Inr (False, stk))"

definition verify_p2sh_witness ::
  "script_flags \<Rightarrow> sig_checker \<Rightarrow> (valtype \<Rightarrow> bool) \<Rightarrow> CScript \<Rightarrow> CScript \<Rightarrow> valtype list \<Rightarrow> bool \<times> valtype list
    \<Rightarrow> verify_error + bool \<times> valtype list" where
  "verify_p2sh_witness F chk lowS sSig pubKey2 witness = (\<lambda>(hadWitness, stk).
     (if SCRIPT_VERIFY_WITNESS \<in> F then
        (case IsWitnessProgram pubKey2 of
           Some (version, program) \<Rightarrow>
             if sSig \<noteq> push_data pubKey2 then Inl (Err SCRIPT_ERR_WITNESS_MALLEATED_P2SH)
             else ebind (lift_err (VerifyWitnessProgram witness version program F chk lowS)) (\<lambda>_.
               Inr (True, [last stk]))
         | None \<Rightarrow> Inr (hadWitness, stk))
      else Inr (hadWitness, stk)))"

definition verify_p2sh ::
  "script_flags \<Rightarrow> sig_checker \<Rightarrow> (valtype \<Rightarrow> bool) \<Rightarrow> CScript \<Rightarrow> CScript \<Rightarrow> valtype list \<Rightarrow> valtype list \<Rightarrow> bool \<times> valtype list
    \<Rightarrow> verify_error + bool \<times> valtype list" where
  "verify_p2sh F chk lowS sSig sPubKey witness stackCopy = (\<lambda>(hadWitness, stk).
     (if SCRIPT_VERIFY_P2SH \<in> F \<and> IsPayToScriptHash sPubKey then
        (if \<not> IsPushOnly sSig then Inl (Err SCRIPT_ERR_SIG_PUSHONLY)
         else case stackCopy of
           [] \<Rightarrow> Inl Assertion
         | pubKey2 # stk \<Rightarrow>
             ebind (lift_err (EvalScript (eval_env F chk lowS SIGVERSION_BASE) pubKey2 stk)) (\<lambda>stk.
             ebind (check_top stk) (\<lambda>_.
               verify_p2sh_witness F chk lowS sSig pubKey2 witness (hadWitness, stk))))
      else Inr (hadWitness, stk)))"

definition verify_final :: "script_flags \<Rightarrow> valtype list \<Rightarrow> bool \<times> valtype list \<Rightarrow> verify_error + unit" where
  "verify_final F witness = (\<lambda>(hadWitness, stk).
     ebind (if SCRIPT_VERIFY_CLEANSTACK \<in> F then
              (if SCRIPT_VERIFY_P2SH \<notin> F then Inl Assertion
               else if SCRIPT_VERIFY_WITNESS \<notin> F then Inl Assertion
               else if length stk \<noteq> 1 then Inl (Err SCRIPT_ERR_CLEANSTACK)
               else Inr ())
            else Inr ()) (\<lambda>_.
     if SCRIPT_VERIFY_WITNESS \<in> F then
       (if SCRIPT_VERIFY_P2SH \<notin> F then Inl Assertion
        else if \<not> hadWitness \<and> witness \<noteq> [] then Inl (Err SCRIPT_ERR_WITNESS_UNEXPECTED)
        else Inr ())
     else Inr ()))"

definition VerifyScript ::
  "CScript \<Rightarrow> CScript \<Rightarrow> valtype list \<Rightarrow> script_flags \<Rightarrow> sig_checker \<Rightarrow> (valtype \<Rightarrow> bool) \<Rightarrow> verify_error + unit" where
  "VerifyScript sSig sPubKey witness flags0 chk lowS =
     (let F = (if SCRIPT_ENABLE_SIGHASH_FORKID \<in> flags0 then insert SCRIPT_VERIFY_STRICTENC flags0 else flags0);
          E = eval_env F chk lowS SIGVERSION_BASE in
      if SCRIPT_VERIFY_SIGPUSHONLY \<in> F \<and> \<not> IsPushOnly sSig then Inl (Err SCRIPT_ERR_SIG_PUSHONLY)
      else ebind (lift_err (EvalScript E sSig [])) (\<lambda>stackCopy.
           ebind (lift_err (EvalScript E sPubKey stackCopy)) (\<lambda>stk.
           ebind (check_top stk) (\<lambda>_.
           ebind (verify_bare_witness F chk lowS sSig sPubKey witness stk) (\<lambda>r.
           ebind (verify_p2sh F chk lowS sSig sPubKey witness stackCopy r) (\<lambda>r.
             verify_final F witness r))))))"

section \<open>Counting witness signature operations\<close>

definition WitnessSigOps :: "nat \<Rightarrow> valtype \<Rightarrow> valtype list \<Rightarrow> nat" where
  "WitnessSigOps witversion witprogram witness =
     (if witversion = 0 then
        (if length witprogram = 20 then 1
         else if length witprogram = 32 \<and> length witness > 0 then GetSigOpCount True (last witness)
         else 0)
      else 0)"

lemma GetOp2_moves: "pc \<noteq> [] \<Longrightarrow> GetOp2 pc = (ok, pc', opcode, d) \<Longrightarrow> length pc' < length pc"
  by (auto simp: GetOp2_def Let_def split: list.splits if_splits option.splits dest!: push_size_shorter)

function last_data :: "valtype \<Rightarrow> CScript \<Rightarrow> valtype" where
  "last_data data pc =
     (if pc \<noteq> [] then (case GetOp2 pc of (_, pc', _, d) \<Rightarrow> last_data d pc') else data)"
  by pat_completeness auto
termination
  by (relation "measure (\<lambda>(d, pc). length pc)") (auto dest!: GetOp2_moves [OF _ sym])

declare last_data.simps [simp del]

definition CountWitnessSigOps :: "CScript \<Rightarrow> CScript \<Rightarrow> valtype list \<Rightarrow> script_flags \<Rightarrow> nat option" where
  "CountWitnessSigOps sSig sPubKey witness F =
     (if SCRIPT_VERIFY_WITNESS \<notin> F then Some 0
      else if SCRIPT_VERIFY_P2SH \<notin> F then None
      else case IsWitnessProgram sPubKey of
        Some (version, program) \<Rightarrow> Some (WitnessSigOps version program witness)
      | None \<Rightarrow>
          if IsPayToScriptHash sPubKey \<and> IsPushOnly sSig then
            (case IsWitnessProgram (last_data [] sSig) of
               Some (version, program) \<Rightarrow> Some (WitnessSigOps version program witness)
             | None \<Rightarrow> Some 0)
          else Some 0)"

section \<open>Running the standard scripts\<close>

lemma eval_loop_Nil [simp]: "eval_loop E [] st = Inr st"
  by (simp add: eval_loop.simps)

lemma eval_loop_op:
  assumes "unat b = opcode" "OP_16 < opcode" "opcode \<noteq> OP_AVN_ASSET" "\<not> disabled_opcode opcode"
    "vfExec st = []" "nOpCount st < MAX_OPS_PER_SCRIPT"
  shows "eval_loop E (b # pc) st =
    ebind (exec_opcode E True opcode pc (st\<lparr>nOpCount := nOpCount st + 1\<rparr>)) (\<lambda>st'.
      if length (stack st') + length (altstack st') > MAX_STACK_SIZE then Inl SCRIPT_ERR_STACK_SIZE else eval_loop E pc st')"
proof -
  have "GetOp2 (b # pc) = (True, pc, opcode, [])" using assms(1-3) by (simp add: GetOp2_def Let_def)
  with assms have "eval_step E (b # pc) st = ebind (exec_opcode E True opcode pc (st\<lparr>nOpCount := nOpCount st + 1\<rparr>)) (\<lambda>st'.
      if length (stack st') + length (altstack st') > MAX_STACK_SIZE then Inl SCRIPT_ERR_STACK_SIZE else Inr (pc, st'))"
    by (simp add: eval_step_def count_op_def Let_def)
  then show ?thesis
    by (subst eval_loop.simps) (auto simp: ebind_assoc intro!: ebind_cong)
qed

lemma eval_loop_push:
  assumes "unat b = length d" "2 \<le> length d" "length d < OP_PUSHDATA1" "vfExec st = []"
  shows "eval_loop E (b # d @ pc) st =
    (if length (stack st) + 1 + length (altstack st) > MAX_STACK_SIZE then Inl SCRIPT_ERR_STACK_SIZE
     else eval_loop E pc (st\<lparr>stack := d # stack st\<rparr>))"
proof -
  have "GetOp2 (b # d @ pc) = (True, pc, length d, d)"
    using assms(1,3) by (simp add: GetOp2_def push_size_def)
  moreover have "CheckMinimalPush d (length d)" using assms(2,3) by (auto simp: CheckMinimalPush_def)
  moreover have "\<not> disabled_opcode (length d)" using assms(3) by (auto simp: disabled_opcode_def)
  ultimately show ?thesis using assms
    by (subst eval_loop.simps) (simp add: eval_step_def count_op_def MAX_SCRIPT_ELEMENT_SIZE_def)
qed

definition p2pkh_script :: "valtype \<Rightarrow> CScript" where
  "p2pkh_script h = 0x76 # 0xa9 # 0x14 # h @ [0x88, 0xac]"

definition p2sh_script :: "valtype \<Rightarrow> CScript" where
  "p2sh_script h = 0xa9 # 0x14 # h @ [0x87]"

lemma IsPayToPublicKeyHash_iff: "IsPayToPublicKeyHash s \<longleftrightarrow> (\<exists>h. length h = 20 \<and> s = p2pkh_script h)"
proof
  assume a: "IsPayToPublicKeyHash s"
  let ?h = "take 20 (drop 3 s)"
  have l: "length s = 25" using a by (simp add: IsPayToPublicKeyHash_def)
  have "s = take 3 s @ ?h @ drop 23 s" using append_take_drop_id [of 20 "drop 3 s"] by simp
  moreover have "take 3 s = [s ! 0, s ! 1, s ! 2]" using l by (simp add: take_Suc_conv_app_nth numeral_3_eq_3 numeral_2_eq_2)
  moreover have "drop 23 s = [s ! 23, s ! 24]" using l Cons_nth_drop_Suc [of 23 s] Cons_nth_drop_Suc [of 24 s] by simp
  ultimately have "s = [s ! 0, s ! 1, s ! 2] @ ?h @ [s ! 23, s ! 24]" by simp
  moreover have "s ! 0 = 0x76" "s ! 1 = 0xa9" "s ! 2 = 0x14" "s ! 23 = 0x88" "s ! 24 = 0xac"
    using a by (simp_all add: IsPayToPublicKeyHash_def word_unat_eq_iff)
  ultimately have "s = p2pkh_script ?h" unfolding p2pkh_script_def by (simp only: append_Cons append_Nil)
  moreover have "length ?h = 20" using a by (simp add: IsPayToPublicKeyHash_def)
  ultimately show "\<exists>h. length h = 20 \<and> s = p2pkh_script h" by blast
qed (auto simp: IsPayToPublicKeyHash_def p2pkh_script_def nth_append)

lemma IsPayToScriptHash_iff: "IsPayToScriptHash s \<longleftrightarrow> (\<exists>h. length h = 20 \<and> s = p2sh_script h)"
proof
  assume a: "IsPayToScriptHash s"
  let ?h = "take 20 (drop 2 s)"
  have l: "length s = 23" using a by (simp add: IsPayToScriptHash_def)
  have "s = take 2 s @ ?h @ drop 22 s" using append_take_drop_id [of 20 "drop 2 s"] by simp
  moreover have "take 2 s = [s ! 0, s ! 1]" using l by (simp add: take_Suc_conv_app_nth numeral_2_eq_2)
  moreover have "drop 22 s = [s ! 22]" using l Cons_nth_drop_Suc [of 22 s] by simp
  ultimately have "s = [s ! 0, s ! 1] @ ?h @ [s ! 22]" by simp
  moreover have "s ! 0 = 0xa9" "s ! 1 = 0x14" "s ! 22 = 0x87"
    using a by (simp_all add: IsPayToScriptHash_def word_unat_eq_iff)
  ultimately have "s = p2sh_script ?h" unfolding p2sh_script_def by (simp only: append_Cons append_Nil)
  moreover have "length ?h = 20" using l by simp
  ultimately show "\<exists>h. length h = 20 \<and> s = p2sh_script h" by blast
qed (auto simp: IsPayToScriptHash_def p2sh_script_def nth_append)

lemmas run_limits = MAX_OPS_PER_SCRIPT_def MAX_STACK_SIZE_def MAX_SCRIPT_SIZE_def

lemma eval_loop_stack_op:
  assumes "unat b = opcode" "OP_16 < opcode" "opcode \<noteq> OP_AVN_ASSET" "\<not> disabled_opcode opcode"
    "\<And>st. exec_opcode E True opcode pc st = on_stack f st" "vfExec st = []" "nOpCount st < MAX_OPS_PER_SCRIPT"
  shows "eval_loop E (b # pc) st = ebind (f (stack st)) (\<lambda>s.
    if length s + length (altstack st) > MAX_STACK_SIZE then Inl SCRIPT_ERR_STACK_SIZE
    else eval_loop E pc (st\<lparr>nOpCount := Suc (nOpCount st), stack := s\<rparr>))"
  using assms by (subst eval_loop_op [of _ opcode]) (simp_all add: on_stack_def ebind_assoc)

text \<open>The five opcodes of the standard templates.\<close>

lemma eval_loop_templates:
  assumes "vfExec st = []" "nOpCount st < 201"
  shows "eval_loop E (0x76 # pc) st = ebind (op_DUP (stack st)) (\<lambda>s.
      if length s + length (altstack st) > MAX_STACK_SIZE then Inl SCRIPT_ERR_STACK_SIZE
      else eval_loop E pc (st\<lparr>nOpCount := Suc (nOpCount st), stack := s\<rparr>))"
    "eval_loop E (0xa9 # pc) st = ebind (op_hash OP_HASH160 (stack st)) (\<lambda>s.
      if length s + length (altstack st) > MAX_STACK_SIZE then Inl SCRIPT_ERR_STACK_SIZE
      else eval_loop E pc (st\<lparr>nOpCount := Suc (nOpCount st), stack := s\<rparr>))"
    "eval_loop E (0x87 # pc) st = ebind (op_EQUAL OP_EQUAL (stack st)) (\<lambda>s.
      if length s + length (altstack st) > MAX_STACK_SIZE then Inl SCRIPT_ERR_STACK_SIZE
      else eval_loop E pc (st\<lparr>nOpCount := Suc (nOpCount st), stack := s\<rparr>))"
    "eval_loop E (0x88 # pc) st = ebind (op_EQUAL OP_EQUALVERIFY (stack st)) (\<lambda>s.
      if length s + length (altstack st) > MAX_STACK_SIZE then Inl SCRIPT_ERR_STACK_SIZE
      else eval_loop E pc (st\<lparr>nOpCount := Suc (nOpCount st), stack := s\<rparr>))"
    "eval_loop E (0xac # pc) st = ebind (op_CHECKSIG E OP_CHECKSIG (st\<lparr>nOpCount := Suc (nOpCount st)\<rparr>)) (\<lambda>st'.
      if length (stack st') + length (altstack st') > MAX_STACK_SIZE then Inl SCRIPT_ERR_STACK_SIZE else eval_loop E pc st')"
  using assms
  by (simp_all add: eval_loop_op [of _ OP_CHECKSIG] eval_loop_stack_op [of _ OP_DUP E _ op_DUP]
      eval_loop_stack_op [of _ OP_HASH160 E _ "op_hash OP_HASH160"] eval_loop_stack_op [of _ OP_EQUAL E _ "op_EQUAL OP_EQUAL"]
      eval_loop_stack_op [of _ OP_EQUALVERIFY E _ "op_EQUAL OP_EQUALVERIFY"]
      disabled_opcode_def exec_opcode_def exec_stack_op_def MAX_OPS_PER_SCRIPT_def)

lemma EvalScript_p2sh:
  assumes "length h = 20"
  shows "EvalScript E (p2sh_script h) stk = Inr r \<longleftrightarrow>
    (\<exists>x rest. stk = x # rest \<and> length stk < MAX_STACK_SIZE \<and> r = vchBool (hash160 x = h) # rest)"
  unfolding EvalScript_def p2sh_script_def using assms
  by (cases stk) (auto simp: eval_loop_templates eval_loop_push op_hash_def op_EQUAL_def run_limits Let_def)

text \<open>A signature operation that succeeds, on a signature \<open>sig\<close> and a key \<open>pk\<close> over the code \<open>code\<close>.\<close>

definition checksig_ok :: "script_env \<Rightarrow> valtype \<Rightarrow> valtype \<Rightarrow> CScript \<Rightarrow> bool" where
  "checksig_ok E sig pk code \<longleftrightarrow> CheckSignatureEncoding E sig = Inr () \<and> CheckPubKeyEncoding E pk = Inr () \<and>
     CheckSig (checker E) sig pk (drop_sig E sig code) (sigversion E)"

lemma op_CHECKSIG_true:
  "op_CHECKSIG E OP_CHECKSIG st = Inr st' \<and> CastToBool (hd (stack st')) \<longleftrightarrow>
     (\<exists>pk sig rest. stack st = pk # sig # rest \<and> checksig_ok E sig pk (pbegincodehash st) \<and> st' = st\<lparr>stack := [1] # rest\<rparr>)"
  by (cases "stack st" rule: list.exhaust; cases "tl (stack st)" rule: list.exhaust)
    (auto simp: op_CHECKSIG_def checksig_ok_def ebind_eq_Inr vchBool_def Let_def)

lemma EvalScript_p2pkh_run:
  assumes "length h = 20"
  shows "EvalScript E (p2pkh_script h) (pk # rest) = Inr r \<longleftrightarrow>
    length rest + 3 \<le> MAX_STACK_SIZE \<and> hash160 pk = h \<and>
    (\<exists>st'. op_CHECKSIG E OP_CHECKSIG
        \<lparr>stack = pk # rest, altstack = [], vfExec = [], nOpCount = Suc (Suc (Suc (Suc 0))), pbegincodehash = p2pkh_script h\<rparr> = Inr st' \<and>
      length (stack st') + length (altstack st') \<le> MAX_STACK_SIZE \<and> vfExec st' = [] \<and> r = stack st')"
proof -
  have l: "length (p2pkh_script h) \<le> MAX_SCRIPT_SIZE" using assms by (simp add: p2pkh_script_def MAX_SCRIPT_SIZE_def)
  show ?thesis
    unfolding EvalScript_def using l assms
    by (subst (2) p2pkh_script_def)
      (auto simp: eval_loop_templates eval_loop_push op_hash_def op_EQUAL_def op_DUP_def run_limits Let_def
        ebind_eq_Inr if_Inl_eq_Inr not_less split: if_splits)
qed

lemma EvalScript_p2pkh:
  assumes "length h = 20"
  shows "EvalScript E (p2pkh_script h) stk = Inr r \<and> CastToBool (hd r) \<longleftrightarrow>
    (\<exists>pk sig rest. stk = pk # sig # rest \<and> length stk + 2 \<le> MAX_STACK_SIZE \<and> hash160 pk = h \<and>
       checksig_ok E sig pk (p2pkh_script h) \<and> r = [1] # rest)"
proof (cases stk)
  case Nil
  have "length (p2pkh_script h) \<le> MAX_SCRIPT_SIZE" using assms by (simp add: p2pkh_script_def MAX_SCRIPT_SIZE_def)
  then have "EvalScript E (p2pkh_script h) [] \<noteq> Inr r" 
    by (simp add: EvalScript_def) (simp add: p2pkh_script_def eval_loop_templates op_DUP_def)
  with Nil show ?thesis by simp
next
  case (Cons pk rest)
  let ?S = "\<lparr>stack = pk # rest, altstack = [], vfExec = [], nOpCount = Suc (Suc (Suc (Suc 0))), pbegincodehash = p2pkh_script h\<rparr>"
  have "EvalScript E (p2pkh_script h) stk = Inr r \<and> CastToBool (hd r) \<longleftrightarrow>
      length rest + 3 \<le> MAX_STACK_SIZE \<and> hash160 pk = h \<and>
      (\<exists>st'. (op_CHECKSIG E OP_CHECKSIG ?S = Inr st' \<and> CastToBool (hd (stack st'))) \<and>
        length (stack st') + length (altstack st') \<le> MAX_STACK_SIZE \<and> vfExec st' = [] \<and> r = stack st')"
    unfolding Cons EvalScript_p2pkh_run [OF assms] by blast
  then show ?thesis unfolding op_CHECKSIG_true by (auto simp: Cons)
qed

section \<open>Assertions\<close>

lemma lift_err_simps [simp]: "lift_err m = Inr v \<longleftrightarrow> m = Inr v" "lift_err m \<noteq> Inl Assertion"
  by (auto simp: lift_err_def split: sum.splits)

lemma check_top_simps [simp]: "check_top stk = Inr u \<longleftrightarrow> stk \<noteq> [] \<and> CastToBool (hd stk)" "check_top stk \<noteq> Inl Assertion"
  by (auto simp: check_top_def)

lemma verify_p2sh_no_assert:
  assumes "IsPayToScriptHash sPubKey \<Longrightarrow> stackCopy \<noteq> []"
  shows "verify_p2sh F chk lowS sSig sPubKey witness stackCopy r \<noteq> Inl Assertion"
  using assms by (auto simp: verify_p2sh_def verify_p2sh_witness_def ebind_eq_Inl split: prod.splits if_splits list.splits option.splits)

lemma verify_final_no_assert:
  "SCRIPT_VERIFY_P2SH \<in> F \<or> SCRIPT_VERIFY_WITNESS \<notin> F \<Longrightarrow> SCRIPT_VERIFY_WITNESS \<in> F \<or> SCRIPT_VERIFY_CLEANSTACK \<notin> F \<Longrightarrow>
     verify_final F witness r \<noteq> Inl Assertion"
  by (auto simp: verify_final_def ebind_eq_Inl split: prod.splits if_splits)

text \<open>
  C7. No input makes \<open>VerifyScript\<close> abort the node: where the flags are consistent (\<open>WITNESS\<close> comes with \<open>P2SH\<close>,
  \<open>CLEANSTACK\<close> with \<open>WITNESS\<close>), no assertion fails, whatever the scripts and the witness.  In particular
  the stack the code pops the redeem script from is never empty.
\<close>

theorem VerifyScript_no_assert:
  assumes "SCRIPT_VERIFY_WITNESS \<in> F \<Longrightarrow> SCRIPT_VERIFY_P2SH \<in> F" "SCRIPT_VERIFY_CLEANSTACK \<in> F \<Longrightarrow> SCRIPT_VERIFY_WITNESS \<in> F"
  shows "VerifyScript sSig sPubKey witness F chk lowS \<noteq> Inl Assertion"
proof -
  let ?F = "if SCRIPT_ENABLE_SIGHASH_FORKID \<in> F then insert SCRIPT_VERIFY_STRICTENC F else F"
  have f: "SCRIPT_VERIFY_P2SH \<in> ?F \<or> SCRIPT_VERIFY_WITNESS \<notin> ?F" "SCRIPT_VERIFY_WITNESS \<in> ?F \<or> SCRIPT_VERIFY_CLEANSTACK \<notin> ?F"
    using assms by auto
  have b: "verify_bare_witness ?F chk lowS sSig sPubKey witness stk \<noteq> Inl Assertion" for stk
    by (auto simp: verify_bare_witness_def ebind_eq_Inl split: prod.splits option.splits)
  have p: "stackCopy \<noteq> []" if "EvalScript E sPubKey stackCopy = Inr stk" "IsPayToScriptHash sPubKey" for E stackCopy stk
    using that EvalScript_p2sh by (auto simp: IsPayToScriptHash_iff)
  show ?thesis
    unfolding VerifyScript_def Let_def
    using b verify_p2sh_no_assert [OF p] verify_final_no_assert [OF f] by (auto simp: ebind_eq_Inl)
qed

theorem VerifyScript_no_assert_witness:
  "VerifyScript [] [0xa9, 0x14] [] {SCRIPT_VERIFY_P2SH, SCRIPT_VERIFY_WITNESS, SCRIPT_VERIFY_CLEANSTACK} BaseSignatureChecker (\<lambda>_. False)
    \<noteq> Inl Assertion"
  by (rule VerifyScript_no_assert) simp_all

section \<open>Spending the standard templates\<close>

lemma VerifyScript_evals:
  assumes "VerifyScript sSig sPubKey witness F chk lowS = Inr ()"
    "F' = (if SCRIPT_ENABLE_SIGHASH_FORKID \<in> F then insert SCRIPT_VERIFY_STRICTENC F else F)"
  obtains stk r where "EvalScript (eval_env F' chk lowS SIGVERSION_BASE) sSig [] = Inr stk"
    "EvalScript (eval_env F' chk lowS SIGVERSION_BASE) sPubKey stk = Inr r" "r \<noteq> []" "CastToBool (hd r)"
    "\<exists>r1 r2. verify_bare_witness F' chk lowS sSig sPubKey witness r = Inr r1 \<and>
       verify_p2sh F' chk lowS sSig sPubKey witness stk r1 = Inr r2 \<and> verify_final F' witness r2 = Inr ()"
  using assms unfolding VerifyScript_def Let_def by (auto simp: ebind_eq_Inr if_Inl_eq_Inr)

lemma VerifyScript_p2pkh:
  assumes "VerifyScript sSig (p2pkh_script h) witness F chk lowS = Inr ()" "length h = 20"
  shows "\<exists>pk sig. hash160 pk = h \<and>
    CheckSig chk sig pk (fst (FindAndDelete (p2pkh_script h) (push_data sig))) SIGVERSION_BASE"
proof -
  obtain F' stk r where "EvalScript (eval_env F' chk lowS SIGVERSION_BASE) (p2pkh_script h) stk = Inr r" "CastToBool (hd r)"
    using VerifyScript_evals [OF assms(1) refl] by metis
  then show ?thesis using EvalScript_p2pkh [OF assms(2), of _ stk r]
    by (auto simp: checksig_ok_def eval_env_def drop_sig_def)
qed

text \<open>
  C1. A pay-to-public-key-hash output is spent only with its key: whatever the spending script, verification of the
  output's script against input \<open>nIn\<close> of a transaction succeeds only if there is a well-formed public key
  with that hash and a signature the elliptic-curve check accepts for this key on the signature hash
  of this transaction, this input and this script, the signature itself removed from it.
\<close>

theorem p2pkh_spend_needs_signature:
  assumes "VerifyScript sSig sPubKey witness F (TransactionSignatureChecker C) lowS = Inr ()" "IsPayToPublicKeyHash sPubKey"
  shows "\<exists>pk sig sighash. sPubKey = p2pkh_script (hash160 pk) \<and> CPubKey pk = Some pk \<and> sig \<noteq> [] \<and>
    SignatureHash (fst (FindAndDelete sPubKey (push_data sig))) (ck_txTo C) (ck_nIn C) (ucast (last sig)) (ck_amount C)
      SIGVERSION_BASE (ck_txdata C) = Some sighash \<and>
    ck_Verify C pk sighash (butlast sig)"
proof -
  obtain h where h: "length h = 20" "sPubKey = p2pkh_script h" using assms(2) by (auto simp: IsPayToPublicKeyHash_iff)
  obtain pk sig where "hash160 pk = h"
    "tx_CheckSig C sig pk (fst (FindAndDelete sPubKey (push_data sig))) SIGVERSION_BASE"
    using VerifyScript_p2pkh [OF assms(1) [unfolded h(2)] h(1)] by (auto simp: TransactionSignatureChecker_def h(2))
  then show ?thesis
    by (intro exI [of _ pk] exI [of _ sig])
      (auto simp: tx_CheckSig_def CPubKey_def h(2) Let_def split: option.splits if_splits)
qed

lemma EvalScript_sig_key:
  assumes "2 \<le> length sig" "length sig < OP_PUSHDATA1" "2 \<le> length pk" "length pk < OP_PUSHDATA1"
  shows "EvalScript E (push_data sig @ push_data pk) [] = Inr [pk, sig]"
proof -
  have "eval_loop E (push_data sig @ push_data pk) \<lparr>stack = [], altstack = [], vfExec = [], nOpCount = 0, pbegincodehash = code\<rparr>
      = Inr \<lparr>stack = [pk, sig], altstack = [], vfExec = [], nOpCount = 0, pbegincodehash = code\<rparr>" for code
    using assms eval_loop_push [of "of_nat (length sig)" sig _ E "push_data pk"] eval_loop_push [of "of_nat (length pk)" pk _ E "[]"]
    by (simp add: push_data_def unat_of_nat MAX_STACK_SIZE_def)
  then show ?thesis using assms by (simp add: EvalScript_def push_data_def MAX_SCRIPT_SIZE_def)
qed

text \<open>The ordinary way to spend such an output.\<close>

lemma VerifyScript_p2pkh_good:
  assumes "2 \<le> length sig" "length sig < OP_PUSHDATA1" "2 \<le> length pk" "length pk < OP_PUSHDATA1"
    "checksig_ok (eval_env F chk lowS SIGVERSION_BASE) sig pk (p2pkh_script (hash160 pk))"
    "SCRIPT_ENABLE_SIGHASH_FORKID \<notin> F" "F \<subseteq> {SCRIPT_VERIFY_P2SH, SCRIPT_VERIFY_STRICTENC, SCRIPT_VERIFY_DERSIG, SCRIPT_VERIFY_LOW_S,
      SCRIPT_VERIFY_NULLDUMMY, SCRIPT_VERIFY_MINIMALDATA, SCRIPT_VERIFY_NULLFAIL}"
  shows "VerifyScript (push_data sig @ push_data pk) (p2pkh_script (hash160 pk)) [] F chk lowS = Inr ()"
proof -
  let ?E = "eval_env F chk lowS SIGVERSION_BASE" and ?s = "p2pkh_script (hash160 pk)"
  have "EvalScript ?E ?s [pk, sig] = Inr [[1]] \<and> CastToBool (hd [[1]])"
    unfolding EvalScript_p2pkh [OF length_hashes(5)] using assms(5) by (auto simp: MAX_STACK_SIZE_def)
  moreover have "\<not> IsPayToScriptHash ?s" by (simp add: IsPayToScriptHash_def p2pkh_script_def)
  moreover have "SCRIPT_VERIFY_SIGPUSHONLY \<notin> F" "SCRIPT_VERIFY_WITNESS \<notin> F" "SCRIPT_VERIFY_CLEANSTACK \<notin> F"
    using assms(7) by auto
  ultimately show ?thesis
    using EvalScript_sig_key [OF assms(1-4), of ?E] assms(6)
    by (simp add: VerifyScript_def lift_err_def verify_bare_witness_def verify_p2sh_def verify_final_def check_top_def Let_def)
qed

theorem p2pkh_spend_needs_signature_witness:
  "\<exists>C sSig sPubKey. VerifyScript sSig sPubKey [] {} (TransactionSignatureChecker C) (\<lambda>_. False) = Inr () \<and>
    IsPayToPublicKeyHash sPubKey \<and> (\<exists>pk. sPubKey = p2pkh_script (hash160 pk))"
proof -
  let ?tx = "\<lparr>vin = [\<lparr>prevout = COutPoint_null, scriptSig = [], nSequence = 7, scriptWitness = []\<rparr>],
      vout = [], nVersion = 2, nLockTime = 9\<rparr>"
  let ?C = "\<lparr>ck_txTo = ?tx, ck_nIn = 0, ck_amount = 0, ck_txdata = None, ck_Verify = (\<lambda>k h s. s = [5])\<rparr>"
  let ?pk = "2 # replicate 32 0" and ?sig = "[5, 1]"
  let ?chk = "TransactionSignatureChecker ?C"
  have "checksig_ok (eval_env {} ?chk (\<lambda>_. False) SIGVERSION_BASE) ?sig ?pk (p2pkh_script (hash160 ?pk))"
    by (simp add: checksig_ok_def eval_env_def CheckSignatureEncoding_def CheckPubKeyEncoding_def TransactionSignatureChecker_def
        tx_CheckSig_def CPubKey_def GetLen_def SignatureHash_def)
  then have v: "VerifyScript (push_data ?sig @ push_data ?pk) (p2pkh_script (hash160 ?pk)) [] {} ?chk (\<lambda>_. False) = Inr ()"
    by (intro VerifyScript_p2pkh_good) simp_all
  have i: "IsPayToPublicKeyHash (p2pkh_script (hash160 ?pk))" unfolding IsPayToPublicKeyHash_iff by (rule exI [of _ "hash160 ?pk"]) simp
  from p2pkh_spend_needs_signature [OF v i] v i show ?thesis by blast
qed

text \<open>
  C9. A pay-to-script-hash output is spent only with its script: under the \<open>P2SH\<close> flag, verification succeeds only if the
  spending script just pushes data, and what it pushes last is a script with that hash, which itself evaluates
  to true on the data pushed before it.
\<close>

theorem p2sh_spend_needs_script:
  assumes "VerifyScript sSig sPubKey witness F chk lowS = Inr ()" "IsPayToScriptHash sPubKey" "SCRIPT_VERIFY_P2SH \<in> F"
  shows "\<exists>redeem stk r E. IsPushOnly sSig \<and> sPubKey = p2sh_script (hash160 redeem) \<and> checker E = chk \<and> F \<subseteq> flags E \<and>
    EvalScript E sSig [] = Inr (redeem # stk) \<and> EvalScript E redeem stk = Inr r \<and> r \<noteq> [] \<and> CastToBool (hd r)"
proof -
  obtain h where h: "length h = 20" "sPubKey = p2sh_script h" using assms(2) by (auto simp: IsPayToScriptHash_iff)
  obtain F' where F': "F' = (if SCRIPT_ENABLE_SIGHASH_FORKID \<in> F then insert SCRIPT_VERIFY_STRICTENC F else F)" by blast
  let ?E = "eval_env F' chk lowS SIGVERSION_BASE"
  have f: "SCRIPT_VERIFY_P2SH \<in> F'" "F \<subseteq> F'" using assms(3) F' by auto
  obtain stk r r1 r2 where e: "EvalScript ?E sSig [] = Inr stk" "EvalScript ?E sPubKey stk = Inr r" "r \<noteq> []" "CastToBool (hd r)"
    "verify_p2sh F' chk lowS sSig sPubKey witness stk r1 = Inr r2"
    using VerifyScript_evals [OF assms(1) F'] by metis
  from e(2) obtain x rest where x: "stk = x # rest" "r = vchBool (hash160 x = h) # rest"
    unfolding h(2) EvalScript_p2sh [OF h(1)] by blast
  with e(4) have "hash160 x = h" by (auto simp: vchBool_def split: if_splits)
  moreover from e(5) x(1) assms(2) f(1) obtain s where "IsPushOnly sSig" "EvalScript ?E x rest = Inr s" "s \<noteq> []" "CastToBool (hd s)"
    by (auto simp: verify_p2sh_def ebind_eq_Inr if_Inl_eq_Inr split: prod.splits)
  moreover have "checker ?E = chk" "F \<subseteq> flags ?E" using f(2) by (simp_all add: eval_env_def)
  ultimately show ?thesis using e(1) x(1) h(2) by blast
qed

theorem p2sh_spend_needs_script_witness:
  "\<exists>sPubKey. VerifyScript [0x01, 0x51] sPubKey [] {SCRIPT_VERIFY_P2SH} BaseSignatureChecker (\<lambda>_. False) = Inr () \<and>
    IsPayToScriptHash sPubKey \<and> (\<exists>redeem. sPubKey = p2sh_script (hash160 redeem))"
proof -
  let ?F = "{SCRIPT_VERIFY_P2SH}" and ?s = "p2sh_script (hash160 [0x51])"
  let ?E = "eval_env ?F BaseSignatureChecker (\<lambda>_. False) SIGVERSION_BASE"
  have i: "IsPayToScriptHash ?s" unfolding IsPayToScriptHash_iff by (rule exI [of _ "hash160 [0x51]"]) simp
  have e1: "EvalScript ?E [0x01, 0x51] [] = Inr [[0x51]]" by (simp add: EvalScript_def run_simps eval_env_def)
  have e2: "EvalScript ?E ?s [[0x51]] = Inr [[1]]"
    unfolding EvalScript_p2sh [OF length_hashes(5)] by (simp add: vchBool_def MAX_STACK_SIZE_def)
  have "scriptnum_serialize 1 = [1]" by code_simp
  then have e3: "EvalScript ?E [0x51] [] = Inr [[1]]"
    by (simp add: EvalScript_def run_simps eval_env_def op_push_number_def)
  have p: "IsPushOnly [0x01, 0x51]" by (simp add: IsPushOnly.simps GetOp2_def push_size_def)
  have v: "VerifyScript [0x01, 0x51] ?s [] ?F BaseSignatureChecker (\<lambda>_. False) = Inr ()"
    by (simp add: VerifyScript_def lift_err_def e1 e2 e3 i p verify_bare_witness_def verify_p2sh_def verify_p2sh_witness_def
        verify_final_def check_top_def Let_def)
  from p2sh_spend_needs_script [OF v i] v i show ?thesis by blast
qed

text \<open>A version 0 witness program: \<open>OP_0\<close> and a push of the program.\<close>

lemma eval_loop_push0:
  assumes "vfExec st = []"
  shows "eval_loop E (0 # pc) st =
    (if length (stack st) + 1 + length (altstack st) > MAX_STACK_SIZE then Inl SCRIPT_ERR_STACK_SIZE
     else eval_loop E pc (st\<lparr>stack := [] # stack st\<rparr>))"
  using assms by (subst eval_loop.simps)
    (simp add: eval_step_def GetOp2_def push_size_def count_op_def disabled_opcode_def CheckMinimalPush_def)

lemma EvalScript_p2wpkh:
  "length program = 20 \<Longrightarrow> EvalScript E (0x00 # 0x14 # program) [] = Inr [program, []]"
  using eval_loop_push [of "0x14" program _ E "[]"]
  by (simp add: EvalScript_def eval_loop_push0 run_limits)

lemma p2pkh_script_built:
  "length h = 20 \<Longrightarrow> push_opcode OP_DUP @ push_opcode OP_HASH160 @ push_data h @ push_opcode OP_EQUALVERIFY @
     push_opcode OP_CHECKSIG = p2pkh_script h"
  by (simp add: push_opcode_def push_data_def p2pkh_script_def)

lemma VerifyWitnessProgram_keyhash:
  assumes "length program = 20"
  shows "VerifyWitnessProgram witness 0 program F chk lowS = Inr () \<longleftrightarrow>
    (\<exists>sig pk. witness = [sig, pk] \<and> length sig \<le> MAX_SCRIPT_ELEMENT_SIZE \<and> length pk \<le> MAX_SCRIPT_ELEMENT_SIZE \<and>
       hash160 pk = program \<and> checksig_ok (eval_env F chk lowS SIGVERSION_WITNESS_V0) sig pk (p2pkh_script program))"
proof (cases "\<exists>sig pk. witness = [sig, pk]")
  case True
  then obtain sig pk where w: "witness = [sig, pk]" by blast
  let ?E = "eval_env F chk lowS SIGVERSION_WITNESS_V0"
  have "VerifyWitnessProgram witness 0 program F chk lowS = Inr () \<longleftrightarrow>
      length sig \<le> MAX_SCRIPT_ELEMENT_SIZE \<and> length pk \<le> MAX_SCRIPT_ELEMENT_SIZE \<and>
      (\<exists>r. (EvalScript ?E (p2pkh_script program) [pk, sig] = Inr r \<and> CastToBool (hd r)) \<and> length r = 1)"
    using assms by (auto simp: VerifyWitnessProgram_def witness_script_def w p2pkh_script_built ebind_eq_Inr)
  then show ?thesis unfolding EvalScript_p2pkh [OF assms] by (auto simp: w MAX_STACK_SIZE_def)
next
  case False
  then have "length witness \<noteq> 2" by (cases witness rule: list.exhaust; cases "tl witness" rule: list.exhaust) auto
  with False assms show ?thesis by (auto simp: VerifyWitnessProgram_def witness_script_def)
qed



section \<open>Soft forks\<close>

lemma err_le_lift [err_le_intros]: "err_le m' m \<Longrightarrow> err_le (lift_err m') (lift_err m)"
  by (auto simp: err_le_def)

lemma err_le_option [err_le_intros]:
  "err_le a' a \<Longrightarrow> (\<And>x. err_le (f' x) (f x)) \<Longrightarrow> err_le (case q of None \<Rightarrow> a' | Some x \<Rightarrow> f' x) (case q of None \<Rightarrow> a | Some x \<Rightarrow> f x)"
  by (cases q) simp_all

lemma err_le_prod [err_le_intros]:
  "(\<And>x y. err_le (f' x y) (f x y)) \<Longrightarrow> err_le (case q of (x, y) \<Rightarrow> f' x y) (case q of (x, y) \<Rightarrow> f x y)"
  by (cases q) simp

text \<open>Flags \<open>F\<close> and \<open>F'\<close> such that going from \<open>F\<close> to \<open>F'\<close> is a soft fork.\<close>

definition softfork :: "script_flags \<Rightarrow> script_flags \<Rightarrow> bool" where
  "softfork F F' \<longleftrightarrow> F \<subseteq> F' \<and> (SCRIPT_ENABLE_SIGHASH_FORKID \<in> F \<longleftrightarrow> SCRIPT_ENABLE_SIGHASH_FORKID \<in> F') \<and>
     SCRIPT_VERIFY_DISCOURAGE_UPGRADABLE_NOPS \<notin> F \<and>
     (SCRIPT_VERIFY_WITNESS \<in> F \<longrightarrow> SCRIPT_VERIFY_P2SH \<in> F) \<and> (SCRIPT_VERIFY_CLEANSTACK \<in> F \<longrightarrow> SCRIPT_VERIFY_WITNESS \<in> F)"

lemma softfork_env: "softfork F F' \<Longrightarrow> weaker_env (eval_env F chk lowS sv) (eval_env F' chk lowS sv)"
  by (simp add: softfork_def weaker_env_def eval_env_def)

lemma softfork_eval [err_le_intros]:
  "softfork F F' \<Longrightarrow> err_le (EvalScript (eval_env F' chk lowS sv) s stk) (EvalScript (eval_env F chk lowS sv) s stk)"
  by (intro weaker_EvalScript softfork_env)

lemma softfork_witness [err_le_intros]:
  assumes "softfork F F'"
  shows "err_le (VerifyWitnessProgram w v p F' chk lowS) (VerifyWitnessProgram w v p F chk lowS)"
  unfolding VerifyWitnessProgram_def
  by (intro err_le_if err_le_bind err_le_prod err_le_refl softfork_eval assms err_le_guard) (use assms in \<open>auto simp: softfork_def\<close>)

text \<open>The state after the stages agrees on \<open>hadWitness\<close> where witnesses are checked and on the stack where that is.\<close>

definition same_result :: "script_flags \<Rightarrow> bool \<times> valtype list \<Rightarrow> bool \<times> valtype list \<Rightarrow> bool" where
  "same_result F r' r \<longleftrightarrow> (SCRIPT_VERIFY_WITNESS \<in> F \<longrightarrow> r' = r)"

lemma softfork_bare:
  assumes "softfork F F'" "verify_bare_witness F' chk lowS sSig sPubKey w stk = Inr r'"
  obtains r where "verify_bare_witness F chk lowS sSig sPubKey w stk = Inr r" "same_result F r' r"
proof (cases "SCRIPT_VERIFY_WITNESS \<in> F")
  case True
  then have "SCRIPT_VERIFY_WITNESS \<in> F'" using assms(1) by (auto simp: softfork_def)
  with True have "err_le (verify_bare_witness F' chk lowS sSig sPubKey w stk) (verify_bare_witness F chk lowS sSig sPubKey w stk)"
    unfolding verify_bare_witness_def by simp (intro err_le_intros assms(1))
  from err_leD [OF this assms(2)] that show thesis by (simp add: same_result_def)
next
  case False
  with that show thesis by (simp add: verify_bare_witness_def same_result_def)
qed

lemma softfork_p2sh_witness:
  assumes "softfork F F'" "verify_p2sh_witness F' chk lowS sSig s2 w r' = Inr q'" "same_result F r' r"
  obtains q where "verify_p2sh_witness F chk lowS sSig s2 w r = Inr q" "same_result F q' q"
proof (cases "SCRIPT_VERIFY_WITNESS \<in> F")
  case True
  then have "SCRIPT_VERIFY_WITNESS \<in> F'" "r' = r" using assms(1,3) by (auto simp: softfork_def same_result_def)
  with True have "err_le (verify_p2sh_witness F' chk lowS sSig s2 w r') (verify_p2sh_witness F chk lowS sSig s2 w r)"
    unfolding verify_p2sh_witness_def by simp (intro err_le_intros assms(1))
  from err_leD [OF this assms(2)] that show thesis by (simp add: same_result_def)
next
  case False
  with that show thesis by (cases r) (simp add: verify_p2sh_witness_def same_result_def)
qed

lemma softfork_p2sh:
  assumes "softfork F F'" "verify_p2sh F' chk lowS sSig sPubKey w stk0 r' = Inr q'" "same_result F r' r"
  obtains q where "verify_p2sh F chk lowS sSig sPubKey w stk0 r = Inr q" "same_result F q' q"
proof (cases "SCRIPT_VERIFY_P2SH \<in> F \<and> IsPayToScriptHash sPubKey")
  case True
  obtain h' s' h s where r: "r' = (h', s')" "r = (h, s)" by (cases r'; cases r) auto
  from True assms(1) have "SCRIPT_VERIFY_P2SH \<in> F'" by (auto simp: softfork_def)
  with assms(2) True obtain s2 stk1 stk2 where e: "IsPushOnly sSig" "stk0 = s2 # stk1"
    "EvalScript (eval_env F' chk lowS SIGVERSION_BASE) s2 stk1 = Inr stk2" "stk2 \<noteq> []" "CastToBool (hd stk2)"
    "verify_p2sh_witness F' chk lowS sSig s2 w (h', stk2) = Inr q'"
    by (auto simp: verify_p2sh_def r ebind_eq_Inr if_Inl_eq_Inr split: list.splits)
  have "same_result F (h', stk2) (h, stk2)" using assms(3) by (auto simp: same_result_def r)
  from softfork_p2sh_witness [OF assms(1) e(6) this] obtain q where
    q: "verify_p2sh_witness F chk lowS sSig s2 w (h, stk2) = Inr q" "same_result F q' q" .
  have "EvalScript (eval_env F chk lowS SIGVERSION_BASE) s2 stk1 = Inr stk2"
    using err_leD [OF softfork_eval [OF assms(1)] e(3)] .
  with True e q that show thesis by (auto simp: verify_p2sh_def r ebind_eq_Inr)
next
  case False
  then have "verify_p2sh F chk lowS sSig sPubKey w stk0 r = Inr r" by (cases r) (auto simp: verify_p2sh_def)
  moreover have "same_result F q' r"
  proof (cases "SCRIPT_VERIFY_WITNESS \<in> F")
    case True
    with False assms(1) have "\<not> IsPayToScriptHash sPubKey" by (auto simp: softfork_def)
    with assms(2,3) show ?thesis by (cases r') (simp add: verify_p2sh_def)
  qed (simp add: same_result_def)
  ultimately show thesis by (rule that)
qed

lemma softfork_final:
  assumes "softfork F F'" "verify_final F' w q' = Inr ()" "same_result F q' q"
  shows "verify_final F w q = Inr ()"
proof (cases "SCRIPT_VERIFY_WITNESS \<in> F")
  case True
  with assms have "q' = q" "SCRIPT_VERIFY_WITNESS \<in> F'" "SCRIPT_VERIFY_P2SH \<in> F" by (auto simp: softfork_def same_result_def)
  with assms True show ?thesis
    by (cases q) (auto simp: verify_final_def ebind_eq_Inr softfork_def split: if_splits)
next
  case False
  with assms(1) show ?thesis by (cases q) (auto simp: verify_final_def softfork_def)
qed

lemma softfork_effective:
  "softfork F F' \<Longrightarrow> softfork (if SCRIPT_ENABLE_SIGHASH_FORKID \<in> F then insert SCRIPT_VERIFY_STRICTENC F else F)
     (if SCRIPT_ENABLE_SIGHASH_FORKID \<in> F' then insert SCRIPT_VERIFY_STRICTENC F' else F')"
  by (auto simp: softfork_def)



end
