(* ===== verification/Lru_Cache.thy ===== *)
theory Lru_Cache
  imports Avian_Prelude "HOL-Library.Multiset"
begin

text \<open>
  The bounded cache of \<^verbatim>\<open>src/unordered_lru_cache.h\<close>.  The \<open>unordered_map\<close> is an association list, whose order
  no operation depends on; \<open>accessCounter\<close>, an \<open>int64_t\<close> that grows by one at each access, is a natural number.

  The locale \<open>lossy_map\<close> is what users of a cache may rely on: a lookup returns the value last stored under the key,
  or nothing.  Inside it a map that only ever receives pairs of a relation is shown to hold only such pairs.
\<close>

section \<open>The class\<close>

record ('k, 'v) unordered_lru_cache =
  cacheMap :: "('k \<times> 'v \<times> nat) list"
  maxSize :: nat
  truncateThreshold :: nat
  accessCounter :: nat

text \<open>\<open>None\<close>: the assertion on the size fails.\<close>

definition lru_new :: "nat \<Rightarrow> nat \<Rightarrow> ('k, 'v) unordered_lru_cache option" where
  "lru_new maxSize' truncateThreshold' =
     (if maxSize' = 0 then None
      else Some \<lparr>cacheMap = [], maxSize = maxSize',
                 truncateThreshold = (if truncateThreshold' = 0 then maxSize' * 2 else truncateThreshold'), accessCounter = 0\<rparr>)"

definition truncate_if_needed :: "('k, 'v) unordered_lru_cache \<Rightarrow> ('k, 'v) unordered_lru_cache" where
  "truncate_if_needed c =
     (if length (cacheMap c) \<le> truncateThreshold c then c
      else c\<lparr>cacheMap := take (maxSize c) (rev (sort_key (\<lambda>(k, v, t). t) (cacheMap c)))\<rparr>)"

text \<open>The entry of a key replaced in place.\<close>

fun set_entry :: "'k \<Rightarrow> ('v \<Rightarrow> nat \<Rightarrow> 'v \<times> nat) \<Rightarrow> ('k \<times> 'v \<times> nat) list \<Rightarrow> ('k \<times> 'v \<times> nat) list" where
  "set_entry key f [] = []"
| "set_entry key f ((k, v, t) # m) = (if k = key then (k, f v t) # m else (k, v, t) # set_entry key f m)"

definition lru_emplace :: "'k \<Rightarrow> 'v \<Rightarrow> ('k, 'v) unordered_lru_cache \<Rightarrow> ('k, 'v) unordered_lru_cache" where
  "lru_emplace key v c0 =
     (let c = truncate_if_needed c0 in
      case map_of (cacheMap c) key of
        None \<Rightarrow> c\<lparr>cacheMap := (key, v, accessCounter c) # cacheMap c, accessCounter := accessCounter c + 1\<rparr>
      | Some _ \<Rightarrow> c\<lparr>cacheMap := set_entry key (\<lambda>_ _. (v, accessCounter c)) (cacheMap c), accessCounter := accessCounter c + 1\<rparr>)"

definition lru_get :: "'k \<Rightarrow> ('k, 'v) unordered_lru_cache \<Rightarrow> 'v option \<times> ('k, 'v) unordered_lru_cache" where
  "lru_get key c =
     (case map_of (cacheMap c) key of
        Some (v, t) \<Rightarrow> (Some v, c\<lparr>cacheMap := set_entry key (\<lambda>v _. (v, accessCounter c)) (cacheMap c), accessCounter := accessCounter c + 1\<rparr>)
      | None \<Rightarrow> (None, c))"

definition lru_exists :: "'k \<Rightarrow> ('k, 'v) unordered_lru_cache \<Rightarrow> bool \<times> ('k, 'v) unordered_lru_cache" where
  "lru_exists key c = (case lru_get key c of (r, c) \<Rightarrow> (r \<noteq> None, c))"

definition lru_erase :: "'k \<Rightarrow> ('k, 'v) unordered_lru_cache \<Rightarrow> ('k, 'v) unordered_lru_cache" where
  "lru_erase key c = c\<lparr>cacheMap := filter (\<lambda>(k, _). k \<noteq> key) (cacheMap c)\<rparr>"

definition lru_clear :: "('k, 'v) unordered_lru_cache \<Rightarrow> ('k, 'v) unordered_lru_cache" where
  "lru_clear c = c\<lparr>cacheMap := []\<rparr>"

definition lru_setMaxSize :: "nat \<Rightarrow> nat \<Rightarrow> ('k, 'v) unordered_lru_cache \<Rightarrow> ('k, 'v) unordered_lru_cache option" where
  "lru_setMaxSize maxSize' truncateThreshold' c =
     (if maxSize' = 0 then None
      else Some (c\<lparr>maxSize := maxSize',
                   truncateThreshold := (if truncateThreshold' = 0 then maxSize' * 2 else truncateThreshold')\<rparr>))"

text \<open>What the cache holds, and the stamp of each entry.\<close>

definition lru_lookup :: "('k, 'v) unordered_lru_cache \<Rightarrow> 'k \<Rightarrow> 'v option" where
  "lru_lookup c key = map_option fst (map_of (cacheMap c) key)"

definition lru_stamp :: "('k, 'v) unordered_lru_cache \<Rightarrow> 'k \<Rightarrow> nat option" where
  "lru_stamp c key = map_option snd (map_of (cacheMap c) key)"

section \<open>Invariant\<close>

definition lru_inv :: "('k, 'v) unordered_lru_cache \<Rightarrow> bool" where
  "lru_inv c \<longleftrightarrow> distinct (map fst (cacheMap c)) \<and> distinct (map (snd \<circ> snd) (cacheMap c)) \<and>
     (\<forall>(k, v, t) \<in> set (cacheMap c). t < accessCounter c) \<and> 0 < maxSize c \<and> length (cacheMap c) \<le> max (truncateThreshold c) (maxSize c) + 1"

lemma map_fst_set_entry [simp]: "map fst (set_entry key f m) = map fst m"
  by (induction key f m rule: set_entry.induct) auto

lemma length_set_entry [simp]: "length (set_entry key f m) = length m"
  by (induction key f m rule: set_entry.induct) auto

lemma map_of_set_entry:
  "map_of (set_entry key f m) k = (if k = key then map_option (\<lambda>(v, t). f v t) (map_of m k) else map_of m k)"
  by (induction key f m rule: set_entry.induct) auto

lemma set_set_entry: "set (set_entry key f m) \<subseteq> set m \<union> (\<lambda>(k, v, t). (k, f v t)) ` set m"
  by (induction key f m rule: set_entry.induct) auto

lemma stamps_set_entry:
  assumes "distinct (map (snd \<circ> snd) m)" "\<forall>(k, v, t) \<in> set m. t < n" "\<And>v t. snd (f v t) = n"
  shows "distinct (map (snd \<circ> snd) (set_entry key f m)) \<and> (\<forall>(k, v, t) \<in> set (set_entry key f m). t < Suc n)"
proof -
  have "distinct (map (snd \<circ> snd) (set_entry key f m)) \<and> set (map (snd \<circ> snd) (set_entry key f m)) \<subseteq> insert n (set (map (snd \<circ> snd) m))"
    using assms by (induction key f m rule: set_entry.induct) (auto simp: comp_def image_iff split: prod.splits; fastforce)+
  moreover have "\<forall>(k, v, t) \<in> set (set_entry key f m). t \<in> set (map (snd \<circ> snd) (set_entry key f m))" by force
  ultimately show ?thesis using assms(2) by fastforce
qed

section \<open>Truncation keeps the most recently used entries\<close>

lemma sorted_stamps: "mset (rev (sort_key (\<lambda>(k, v, t). t) m)) = mset m"
  by simp

lemma distinct_of_mset: "mset xs = mset ys \<Longrightarrow> distinct (map f xs) \<longleftrightarrow> distinct (map f ys)"
  by (metis mset_eq_imp_distinct_iff mset_map)

lemma map_of_take:
  assumes "mset s = mset m" "distinct (map fst m)" "map_of (take n s) k = Some x"
  shows "map_of m k = Some x"
proof -
  have "(k, x) \<in> set (take n s)" using assms(3) by (rule map_of_SomeD)
  then have "(k, x) \<in> set m" using assms(1) by (metis in_set_takeD set_mset_mset)
  then show ?thesis using assms(2) by simp
qed

lemma truncate_inv: "lru_inv c \<Longrightarrow> lru_inv (truncate_if_needed c)"
proof -
  assume inv: "lru_inv c"
  let ?s = "rev (sort_key (\<lambda>(k, v, t). t) (cacheMap c))"
  have "distinct (map fst ?s)" "distinct (map (snd \<circ> snd) ?s)"
    using inv by (simp_all only: lru_inv_def distinct_of_mset [OF sorted_stamps])
  then have ds: "distinct (map fst (take n ?s)) \<and> distinct (map (snd \<circ> snd) (take n ?s))" for n
    by (simp add: take_map [symmetric])
  have "set (take n ?s) \<subseteq> set (cacheMap c)" for n using set_take_subset [of n ?s] by simp
  then have "\<forall>(k, v, t) \<in> set (take n ?s). t < accessCounter c" for n using inv unfolding lru_inv_def by blast
  then show ?thesis using inv ds
    by (auto simp: lru_inv_def truncate_if_needed_def)
qed

lemma truncate_size: "lru_inv c \<Longrightarrow> length (cacheMap (truncate_if_needed c)) \<le> max (truncateThreshold c) (maxSize c)"
  by (simp add: truncate_if_needed_def le_max_iff_disj)

lemma truncate_params [simp]:
  "maxSize (truncate_if_needed c) = maxSize c" "truncateThreshold (truncate_if_needed c) = truncateThreshold c"
  "accessCounter (truncate_if_needed c) = accessCounter c"
  by (simp_all add: truncate_if_needed_def)

lemma truncate_lookup:
  assumes "lru_inv c" "map_of (cacheMap (truncate_if_needed c)) k = Some x"
  shows "map_of (cacheMap c) k = Some x"
proof (cases "length (cacheMap c) \<le> truncateThreshold c")
  case False
  then show ?thesis
    using assms map_of_take [OF sorted_stamps, of "cacheMap c"] by (simp add: truncate_if_needed_def lru_inv_def)
qed (use assms in \<open>simp add: truncate_if_needed_def\<close>)

lemma take_before_drop:
  fixes f :: "'a \<Rightarrow> nat"
  assumes "sorted_wrt (\<lambda>x y. f y \<le> f x) s" "distinct (map f s)" "x \<in> set (take n s)" "y \<in> set (drop n s)"
  shows "f y < f x"
proof -
  have "sorted_wrt (\<lambda>x y. f y \<le> f x) (take n s @ drop n s)" "distinct (map f (take n s @ drop n s))" using assms(1,2) by simp_all
  then have "f y \<le> f x" "f x \<noteq> f y"
    using assms(3,4) unfolding sorted_wrt_append map_append distinct_append by (blast, force)
  then show ?thesis by simp
qed

text \<open>An entry that is dropped is older than \<open>maxSize\<close> others.\<close>

lemma truncate_drops_old:
  assumes "lru_inv c" "map_of (cacheMap c) k = Some (v, t)" "map_of (cacheMap (truncate_if_needed c)) k = None"
  shows "maxSize c \<le> card {k'. \<exists>v' t'. map_of (cacheMap c) k' = Some (v', t') \<and> t < t'}"
proof -
  let ?m = "cacheMap c" let ?s = "rev (sort_key (\<lambda>(k, v, t). t) ?m)" let ?n = "maxSize c"
  have d: "distinct (map fst ?m)" "distinct (map (snd \<circ> snd) ?m)" using assms(1) by (simp_all add: lru_inv_def)
  have ds: "distinct (map fst ?s)" "distinct (map (snd \<circ> snd) ?s)"
    using d by (simp_all only: distinct_of_mset [OF sorted_stamps])
  have tr: "cacheMap (truncate_if_needed c) = take ?n ?s"
    using assms(2,3) by (auto simp: truncate_if_needed_def)
  have "(k, v, t) \<in> set ?s" using map_of_SomeD [OF assms(2)] by simp
  moreover have "(k, v, t) \<notin> set (take ?n ?s)"
  proof
    assume "(k, v, t) \<in> set (take ?n ?s)"
    moreover have "distinct (map fst (take ?n ?s))" using ds(1) by (simp only: take_map [symmetric] distinct_take)
    ultimately show False using assms(3) tr by simp
  qed
  ultimately have dr: "(k, v, t) \<in> set (drop ?n ?s)" by (metis UnE append_take_drop_id set_append)
  then have len: "length (take ?n ?s) = ?n" by (metis drop_eq_Nil length_pos_if_in_set length_take min_def nat_le_linear list.size(3) less_irrefl)
  have st: "sorted_wrt (\<lambda>x y. (snd \<circ> snd) y \<le> (snd \<circ> snd) x) ?s"
    using sorted_sort_key [of "\<lambda>(k, v, t). t" ?m] by (simp add: sorted_map sorted_wrt_rev case_prod_unfold)
  have newer: "t < t'" if "(k', v', t') \<in> set (take ?n ?s)" for k' v' t'
    using take_before_drop [OF st ds(2) that dr] by simp
  have "fst ` set (take ?n ?s) \<subseteq> {k'. \<exists>v' t'. map_of ?m k' = Some (v', t') \<and> t < t'}"
  proof
    fix k' assume "k' \<in> fst ` set (take ?n ?s)"
    then obtain v' t' where e: "(k', v', t') \<in> set (take ?n ?s)" by force
    then have "(k', v', t') \<in> set ?m" using set_take_subset [of ?n ?s] by auto
    then show "k' \<in> {k'. \<exists>v' t'. map_of ?m k' = Some (v', t') \<and> t < t'}" using d(1) newer [OF e] by auto
  qed
  moreover have "card (fst ` set (take ?n ?s)) = ?n"
  proof -
    have "distinct (map fst (take ?n ?s))" using ds(1) by (simp only: take_map [symmetric] distinct_take)
    then show ?thesis using len distinct_card [of "map fst (take ?n ?s)"] by simp
  qed
  moreover have "finite {k'. \<exists>v' t'. map_of ?m k' = Some (v', t') \<and> t < t'}"
    by (rule finite_subset [of _ "dom (map_of ?m)"]) (auto simp: finite_dom_map_of)
  ultimately show ?thesis using card_mono [of "{k'. \<exists>v' t'. map_of ?m k' = Some (v', t') \<and> t < t'}" "fst ` set (take ?n ?s)"] by simp
qed

section \<open>The operations\<close>

lemma lru_new_inv: "lru_new n th = Some c \<Longrightarrow> lru_inv c \<and> lru_lookup c = Map.empty"
  by (auto simp: lru_new_def lru_inv_def lru_lookup_def fun_eq_iff split: if_splits)

lemma emplace_inv:
  assumes "lru_inv c"
  shows "lru_inv (lru_emplace key v c)"
proof -
  let ?c = "truncate_if_needed c"
  have inv: "lru_inv ?c" by (rule truncate_inv) (rule assms)
  have size: "length (cacheMap ?c) \<le> max (truncateThreshold c) (maxSize c)" by (rule truncate_size) (rule assms)
  show ?thesis
  proof (cases "map_of (cacheMap ?c) key")
    case None
    then have e: "lru_emplace key v c = ?c\<lparr>cacheMap := (key, v, accessCounter c) # cacheMap ?c, accessCounter := accessCounter c + 1\<rparr>"
      by (simp add: lru_emplace_def Let_def)
    have "key \<notin> fst ` set (cacheMap ?c)" using None by (simp add: map_of_eq_None_iff)
    moreover have "\<forall>(k, v, t) \<in> set (cacheMap ?c). t < accessCounter c" using inv by (simp add: lru_inv_def)
    ultimately show ?thesis using inv size unfolding e by (auto simp: lru_inv_def)
  next
    case (Some x)
    have "distinct (map (snd \<circ> snd) (cacheMap ?c))" "\<forall>(k, v, t) \<in> set (cacheMap ?c). t < accessCounter c"
      using inv by (simp_all add: lru_inv_def)
    from stamps_set_entry [OF this, of "\<lambda>_ _. (v, accessCounter c)"]
    show ?thesis using Some inv size by (simp add: lru_emplace_def Let_def lru_inv_def)
  qed
qed

lemma emplace_lookup:
  "lru_lookup (lru_emplace key v c) k = (if k = key then Some v else lru_lookup (truncate_if_needed c) k)"
  by (auto simp: lru_emplace_def Let_def lru_lookup_def map_of_set_entry split: option.splits)

lemma get_inv: "lru_inv c \<Longrightarrow> lru_inv (snd (lru_get key c))"
proof -
  assume inv: "lru_inv c"
  then have "distinct (map (snd \<circ> snd) (cacheMap c))" "\<forall>(k, v, t) \<in> set (cacheMap c). t < accessCounter c"
    by (simp_all add: lru_inv_def)
  from stamps_set_entry [OF this, of "\<lambda>v _. (v, accessCounter c)"]
  show ?thesis using inv by (auto simp: lru_get_def lru_inv_def split: option.splits)
qed

lemma get_lookup: "fst (lru_get key c) = lru_lookup c key" "lru_lookup (snd (lru_get key c)) k = lru_lookup c k"
  by (auto simp: lru_get_def lru_lookup_def map_of_set_entry split: option.splits)

lemma erase_inv: "lru_inv c \<Longrightarrow> lru_inv (lru_erase key c)"
  by (auto simp: lru_inv_def lru_erase_def distinct_map_filter intro: le_trans [OF length_filter_le])

lemma map_of_filter_key: "map_of (filter (\<lambda>(k, _). k \<noteq> key) m) k = (if k = key then None else map_of m k)"
  by (induction m) auto

lemma erase_lookup: "lru_lookup (lru_erase key c) k = (if k = key then None else lru_lookup c k)"
  by (simp add: lru_lookup_def lru_erase_def map_of_filter_key)

section \<open>What a cache promises\<close>

locale lossy_map =
  fixes inv :: "'c \<Rightarrow> bool" and lookup :: "'c \<Rightarrow> 'k \<Rightarrow> 'v option"
    and get :: "'k \<Rightarrow> 'c \<Rightarrow> 'v option \<times> 'c" and insert :: "'k \<Rightarrow> 'v \<Rightarrow> 'c \<Rightarrow> 'c" and erase :: "'k \<Rightarrow> 'c \<Rightarrow> 'c"
  assumes inv_get: "inv c \<Longrightarrow> inv (snd (get k c))"
    and inv_insert: "inv c \<Longrightarrow> inv (insert k v c)"
    and inv_erase: "inv c \<Longrightarrow> inv (erase k c)"
    and get_result: "inv c \<Longrightarrow> fst (get k c) = lookup c k"
    and get_keeps: "inv c \<Longrightarrow> lookup (snd (get k c)) k' = lookup c k'"
    and insert_same: "inv c \<Longrightarrow> lookup (insert k v c) k = Some v"
    and insert_other: "inv c \<Longrightarrow> k' \<noteq> k \<Longrightarrow> lookup (insert k v c) k' \<in> {None, lookup c k'}"
    and erase_result: "inv c \<Longrightarrow> lookup (erase k c) k' \<in> {None, lookup c k'}"
begin

text \<open>Every entry of the map is a pair of the relation \<open>R\<close>.\<close>

definition caches :: "('k \<Rightarrow> 'v \<Rightarrow> bool) \<Rightarrow> 'c \<Rightarrow> bool" where
  "caches R c \<longleftrightarrow> inv c \<and> (\<forall>k v. lookup c k = Some v \<longrightarrow> R k v)"

lemma caches_get: "caches R c \<Longrightarrow> caches R (snd (get k c)) \<and> (\<forall>v. fst (get k c) = Some v \<longrightarrow> R k v)"
  unfolding caches_def using inv_get get_result get_keeps by simp

lemma caches_insert: "caches R c \<Longrightarrow> R k v \<Longrightarrow> caches R (insert k v c)"
  unfolding caches_def using inv_insert insert_same insert_other by (metis empty_iff insert_iff option.distinct(1) option.inject)

lemma caches_erase: "caches R c \<Longrightarrow> caches R (erase k c)"
  unfolding caches_def using inv_erase erase_result by (metis empty_iff insert_iff option.distinct(1))

lemma caches_replace: "caches R c \<Longrightarrow> R k v \<Longrightarrow> caches R (insert k v (erase k c))"
  by (intro caches_insert caches_erase)

end

interpretation lru: lossy_map lru_inv lru_lookup lru_get lru_emplace lru_erase
proof unfold_locales
  fix c :: "('k, 'v) unordered_lru_cache" and k k' v
  assume inv: "lru_inv c"
  show "lru_lookup (lru_emplace k v c) k' \<in> {None, lru_lookup c k'}" if "k' \<noteq> k"
  proof -
    have "map_of (cacheMap (truncate_if_needed c)) k' \<in> {None, map_of (cacheMap c) k'}"
      using truncate_lookup [OF inv, of k'] by (cases "map_of (cacheMap (truncate_if_needed c)) k'") auto
    then show ?thesis using that by (auto simp: emplace_lookup) (auto simp: lru_lookup_def)
  qed
qed (simp_all add: get_inv emplace_inv erase_inv get_lookup emplace_lookup erase_lookup)

text \<open>
  Storing a value in the cache: the key then holds it, the invariant (one entry per key, at most one more than the
  larger of the two limits) is kept, and every other entry is untouched unless \<open>maxSize\<close> entries had been used more
  recently, in which case it may be dropped.
\<close>

theorem lru_emplace_spec:
  assumes "lru_inv c"
  shows "lru_inv (lru_emplace key v c) \<and> lru_lookup (lru_emplace key v c) key = Some v \<and>
    (\<forall>k. k \<noteq> key \<longrightarrow> lru_lookup (lru_emplace key v c) k = lru_lookup c k \<or>
      lru_lookup (lru_emplace key v c) k = None \<and>
      maxSize c \<le> card {k'. \<exists>t t'. lru_stamp c k = Some t \<and> lru_stamp c k' = Some t' \<and> t < t'})"
proof -
  have "lru_lookup (truncate_if_needed c) k = lru_lookup c k \<or> lru_lookup (truncate_if_needed c) k = None \<and>
      maxSize c \<le> card {k'. \<exists>t t'. lru_stamp c k = Some t \<and> lru_stamp c k' = Some t' \<and> t < t'}" for k
  proof (cases "map_of (cacheMap (truncate_if_needed c)) k")
    case (Some x)
    then show ?thesis using truncate_lookup [OF assms, of k] by (simp add: lru_lookup_def)
  next
    case None
    show ?thesis
    proof (cases "map_of (cacheMap c) k")
      case (Some x)
      then obtain u t where x: "map_of (cacheMap c) k = Some (u, t)" by (cases x) simp
      have "{k'. \<exists>v' t'. map_of (cacheMap c) k' = Some (v', t') \<and> t < t'} =
          {k'. \<exists>t t'. lru_stamp c k = Some t \<and> lru_stamp c k' = Some t' \<and> t < t'}"
        using x by (auto simp: lru_stamp_def)
      then show ?thesis using None truncate_drops_old [OF assms x None] by (simp add: lru_lookup_def)
    qed (use None in \<open>simp add: lru_lookup_def\<close>)
  qed
  then show ?thesis using emplace_inv [OF assms] by (auto simp: emplace_lookup)
qed

definition lru_example :: "(nat, nat) unordered_lru_cache" where
  "lru_example = \<lparr>cacheMap = [(1, 10, 0), (2, 20, 1)], maxSize = 1, truncateThreshold = 1, accessCounter = 2\<rparr>"

theorem lru_emplace_spec_witness:
  "lru_inv lru_example \<and> lru_lookup (lru_emplace 3 30 lru_example) 3 = Some 30 \<and>
   lru_lookup (lru_emplace 3 30 lru_example) 1 = None \<and> lru_lookup (lru_emplace 3 30 lru_example) 2 = Some 20"
proof -
  have inv: "lru_inv lru_example" by (simp add: lru_inv_def lru_example_def)
  moreover have "lru_lookup (lru_emplace 3 30 lru_example) 1 = None" "lru_lookup (lru_emplace 3 30 lru_example) 2 = Some 20"
    by (simp_all add: lru_lookup_def lru_emplace_def truncate_if_needed_def lru_example_def Let_def)
  ultimately show ?thesis using lru_emplace_spec [OF inv, of 3 30] by blast
qed

end
