(* ===== verification/Block.thy ===== *)
theory Block
  imports Transaction Lru_Cache
begin

unbundle bit_operations_syntax

text \<open>
  Block headers and blocks: \<^verbatim>\<open>src/primitives/block.h\<close>, \<^verbatim>\<open>src/primitives/block.cpp\<close> and the cache of proof-of-work
  hashes, \<^verbatim>\<open>src/primitives/powcache.h\<close>.  The two proof-of-work functions (\<open>HashX16R\<close>, \<open>Minotaurx\<close>) and the two activation times are
  the record \<open>pow_env\<close>, an argument of the definitions that use them.
\<close>

section \<open>The classes\<close>

record CBlockHeader =
  h_nVersion :: "32 word"
  hashPrevBlock :: uint256
  h_hashMerkleRoot :: uint256
  h_nTime :: "32 word"
  h_nBits :: "32 word"
  h_nNonce :: "32 word"

record CBlock =
  header :: CBlockHeader
  vtx :: "CTransaction list"

datatype POW_TYPE = POW_TYPE_X16RT | POW_TYPE_MINOTAURX | POW_TYPE_other nat

definition CBlockHeader_null :: CBlockHeader where
  "CBlockHeader_null = \<lparr>h_nVersion = 0, hashPrevBlock = 0, h_hashMerkleRoot = 0, h_nTime = 0, h_nBits = 0, h_nNonce = 0\<rparr>"

definition CBlockHeader_IsNull :: "CBlockHeader \<Rightarrow> bool" where
  "CBlockHeader_IsNull h \<longleftrightarrow> h_nBits h = 0"

definition ser_CBlockHeader :: "CBlockHeader \<Rightarrow> byte list" where
  "ser_CBlockHeader h =
     ser_writedata32 (h_nVersion h) @ ser_uint256 (hashPrevBlock h) @ ser_uint256 (h_hashMerkleRoot h) @
     ser_writedata32 (h_nTime h) @ ser_writedata32 (h_nBits h) @ ser_writedata32 (h_nNonce h)"

definition unser_CBlockHeader :: "CBlockHeader reader" where
  "unser_CBlockHeader s =
     ebind (ser_readdata32 s) (\<lambda>(ver, s). ebind (unser_uint256 s) (\<lambda>(prev, s). ebind (unser_uint256 s) (\<lambda>(root, s).
     ebind (ser_readdata32 s) (\<lambda>(time, s). ebind (ser_readdata32 s) (\<lambda>(bits, s). ebind (ser_readdata32 s) (\<lambda>(nonce, s).
       Inr (\<lparr>h_nVersion = ver, hashPrevBlock = prev, h_hashMerkleRoot = root, h_nTime = time, h_nBits = bits, h_nNonce = nonce\<rparr>, s)))))))"

definition ser_CBlock :: "CBlock \<Rightarrow> byte list" where
  "ser_CBlock b = ser_CBlockHeader (header b) @ ser_vector (SerializeTransaction True) (vtx b)"

definition unser_CBlock :: "CBlock reader" where
  "unser_CBlock s =
     ebind (unser_CBlockHeader s) (\<lambda>(h, s). ebind (unser_vector (UnserializeTransaction True) s) (\<lambda>(txs, s).
       Inr (\<lparr>header = h, vtx = txs\<rparr>, s)))"

definition ser_CBlockLocator :: "32 word \<Rightarrow> bool \<Rightarrow> uint256 list \<Rightarrow> byte list" where
  "ser_CBlockLocator version gethash vHave = (if gethash then [] else ser_writedata32 version) @ ser_vector ser_uint256 vHave"

definition unser_CBlockLocator :: "bool \<Rightarrow> uint256 list reader" where
  "unser_CBlockLocator gethash s =
     ebind (if gethash then Inr s else ebind (ser_readdata32 s) (\<lambda>(_, s). Inr s)) (\<lambda>s. unser_vector unser_uint256 s)"

definition GetPoWType :: "CBlockHeader \<Rightarrow> POW_TYPE" where
  "GetPoWType h =
     (let t = unat (drop_bit 16 (h_nVersion h) AND 0xFF)
      in if t = 0 then POW_TYPE_X16RT else if t = 1 then POW_TYPE_MINOTAURX else POW_TYPE_other t)"

definition GetSHA256Hash :: "CBlockHeader \<Rightarrow> uint256" where
  "GetSHA256Hash h =
     CHashWriter_GetHash [ser_writedata32 (h_nVersion h), ser_uint256 (hashPrevBlock h), ser_uint256 (h_hashMerkleRoot h),
       ser_writedata32 (h_nTime h), ser_writedata32 (h_nBits h), ser_writedata32 (h_nNonce h)]"

section \<open>Proof-of-work hashes\<close>

record pow_env =
  HashX16R :: "byte list \<Rightarrow> uint256 \<Rightarrow> uint256"
  Minotaurx :: "byte list \<Rightarrow> uint256"
  nX16rtTimestamp :: "32 word"
  nDualAlgoTimestamp :: "32 word"

definition HIGH_HASH :: uint256 where
  "HIGH_HASH = 0x0fffffffffffffffffffffffffffffffffffffffffffffffffffffffffffffff"

definition TIME_MASK :: "32 word" where "TIME_MASK = 0xffffff80"

text \<open>The 80 bytes from \<open>nVersion\<close> to \<open>nNonce\<close> in memory are those of the serialized header.\<close>

definition x16rt_hash :: "pow_env \<Rightarrow> CBlockHeader \<Rightarrow> uint256" where
  "x16rt_hash P h = HashX16R P (ser_CBlockHeader h) (Hash (WriteLE32 (h_nTime h AND TIME_MASK)))"

definition ComputePoWHash :: "pow_env \<Rightarrow> CBlockHeader \<Rightarrow> uint256" where
  "ComputePoWHash P h =
     (if h_nTime h > nX16rtTimestamp P then
        if h_nTime h > nDualAlgoTimestamp P then
          (case GetPoWType h of
             POW_TYPE_X16RT \<Rightarrow> x16rt_hash P h
           | POW_TYPE_MINOTAURX \<Rightarrow> Minotaurx P (ser_CBlockHeader h)
           | POW_TYPE_other _ \<Rightarrow> HIGH_HASH)
        else x16rt_hash P h
      else HashX16R P (ser_CBlockHeader h) (hashPrevBlock h))"

type_synonym CPowCache = "(uint256, uint256) unordered_lru_cache"

text \<open>\<open>GetHash\<close>; \<open>validate\<close> is the flag \<open>bValidate\<close> of the cache.\<close>

definition GetHash :: "pow_env \<Rightarrow> bool \<Rightarrow> bool \<Rightarrow> CBlockHeader \<Rightarrow> CPowCache \<Rightarrow> uint256 \<times> CPowCache" where
  "GetHash P validate readCache h cache =
     (let headerHash = GetSHA256Hash h;
          (found, cache) = (if readCache then lru_get headerHash cache else (None, cache)) in
      case found of
        Some powHash \<Rightarrow>
          if validate then let powHash2 = ComputePoWHash P h
            in (powHash2, lru_emplace headerHash powHash2 (lru_erase headerHash cache))
          else (powHash, cache)
      | None \<Rightarrow> let powHash2 = ComputePoWHash P h
            in (powHash2, lru_emplace headerHash powHash2 (lru_erase headerHash cache)))"

section \<open>Codecs\<close>

interpretation block_header: canonical_codec ser_CBlockHeader unser_CBlockHeader "\<lambda>_. True"
  by unfold_locales (simp add: unser_CBlockHeader_def ser_CBlockHeader_def u256.unser_ser u32.unser_ser,
    auto simp: unser_CBlockHeader_def ser_CBlockHeader_def ebind_eq_Inr u256.unser_iff u32.unser_iff)

lemma length_ser_CBlockHeader: "length (ser_CBlockHeader h) = 80"
  by (simp add: ser_CBlockHeader_def ser_writedata32_def WriteLE32_def ser_uint256_def)

text \<open>What a stream with witnesses can carry of a transaction: sizes in range, and not outputs without inputs.\<close>

definition tx_wire_ok :: "CTransaction \<Rightarrow> bool" where
  "tx_wire_ok tx \<longleftrightarrow> tx_ok tx \<and> \<not> (vin tx = [] \<and> vout tx \<noteq> [])"

interpretation tx_wire: codec "SerializeTransaction True" "UnserializeTransaction True" tx_wire_ok
proof
  fix tx s assume "tx_wire_ok tx"
  then show "UnserializeTransaction True (SerializeTransaction True tx @ s) = Inr (tx, s)"
    by (cases "HasWitness tx")
      (auto simp: tx_wire_ok_def UnserializeTransaction_iff Serialize_with_witness Serialize_legacy)
qed

interpretation block: codec ser_CBlock unser_CBlock "\<lambda>b. length (vtx b) \<le> MAX_SIZE \<and> list_all tx_wire_ok (vtx b)"
proof
  fix b :: CBlock and s assume ok: "length (vtx b) \<le> MAX_SIZE \<and> list_all tx_wire_ok (vtx b)"
  show "unser_CBlock (ser_CBlock b @ s) = Inr (b, s)"
    by (simp add: unser_CBlock_def ser_CBlock_def block_header.unser_ser codec.unser_ser [OF tx_wire.vector_codec, OF ok])
qed

section \<open>The cache never changes a proof-of-work hash\<close>

definition pow_entry_ok :: "pow_env \<Rightarrow> uint256 \<Rightarrow> uint256 \<Rightarrow> bool" where
  "pow_entry_ok P k v \<longleftrightarrow> (\<forall>h. GetSHA256Hash h = k \<longrightarrow> v = ComputePoWHash P h)"

definition pow_cache_ok :: "pow_env \<Rightarrow> CPowCache \<Rightarrow> bool" where
  "pow_cache_ok P cache \<longleftrightarrow> lru_inv cache \<and> (\<forall>k v. lru_lookup cache k = Some v \<longrightarrow> pow_entry_ok P k v)"

lemma pow_cache_caches: "pow_cache_ok P = lru.caches (pow_entry_ok P)"
  by (simp add: fun_eq_iff pow_cache_ok_def lru.caches_def)

lemma GetHash_transparent:
  assumes "pow_cache_ok P cache"
    and "\<And>h'. GetSHA256Hash h' = GetSHA256Hash h \<Longrightarrow> ComputePoWHash P h' = ComputePoWHash P h"
  shows "fst (GetHash P validate readCache h cache) = ComputePoWHash P h \<and>
    pow_cache_ok P (snd (GetHash P validate readCache h cache))"
proof -
  let ?k = "GetSHA256Hash h" and ?v = "ComputePoWHash P h"
  have ok: "lru.caches (pow_entry_ok P) cache" using assms(1) by (simp add: pow_cache_caches)
  have R: "pow_entry_ok P ?k ?v" using assms(2) unfolding pow_entry_ok_def by metis
  obtain found c where g: "(if readCache then lru_get ?k cache else (None, cache)) = (found, c)" by fastforce
  then have c: "lru.caches (pow_entry_ok P) c" "\<forall>v. found = Some v \<longrightarrow> pow_entry_ok P ?k v"
    using ok lru.caches_get [OF ok, of ?k] by (auto split: if_splits)
  have "lru.caches (pow_entry_ok P) (lru_emplace ?k ?v (lru_erase ?k c))" by (rule lru.caches_replace) (rule c R)+
  then show ?thesis using c unfolding GetHash_def Let_def g pow_cache_caches
    by (auto simp: pow_entry_ok_def split: option.splits)
qed


definition example_pow :: pow_env where
  "example_pow = \<lparr>HashX16R = \<lambda>_ _. 5, Minotaurx = \<lambda>_. 5, nX16rtTimestamp = - 1, nDualAlgoTimestamp = - 1\<rparr>"


end
