(* ===== verification/Arith_Uint256.thy ===== *)
theory Arith_Uint256
  imports Hash
begin

unbundle bit_operations_syntax

text \<open>
  Big unsigned integers: \<^verbatim>\<open>src/arith_uint256.h\<close> and \<^verbatim>\<open>src/arith_uint256.cpp\<close>.  A \<open>base_uint\<close> is its array \<open>pn\<close>
  of 32-bit limbs, least significant first, here a list of length \<open>WIDTH\<close>; the loops over the limbs are
  recursions over that list or folds over the index.

  The locale \<open>big_uint\<close> says what the class promises: the operations compute addition, negation,
  multiplication, division, shifts and comparison of natural numbers modulo \<open>2 ^ (32 * WIDTH)\<close>.
\<close>

type_synonym base_uint = "32 word list"

definition WIDTH :: nat where "WIDTH = 8"

section \<open>The class\<close>

definition base_uint_zero :: base_uint where
  "base_uint_zero = replicate WIDTH 0"

definition base_uint_64 :: "64 word \<Rightarrow> base_uint" where
  "base_uint_64 b = [ucast b, ucast (drop_bit 32 b)] @ replicate (WIDTH - 2) 0"

definition uint_not :: "base_uint \<Rightarrow> base_uint" where
  "uint_not pn = map NOT pn"

text \<open>\<open>++\<close>: the loop runs on while a limb wraps to zero.\<close>

fun uint_inc :: "base_uint \<Rightarrow> base_uint" where
  "uint_inc [] = []"
| "uint_inc (p # pn) = (if p + 1 = 0 then (p + 1) # uint_inc pn else (p + 1) # pn)"

fun uint_dec :: "base_uint \<Rightarrow> base_uint" where
  "uint_dec [] = []"
| "uint_dec (p # pn) = (if p - 1 = - 1 then (p - 1) # uint_dec pn else (p - 1) # pn)"

definition uint_neg :: "base_uint \<Rightarrow> base_uint" where
  "uint_neg pn = uint_inc (uint_not pn)"

definition uint_xor :: "base_uint \<Rightarrow> base_uint \<Rightarrow> base_uint" where
  "uint_xor = map2 (XOR)"

definition uint_and :: "base_uint \<Rightarrow> base_uint \<Rightarrow> base_uint" where
  "uint_and = map2 (AND)"

definition uint_or :: "base_uint \<Rightarrow> base_uint \<Rightarrow> base_uint" where
  "uint_or = map2 (OR)"

text \<open>The carry is a \<open>uint64_t\<close>.\<close>

fun add_loop :: "64 word \<Rightarrow> base_uint \<Rightarrow> base_uint \<Rightarrow> base_uint" where
  "add_loop carry (a # as) (b # bs) =
     (let n = carry + ucast a + ucast b
      in ucast (n AND 0xffffffff) # add_loop (drop_bit 32 n) as bs)"
| "add_loop carry _ _ = []"

definition uint_add :: "base_uint \<Rightarrow> base_uint \<Rightarrow> base_uint" where
  "uint_add a b = add_loop 0 a b"

definition uint_sub :: "base_uint \<Rightarrow> base_uint \<Rightarrow> base_uint" where
  "uint_sub a b = uint_add a (uint_neg b)"

fun mul32_loop :: "64 word \<Rightarrow> 32 word \<Rightarrow> base_uint \<Rightarrow> base_uint" where
  "mul32_loop carry b32 (p # pn) =
     (let n = carry + ucast b32 * ucast p
      in ucast (n AND 0xffffffff) # mul32_loop (drop_bit 32 n) b32 pn)"
| "mul32_loop carry b32 [] = []"

definition uint_mul32 :: "base_uint \<Rightarrow> 32 word \<Rightarrow> base_uint" where
  "uint_mul32 pn b32 = mul32_loop 0 b32 pn"

text \<open>
  The inner loop of \<open>*=\<close> for one limb \<open>aj\<close> of the left operand, on the limbs of the result from index \<open>j\<close> on.
\<close>

fun mul_row :: "64 word \<Rightarrow> 32 word \<Rightarrow> base_uint \<Rightarrow> base_uint \<Rightarrow> base_uint" where
  "mul_row carry aj (p # pn) (b # bs) =
     (let n = carry + ucast p + ucast aj * ucast b
      in ucast (n AND 0xffffffff) # mul_row (drop_bit 32 n) aj pn bs)"
| "mul_row carry aj pn _ = pn"

fun mul_loop :: "base_uint \<Rightarrow> base_uint \<Rightarrow> base_uint \<Rightarrow> base_uint" where
  "mul_loop [] b pn = pn"
| "mul_loop (aj # as) b pn =
     (case mul_row 0 aj pn b of
        [] \<Rightarrow> []
      | p # rest \<Rightarrow> p # mul_loop as b rest)"

definition uint_mul :: "base_uint \<Rightarrow> base_uint \<Rightarrow> base_uint" where
  "uint_mul a b = mul_loop a b (replicate (length a) 0)"

definition or_at :: "base_uint \<Rightarrow> nat \<Rightarrow> 32 word \<Rightarrow> base_uint" where
  "or_at pn i w = pn[i := pn ! i OR w]"

definition shl_step :: "base_uint \<Rightarrow> nat \<Rightarrow> nat \<Rightarrow> base_uint \<Rightarrow> nat \<Rightarrow> base_uint" where
  "shl_step a k shift pn i =
     (let pn = (if i + k + 1 < length a \<and> shift \<noteq> 0 then or_at pn (i + k + 1) (drop_bit (32 - shift) (a ! i)) else pn)
      in if i + k < length a then or_at pn (i + k) (push_bit shift (a ! i)) else pn)"

definition uint_shl :: "base_uint \<Rightarrow> nat \<Rightarrow> base_uint" where
  "uint_shl a shift0 =
     (let k = shift0 div 32; shift = shift0 mod 32
      in foldl (shl_step a k shift) (replicate (length a) 0) [0..<length a])"

definition shr_step :: "base_uint \<Rightarrow> nat \<Rightarrow> nat \<Rightarrow> base_uint \<Rightarrow> nat \<Rightarrow> base_uint" where
  "shr_step a k shift pn i =
     (let pn = (if k + 1 \<le> i \<and> shift \<noteq> 0 then or_at pn (i - k - 1) (push_bit (32 - shift) (a ! i)) else pn)
      in if k \<le> i then or_at pn (i - k) (drop_bit shift (a ! i)) else pn)"

definition uint_shr :: "base_uint \<Rightarrow> nat \<Rightarrow> base_uint" where
  "uint_shr a shift0 =
     (let k = shift0 div 32; shift = shift0 mod 32
      in foldl (shr_step a k shift) (replicate (length a) 0) [0..<length a])"

text \<open>\<open>CompareTo\<close> runs from the most significant limb down.\<close>

fun compare_loop :: "32 word list \<Rightarrow> 32 word list \<Rightarrow> int" where
  "compare_loop (a # as) (b # bs) = (if a < b then - 1 else if a > b then 1 else compare_loop as bs)"
| "compare_loop _ _ = 0"

definition CompareTo :: "base_uint \<Rightarrow> base_uint \<Rightarrow> int" where
  "CompareTo a b = compare_loop (rev a) (rev b)"

definition EqualTo :: "base_uint \<Rightarrow> 64 word \<Rightarrow> bool" where
  "EqualTo pn b =
     (if list_ex (\<lambda>p. p \<noteq> 0) (drop 2 pn) then False
      else if pn ! 1 \<noteq> ucast (drop_bit 32 b) then False
      else if pn ! 0 \<noteq> ucast (b AND 0xffffffff) then False
      else True)"

text \<open>\<open>limb_bits\<close> is the inner loop of \<open>bits\<close>, from bit \<open>nbits\<close> of a limb that is not zero.\<close>

fun limb_bits :: "nat \<Rightarrow> 32 word \<Rightarrow> nat" where
  "limb_bits 0 p = 1"
| "limb_bits (Suc nbits) p = (if p AND push_bit (Suc nbits) 1 \<noteq> 0 then Suc nbits + 1 else limb_bits nbits p)"

fun bits_loop :: "32 word list \<Rightarrow> nat" where
  "bits_loop [] = 0"
| "bits_loop (p # pn) = (if p \<noteq> 0 then 32 * length pn + limb_bits 31 p else bits_loop pn)"

definition uint_bits :: "base_uint \<Rightarrow> nat" where
  "uint_bits pn = bits_loop (rev pn)"

text \<open>The division loop; \<open>n\<close> counts the iterations left, so \<open>shift = n - 1\<close>.\<close>

fun div_loop :: "nat \<Rightarrow> base_uint \<Rightarrow> base_uint \<Rightarrow> base_uint \<Rightarrow> base_uint" where
  "div_loop 0 dv num pn = pn"
| "div_loop (Suc shift) dv num pn =
     (if CompareTo num dv \<ge> 0
      then div_loop shift (uint_shr dv 1) (uint_sub num dv) (or_at pn (shift div 32) (push_bit (shift mod 32) 1))
      else div_loop shift (uint_shr dv 1) num pn)"

text \<open>\<open>None\<close> is the exception \<open>Division by zero\<close>.\<close>

definition uint_div :: "base_uint \<Rightarrow> base_uint \<Rightarrow> base_uint option" where
  "uint_div a b =
     (let num_bits = uint_bits a; div_bits = uint_bits b in
      if div_bits = 0 then None
      else if div_bits > num_bits then Some (replicate (length a) 0)
      else let shift = num_bits - div_bits
           in Some (div_loop (Suc shift) (uint_shl b shift) a (replicate (length a) 0)))"

definition GetLow64 :: "base_uint \<Rightarrow> 64 word" where
  "GetLow64 pn = ucast (pn ! 0) OR push_bit 32 (ucast (pn ! 1))"

definition ArithToUint256 :: "base_uint \<Rightarrow> uint256" where
  "ArithToUint256 a = uint256_of (concat (map WriteLE32 a))"

definition UintToArith256 :: "uint256 \<Rightarrow> base_uint" where
  "UintToArith256 a = map (\<lambda>x. ReadLE32 (drop (x * 4) (uint256_data a))) [0..<WIDTH]"

section \<open>The number an array stands for\<close>

abbreviation B :: nat where "B \<equiv> 4294967296"

fun limb_val :: "base_uint \<Rightarrow> nat" where
  "limb_val [] = 0"
| "limb_val (p # pn) = unat p + B * limb_val pn"

lemma unat_limb_less: "unat (p :: 32 word) < B"
  using unsigned_less [of p] by simp

lemma limb_val_less: "limb_val pn < B ^ length pn"
proof (induction pn)
  case (Cons p pn)
  have "unat p + B * limb_val pn < B + B * limb_val pn" using unat_limb_less [of p] by simp
  also have "\<dots> = B * Suc (limb_val pn)" by simp
  also have "\<dots> \<le> B * B ^ length pn" using Cons by (intro mult_le_mono2) simp
  finally show ?case by simp
qed simp

lemma limb_val_append: "limb_val (xs @ ys) = limb_val xs + B ^ length xs * limb_val ys"
  by (induction xs) (auto simp: algebra_simps)

lemma limb_val_zero [simp]: "limb_val (replicate n 0) = 0"
  by (induction n) auto

lemma limb_val_inject: "length a = length b \<Longrightarrow> limb_val a = limb_val b \<longleftrightarrow> a = b"
proof (induction a b rule: list_induct2)
  case (Cons x xs y ys)
  have "unat x + B * limb_val xs = unat y + B * limb_val ys \<longleftrightarrow> unat x = unat y \<and> limb_val xs = limb_val ys"
  proof
    assume e: "unat x + B * limb_val xs = unat y + B * limb_val ys"
    have "(unat x + B * limb_val xs) mod B = unat x" "(unat y + B * limb_val ys) mod B = unat y"
      by (simp_all add: unat_limb_less)
    with e show "unat x = unat y \<and> limb_val xs = limb_val ys" by simp
  qed simp
  with Cons show ?case by (simp add: word_unat_eq_iff)
qed simp

text \<open>One step of every carry loop: the low half is stored, the high half carried.\<close>

lemma low_half: "unat (ucast (n AND 0xffffffff :: 64 word) :: 32 word) = unat n mod B"
proof -
  have "unat (n AND mask 32) = unat n mod 2 ^ 32" by (rule unat_and_mask)
  then have "unat (n AND 0xffffffff) = unat n mod B" by (simp add: mask_eq_exp_minus_1)
  then show ?thesis by (simp add: unat_ucast)
qed

lemma high_half: "unat (drop_bit 32 (n :: 64 word)) = unat n div B"
  by (simp only: unat_drop_bit_eq) (simp add: drop_bit_eq_div)

lemma carry_step: "(s + B * v) mod (B * m) = s mod B + B * ((s div B + v) mod m)" for s v m :: nat
proof -
  have "(s + B * v) mod (B * m) = B * ((s + B * v) div B mod m) + (s + B * v) mod B"
    by (simp add: mod_mult2_eq)
  also have "(s + B * v) div B = s div B + v" by simp
  finally show ?thesis by simp
qed

section \<open>Addition and multiplication\<close>

lemma unat_add3: "unat (a + b + c :: 64 word) = unat a + unat b + unat c" if "unat a + unat b + unat c < 2 ^ 64"
  using that by (simp add: unat_word_ariths)

lemma unat_ucast_32: "unat (ucast (p :: 32 word) :: 64 word) = unat p"
  by (rule unat_ucast_up) simp

lemma unat_mul_32: "unat (ucast (p :: 32 word) * ucast q :: 64 word) = unat p * unat (q :: 32 word)"
proof -
  have "unat p * unat q \<le> (B - 1) * (B - 1)" using unat_limb_less [of p] unat_limb_less [of q] by (intro mult_le_mono) linarith+
  then show ?thesis by (simp add: unat_word_ariths unat_ucast_32)
qed

lemma limb_product_le: "unat (p :: 32 word) * unat (q :: 32 word) \<le> (B - 1) * (B - 1)"
  using unat_limb_less [of p] unat_limb_less [of q] by (intro mult_le_mono) linarith+

lemma length_add_loop [simp]: "length a = length b \<Longrightarrow> length (add_loop c a b) = length a"
  by (induction c a b rule: add_loop.induct) (auto simp: Let_def)

lemma add_loop_val:
  "length a = length b \<Longrightarrow> unat c < B \<Longrightarrow> limb_val (add_loop c a b) = (unat c + limb_val a + limb_val b) mod B ^ length a"
proof (induction a b arbitrary: c rule: list_induct2)
  case (Cons x xs y ys)
  let ?n = "c + ucast x + ucast y"
  have n: "unat ?n = unat c + unat x + unat y"
    using unat_add3 [of c "ucast x" "ucast y"] Cons.prems unat_limb_less [of x] unat_limb_less [of y] by (simp add: unat_ucast_32)
  have "unat (drop_bit 32 ?n) < B" unfolding high_half n
    using Cons.prems unat_limb_less [of x] unat_limb_less [of y] by (intro less_mult_imp_div_less) simp
  from Cons.IH [OF this, unfolded high_half n] have "limb_val (add_loop (drop_bit 32 ?n) xs ys) =
      ((unat c + unat x + unat y) div B + (limb_val xs + limb_val ys)) mod B ^ length xs"
    by (simp only: add.assoc)
  then have "limb_val (add_loop c (x # xs) (y # ys)) =
      (unat c + unat x + unat y) mod B + B * (((unat c + unat x + unat y) div B + (limb_val xs + limb_val ys)) mod B ^ length xs)"
    by (simp add: Let_def low_half n)
  also have "\<dots> = (unat c + unat x + unat y + B * (limb_val xs + limb_val ys)) mod (B * B ^ length xs)"
    by (rule carry_step [symmetric])
  finally show ?case by (simp add: algebra_simps)
qed simp

lemma length_uint_add [simp]: "length a = length b \<Longrightarrow> length (uint_add a b) = length a"
  by (simp add: uint_add_def)

lemma uint_add_val: "length a = length b \<Longrightarrow> limb_val (uint_add a b) = (limb_val a + limb_val b) mod B ^ length a"
  by (simp add: uint_add_def add_loop_val)

lemma length_mul32_loop [simp]: "length (mul32_loop c b pn) = length pn"
  by (induction pn arbitrary: c) (auto simp: Let_def)

lemma mul32_loop_val: "unat c < B \<Longrightarrow> limb_val (mul32_loop c b pn) = (unat c + unat b * limb_val pn) mod B ^ length pn"
proof (induction pn arbitrary: c)
  case (Cons p pn)
  let ?n = "c + ucast b * ucast p"
  have n: "unat ?n = unat c + unat b * unat p"
    using Cons.prems limb_product_le [of b p] by (simp add: unat_word_ariths(1) unat_mul_32)
  have "unat (drop_bit 32 ?n) < B" unfolding high_half n
    using Cons.prems limb_product_le [of b p] by (intro less_mult_imp_div_less) simp
  from Cons.IH [OF this, unfolded high_half n]
  have "limb_val (mul32_loop c b (p # pn)) =
      (unat c + unat b * unat p) mod B + B * (((unat c + unat b * unat p) div B + unat b * limb_val pn) mod B ^ length pn)"
    by (simp add: Let_def low_half n)
  also have "\<dots> = (unat c + unat b * unat p + B * (unat b * limb_val pn)) mod (B * B ^ length pn)"
    by (rule carry_step [symmetric])
  finally show ?case by (simp add: algebra_simps)
qed simp

lemma uint_mul32_val: "limb_val (uint_mul32 pn b) = unat b * limb_val pn mod B ^ length pn"
  by (simp add: uint_mul32_def mul32_loop_val)

lemma length_mul_row [simp]: "length (mul_row c a pn bs) = length pn"
  by (induction c a pn bs rule: mul_row.induct) (auto simp: Let_def)

lemma mul_row_val:
  "unat c < B \<Longrightarrow> length pn \<le> length bs \<Longrightarrow>
     limb_val (mul_row c a pn bs) = (unat c + limb_val pn + unat a * limb_val bs) mod B ^ length pn"
proof (induction c a pn bs rule: mul_row.induct)
  case (1 c a p pn b bs)
  let ?n = "c + ucast p + ucast a * ucast b"
  let ?s = "unat c + unat p + unat a * unat b"
  have le: "?s < B * B" using "1.prems" limb_product_le [of a b] unat_limb_less [of p] by simp
  have n: "unat ?n = ?s"
    using unat_add3 [of c "ucast p" "ucast a * ucast b"] le by (simp add: unat_ucast_32 unat_mul_32)
  have "unat (drop_bit 32 ?n) < B" unfolding high_half n using le by (intro less_mult_imp_div_less)
  with "1.IH" [OF refl this] "1.prems"(2)
  have "limb_val (mul_row c a (p # pn) (b # bs)) = ?s mod B + B * ((?s div B + limb_val pn + unat a * limb_val bs) mod B ^ length pn)"
    unfolding high_half n by (simp add: Let_def low_half n)
  also have "\<dots> = ?s mod B + B * ((?s div B + (limb_val pn + unat a * limb_val bs)) mod B ^ length pn)"
    by (simp only: add.assoc [of "?s div B"])
  also have "\<dots> = (?s + B * (limb_val pn + unat a * limb_val bs)) mod (B * B ^ length pn)"
    by (rule carry_step [symmetric])
  finally show ?case by (simp add: algebra_simps)
qed auto

lemma length_mul_loop [simp]: "length (mul_loop as b pn) = length pn"
proof (induction "as" b pn rule: mul_loop.induct)
  case (2 aj "as" b pn)
  then show ?case using length_mul_row [of 0 aj pn b] by (auto split: list.splits simp del: length_mul_row)
qed simp

lemma mul_loop_val:
  "length as = length pn \<Longrightarrow> length pn \<le> length b \<Longrightarrow>
     limb_val (mul_loop as b pn) = (limb_val pn + limb_val as * limb_val b) mod B ^ length pn"
proof (induction "as" b pn rule: mul_loop.induct)
  case (2 aj "as" b pn)
  obtain p rest where r: "mul_row 0 aj pn b = p # rest" "length pn = Suc (length rest)"
    using 2(2) length_mul_row [of 0 aj pn b] by (cases "mul_row 0 aj pn b") auto
  have v: "unat p + B * limb_val rest = (limb_val pn + unat aj * limb_val b) mod (B * B ^ length rest)"
    using mul_row_val [of 0 pn b aj] 2(3) r by simp
  have "limb_val (mul_loop (aj # as) b pn) = unat p + B * ((limb_val rest + limb_val as * limb_val b) mod B ^ length rest)"
    using 2(1) [OF r(1)] 2(2,3) r by simp
  also have "\<dots> = (unat p + B * (limb_val rest + limb_val as * limb_val b)) mod (B * B ^ length rest)"
    using carry_step [of "unat p" "limb_val rest + limb_val as * limb_val b" "B ^ length rest"] unat_limb_less [of p] by simp
  also have "unat p + B * (limb_val rest + limb_val as * limb_val b) =
      (limb_val pn + unat aj * limb_val b) mod (B * B ^ length rest) + B * (limb_val as * limb_val b)"
    using v by (simp add: algebra_simps)
  also have "\<dots> mod (B * B ^ length rest) = (limb_val pn + unat aj * limb_val b + B * (limb_val as * limb_val b)) mod (B * B ^ length rest)"
    by (rule mod_add_left_eq)
  finally show ?case using r(2) by (simp add: algebra_simps)
qed (simp add: limb_val_less)

lemma uint_mul_val: "length a = length b \<Longrightarrow> limb_val (uint_mul a b) = limb_val a * limb_val b mod B ^ length a"
  by (simp add: uint_mul_def mul_loop_val)

section \<open>Negation and subtraction\<close>

lemma length_uint_inc [simp]: "length (uint_inc pn) = length pn"
  by (induction pn) auto

lemma uint_inc_val: "limb_val (uint_inc pn) = (limb_val pn + 1) mod B ^ length pn"
proof (induction pn)
  case (Cons p pn)
  have w: "unat (p + 1) = (unat p + 1) mod B" by (simp add: unat_word_ariths)
  show ?case
  proof (cases "p + 1 = 0")
    case True
    then have p: "unat p + 1 = B" using w unat_limb_less [of p] by (metis Suc_eq_plus1 Suc_lessI mod_less nat.distinct(1) unat_0)
    have "limb_val (uint_inc (p # pn)) = B * ((limb_val pn + 1) mod B ^ length pn)" using True Cons by simp
    also have "\<dots> = (B + B * limb_val pn) mod (B * B ^ length pn)" using carry_step [of B "limb_val pn" "B ^ length pn"] by simp
    also have "B + B * limb_val pn = limb_val (p # pn) + 1" using p by simp
    finally show ?thesis by simp
  next
    case False
    then have "unat p + 1 < B" using w unat_limb_less [of p] by (metis Suc_eq_plus1 Suc_lessI mod_self unat_eq_zero)
    moreover have "unat p + 1 + B * limb_val pn < B * B ^ length pn"
    proof -
      have "unat p + 1 + B * limb_val pn < B * (limb_val pn + 1)" using \<open>unat p + 1 < B\<close> by simp
      also have "\<dots> \<le> B * B ^ length pn" using limb_val_less [of pn] by (intro mult_le_mono2) simp
      finally show ?thesis .
    qed
    ultimately show ?thesis using False w by (simp add: algebra_simps)
  qed
qed simp

lemma uint_not_val: "limb_val (uint_not pn) = B ^ length pn - 1 - limb_val pn"
proof (induction pn)
  case (Cons p pn)
  have "unat (NOT p) = B - 1 - unat p"
  proof -
    have "NOT p = - 1 - p" by (simp add: not_eq_complement)
    then show ?thesis using unat_sub [of p "- 1"] by (simp add: unsigned_minus_1_eq_mask mask_eq_exp_minus_1)
  qed
  moreover have "B * (B ^ length pn - 1 - limb_val pn) = B * B ^ length pn - B - B * limb_val pn"
    by (simp add: diff_mult_distrib2)
  moreover have "B * (limb_val pn + 1) \<le> B * B ^ length pn"
    using limb_val_less [of pn] by (intro mult_le_mono2) simp
  ultimately show ?case using Cons unat_limb_less [of p] by (simp add: uint_not_def)
qed (simp add: uint_not_def)

lemma length_uint_not [simp]: "length (uint_not pn) = length pn"
  by (simp add: uint_not_def)

lemma length_uint_neg [simp]: "length (uint_neg pn) = length pn"
  by (simp add: uint_neg_def)

lemma uint_neg_val: "limb_val (uint_neg pn) = (B ^ length pn - limb_val pn) mod B ^ length pn"
proof -
  have "B ^ length pn - 1 - limb_val pn + 1 = B ^ length pn - limb_val pn" using limb_val_less [of pn] by simp
  then show ?thesis by (simp only: uint_neg_def uint_inc_val uint_not_val length_uint_not)
qed

lemma length_uint_sub [simp]: "length a = length b \<Longrightarrow> length (uint_sub a b) = length a"
  by (simp add: uint_sub_def)

lemma uint_sub_val:
  assumes "length a = length b" "limb_val b \<le> limb_val a"
  shows "limb_val (uint_sub a b) = limb_val a - limb_val b"
proof -
  have "limb_val (uint_sub a b) = (limb_val a + (B ^ length a - limb_val b)) mod B ^ length a"
    using assms(1) by (simp add: uint_sub_def uint_add_val uint_neg_val mod_add_right_eq)
  also have "limb_val a + (B ^ length a - limb_val b) = (limb_val a - limb_val b) + B ^ length a"
    using assms limb_val_less [of b] by simp
  also have "\<dots> mod B ^ length a = limb_val a - limb_val b"
    using limb_val_less [of a] by simp
  finally show ?thesis .
qed

section \<open>Comparison\<close>

lemma compare_loop_val:
  "length as = length bs \<Longrightarrow> compare_loop as bs =
     (if limb_val (rev as) < limb_val (rev bs) then - 1 else if limb_val (rev as) > limb_val (rev bs) then 1 else 0)"
proof (induction "as" bs rule: list_induct2)
  case (Cons x xs y ys)
  let ?P = "B ^ length xs" and ?a = "limb_val (rev xs)" and ?b = "limb_val (rev ys)"
  have l: "?a < ?P" "?b < ?P" using limb_val_less [of "rev xs"] limb_val_less [of "rev ys"] Cons.hyps by simp_all
  have lt: "?a + ?P * unat x < ?b + ?P * unat y" if "unat x < unat y"
  proof -
    have "?a + ?P * unat x < ?P * (unat x + 1)" using l by simp
    also have "\<dots> \<le> ?P * unat y" using that by (intro mult_le_mono2) simp
    finally show ?thesis by simp
  qed
  have gt: "?b + ?P * unat y < ?a + ?P * unat x" if "unat y < unat x"
  proof -
    have "?b + ?P * unat y < ?P * (unat y + 1)" using l by simp
    also have "\<dots> \<le> ?P * unat x" using that by (intro mult_le_mono2) simp
    finally show ?thesis by simp
  qed
  consider "unat x < unat y" | "unat y < unat x" | "x = y" by (metis linorder_neqE_nat word_unat_eq_iff)
  then show ?case
    by cases (use lt gt Cons in \<open>auto simp: limb_val_append word_less_nat_alt\<close>)
qed simp

lemma CompareTo_val:
  "length a = length b \<Longrightarrow> CompareTo a b =
     (if limb_val a < limb_val b then - 1 else if limb_val a > limb_val b then 1 else 0)"
  by (simp add: CompareTo_def compare_loop_val)

section \<open>Shifts\<close>

lemma bit_limb_val: "bit (limb_val pn) m \<longleftrightarrow> m < 32 * length pn \<and> bit (pn ! (m div 32)) (m mod 32)"
proof (induction pn arbitrary: m)
  case (Cons p pn)
  have s: "unat p + B * limb_val pn = unat p OR push_bit 32 (limb_val pn)"
  proof -
    have "unat p + push_bit 32 (limb_val pn) = unat p OR push_bit 32 (limb_val pn)"
    proof (rule disjunctive_add)
      fix n show "\<not> bit (unat p) n \<or> \<not> bit (push_bit 32 (limb_val pn)) n"
      proof (cases "n < 32")
        case False
        then have "(2::nat) ^ 32 \<le> 2 ^ n" by (intro power_increasing) simp_all
        with unat_limb_less [of p] have "unat p < 2 ^ n" by simp
        then show ?thesis by (simp add: bit_nat_def)
      qed (simp add: bit_push_bit_iff)
    qed
    then show ?thesis by (simp add: push_bit_eq_mult mult.commute)
  qed
  show ?case
  proof (cases "m < 32")
    case True
    then show ?thesis by (simp add: s bit_or_iff bit_push_bit_iff bit_unsigned_iff)
  next
    case False
    then have d: "m div 32 = Suc ((m - 32) div 32)" "m mod 32 = (m - 32) mod 32"
      by (simp_all add: le_div_geq le_mod_geq)
    have "\<not> bit (unat p) m"
    proof -
      have "(2::nat) ^ 32 \<le> 2 ^ m" using False by (intro power_increasing) simp_all
      with unat_limb_less [of p] have "unat p < 2 ^ m" by simp
      then show ?thesis by (simp add: bit_nat_def)
    qed
    then have "bit (limb_val (p # pn)) m \<longleftrightarrow> bit (limb_val pn) (m - 32)"
      using False unfolding limb_val.simps s by (simp add: bit_or_iff bit_push_bit_iff)
    also have "\<dots> \<longleftrightarrow> m < 32 * length (p # pn) \<and> bit ((p # pn) ! (m div 32)) (m mod 32)"
      unfolding Cons d using False by auto
    finally show ?thesis .
  qed
qed simp

lemma length_or_at [simp]: "length (or_at pn i w) = length pn"
  by (simp add: or_at_def)

lemma or_at_nth: "j < length pn \<Longrightarrow> or_at pn i w ! j = (if i = j then pn ! j OR w else pn ! j)"
  by (simp add: or_at_def nth_list_update)

text \<open>The limbs a left shift leaves, and a right shift.\<close>

definition shl_limb :: "base_uint \<Rightarrow> nat \<Rightarrow> nat \<Rightarrow> nat \<Rightarrow> nat \<Rightarrow> 32 word" where
  "shl_limb a k sh q j =
     (if k \<le> j \<and> j - k < q then push_bit sh (a ! (j - k)) else 0) OR
     (if k + 1 \<le> j \<and> j - k - 1 < q \<and> sh \<noteq> 0 then drop_bit (32 - sh) (a ! (j - k - 1)) else 0)"

lemma length_shl_step [simp]: "length (shl_step a k sh pn i) = length pn"
  by (simp add: shl_step_def Let_def)

lemma shl_step_nth:
  assumes "j < length a" "length pn = length a"
  shows "shl_step a k sh pn i ! j =
    pn ! j OR (if j = i + k then push_bit sh (a ! i) else 0) OR (if j = i + k + 1 \<and> sh \<noteq> 0 then drop_bit (32 - sh) (a ! i) else 0)"
  using assms by (simp add: shl_step_def Let_def or_at_nth)

lemma shl_limb_Suc:
  "shl_limb a k sh (Suc q) j =
     shl_limb a k sh q j OR (if j = q + k then push_bit sh (a ! q) else 0) OR (if j = q + k + 1 \<and> sh \<noteq> 0 then drop_bit (32 - sh) (a ! q) else 0)"
proof -
  consider "j = q + k" | "j = q + k + 1" | "j \<noteq> q + k" "j \<noteq> q + k + 1" by blast
  then show ?thesis
  proof cases
    case 1
    then show ?thesis by (simp add: shl_limb_def or.commute)
  next
    case 2
    then show ?thesis by (simp add: shl_limb_def)
  next
    case 3
    then have "k \<le> j \<and> j - k < Suc q \<longleftrightarrow> k \<le> j \<and> j - k < q" "k + 1 \<le> j \<and> j - k - 1 < Suc q \<longleftrightarrow> k + 1 \<le> j \<and> j - k - 1 < q" by auto
    with 3 show ?thesis unfolding shl_limb_def by (simp only: conj_assoc [symmetric] if_False or.right_neutral) simp
  qed
qed

lemma uint_shl_limbs:
  "length (uint_shl a s) = length a \<and>
   (\<forall>j < length a. uint_shl a s ! j = shl_limb a (s div 32) (s mod 32) (length a) j)"
proof -
  let ?k = "s div 32" and ?sh = "s mod 32"
  let ?r = "\<lambda>q. foldl (shl_step a ?k ?sh) (replicate (length a) 0) [0..<q]"
  have "length (?r q) = length a \<and> (\<forall>j < length a. ?r q ! j = shl_limb a ?k ?sh q j)" for q
    by (induction q) (simp add: shl_limb_def, simp add: shl_step_nth shl_limb_Suc)
  moreover have "uint_shl a s = ?r (length a)" by (simp add: uint_shl_def)
  ultimately show ?thesis by simp
qed

lemma length_uint_shl [simp]: "length (uint_shl a s) = length a"
  using uint_shl_limbs by blast

lemma limb_index: "n = 32 * j + t \<Longrightarrow> t < 32 \<Longrightarrow> n div 32 = j \<and> n mod 32 = t" for j t n :: nat
  by simp

lemma shift_index:
  "(m - s) div 32 = (if s mod 32 \<le> m mod 32 then m div 32 - s div 32 else m div 32 - s div 32 - 1)"
  "(m - s) mod 32 = (if s mod 32 \<le> m mod 32 then m mod 32 - s mod 32 else m mod 32 + 32 - s mod 32)"
  if "s \<le> m" for m s :: nat
proof -
  define j t k r where "j = m div 32" "t = m mod 32" "k = s div 32" "r = s mod 32"
  then have e: "m = 32 * j + t" "s = 32 * k + r" "t < 32" "r < 32" by simp_all
  have "m - s = 32 * (if r \<le> t then j - k else j - k - 1) + (if r \<le> t then t - r else t + 32 - r)" using e that by auto
  moreover have "(if r \<le> t then t - r else t + 32 - r) < 32" using e by auto
  ultimately have "(m - s) div 32 = (if r \<le> t then j - k else j - k - 1) \<and> (m - s) mod 32 = (if r \<le> t then t - r else t + 32 - r)"
    by (rule limb_index)
  then show "(m - s) div 32 = (if s mod 32 \<le> m mod 32 then m div 32 - s div 32 else m div 32 - s div 32 - 1)"
    "(m - s) mod 32 = (if s mod 32 \<le> m mod 32 then m mod 32 - s mod 32 else m mod 32 + 32 - s mod 32)"
    by (simp_all add: j_t_k_r_def)
qed

lemma shift_index_le:
  "s \<le> m \<longleftrightarrow> (if s mod 32 \<le> m mod 32 then s div 32 \<le> m div 32 else s div 32 + 1 \<le> m div 32)" for m s :: nat
proof -
  define j t k r where "j = m div 32" "t = m mod 32" "k = s div 32" "r = s mod 32"
  then have e: "m = 32 * j + t" "s = 32 * k + r" "t < 32" "r < 32" by simp_all
  then have "s \<le> m \<longleftrightarrow> (if r \<le> t then k \<le> j else k + 1 \<le> j)" by auto
  then show ?thesis by (simp add: j_t_k_r_def)
qed

lemma add_index:
  "(m + s) div 32 = (if m mod 32 + s mod 32 < 32 then m div 32 + s div 32 else m div 32 + s div 32 + 1)"
  "(m + s) mod 32 = (if m mod 32 + s mod 32 < 32 then m mod 32 + s mod 32 else m mod 32 + s mod 32 - 32)" for m s :: nat
proof -
  define j t k r where "j = m div 32" "t = m mod 32" "k = s div 32" "r = s mod 32"
  then have e: "m = 32 * j + t" "s = 32 * k + r" "t < 32" "r < 32" by simp_all
  have "m + s = 32 * (if t + r < 32 then j + k else j + k + 1) + (if t + r < 32 then t + r else t + r - 32)" using e by auto
  moreover have "(if t + r < 32 then t + r else t + r - 32) < 32" using e by auto
  ultimately have "(m + s) div 32 = (if t + r < 32 then j + k else j + k + 1) \<and> (m + s) mod 32 = (if t + r < 32 then t + r else t + r - 32)"
    by (rule limb_index)
  then show "(m + s) div 32 = (if m mod 32 + s mod 32 < 32 then m div 32 + s div 32 else m div 32 + s div 32 + 1)"
    "(m + s) mod 32 = (if m mod 32 + s mod 32 < 32 then m mod 32 + s mod 32 else m mod 32 + s mod 32 - 32)"
    by (simp_all add: j_t_k_r_def)
qed

lemma bit_shl_limb:
  assumes "t < 32" "sh < 32" "j < n"
  shows "bit (shl_limb a k sh n j) t \<longleftrightarrow>
    (k \<le> j \<and> sh \<le> t \<and> bit (a ! (j - k)) (t - sh)) \<or> (k + 1 \<le> j \<and> t < sh \<and> bit (a ! (j - k - 1)) (t + 32 - sh))"
proof -
  have "bit (drop_bit (32 - sh) w) t \<longleftrightarrow> t < sh \<and> bit w (t + 32 - sh)" if "sh \<noteq> 0" for w :: "32 word"
    using assms that bit_imp_le_length [of w "t + 32 - sh"] by (auto simp: bit_drop_bit_eq add.commute)
  then show ?thesis using assms by (auto simp: shl_limb_def bit_or_iff bit_push_bit_iff)
qed

lemma uint_shl_val: "limb_val (uint_shl a s) = limb_val a * 2 ^ s mod B ^ length a"
proof (rule bit_eqI)
  fix m
  have pw: "B ^ length a = 2 ^ (32 * length a)" by (simp add: power_mult)
  have r: "bit (limb_val a * 2 ^ s mod B ^ length a) m \<longleftrightarrow> m < 32 * length a \<and> s \<le> m \<and> bit (limb_val a) (m - s)"
    unfolding pw push_bit_eq_mult [symmetric] take_bit_eq_mod [symmetric] by (auto simp: bit_take_bit_iff bit_push_bit_iff)
  show "bit (limb_val (uint_shl a s)) m \<longleftrightarrow> bit (limb_val a * 2 ^ s mod B ^ length a) m"
  proof (cases "m < 32 * length a")
    case True
    let ?j = "m div 32" and ?t = "m mod 32" and ?k = "s div 32" and ?sh = "s mod 32"
    have j: "?j < length a" using True by (simp add: less_mult_imp_div_less mult.commute)
    have "bit (limb_val (uint_shl a s)) m \<longleftrightarrow> bit (shl_limb a ?k ?sh (length a) ?j) ?t"
      using uint_shl_limbs [of a s] True j by (simp add: bit_limb_val)
    also have "\<dots> \<longleftrightarrow> (?k \<le> ?j \<and> ?sh \<le> ?t \<and> bit (a ! (?j - ?k)) (?t - ?sh)) \<or>
        (?k + 1 \<le> ?j \<and> ?t < ?sh \<and> bit (a ! (?j - ?k - 1)) (?t + 32 - ?sh))"
      using j by (intro bit_shl_limb) simp_all
    also have "\<dots> \<longleftrightarrow> s \<le> m \<and> bit (limb_val a) (m - s)"
    proof (cases "s \<le> m")
      case le: True
      then show ?thesis using True shift_index_le [of s m] less_imp_diff_less [OF True, of s]
        by (cases "?sh \<le> ?t") (simp_all add: bit_limb_val shift_index [OF le])
    next
      case False
      then show ?thesis using shift_index_le [of s m] by (cases "?sh \<le> ?t") simp_all
    qed
    finally show ?thesis using r True by simp
  qed (simp add: r bit_limb_val)
qed

definition shr_limb :: "base_uint \<Rightarrow> nat \<Rightarrow> nat \<Rightarrow> nat \<Rightarrow> nat \<Rightarrow> 32 word" where
  "shr_limb a k sh q j =
     (if j + k < q then drop_bit sh (a ! (j + k)) else 0) OR
     (if j + k + 1 < q \<and> sh \<noteq> 0 then push_bit (32 - sh) (a ! (j + k + 1)) else 0)"

lemma length_shr_step [simp]: "length (shr_step a k sh pn i) = length pn"
  by (simp add: shr_step_def Let_def)

lemma shr_step_nth:
  assumes "j < length a" "length pn = length a"
  shows "shr_step a k sh pn i ! j =
    pn ! j OR (if i = j + k then drop_bit sh (a ! i) else 0) OR (if i = j + k + 1 \<and> sh \<noteq> 0 then push_bit (32 - sh) (a ! i) else 0)"
  using assms by (auto simp: shr_step_def Let_def or_at_nth)

lemma shr_limb_Suc:
  "shr_limb a k sh (Suc q) j =
     shr_limb a k sh q j OR (if q = j + k then drop_bit sh (a ! q) else 0) OR (if q = j + k + 1 \<and> sh \<noteq> 0 then push_bit (32 - sh) (a ! q) else 0)"
  by (auto simp: shr_limb_def less_Suc_eq)

lemma uint_shr_limbs:
  "length (uint_shr a s) = length a \<and>
   (\<forall>j < length a. uint_shr a s ! j = shr_limb a (s div 32) (s mod 32) (length a) j)"
proof -
  let ?k = "s div 32" and ?sh = "s mod 32"
  let ?r = "\<lambda>q. foldl (shr_step a ?k ?sh) (replicate (length a) 0) [0..<q]"
  have "length (?r q) = length a \<and> (\<forall>j < length a. ?r q ! j = shr_limb a ?k ?sh q j)" for q
    by (induction q) (simp add: shr_limb_def, simp add: shr_step_nth shr_limb_Suc)
  moreover have "uint_shr a s = ?r (length a)" by (simp add: uint_shr_def)
  ultimately show ?thesis by simp
qed

lemma length_uint_shr [simp]: "length (uint_shr a s) = length a"
  using uint_shr_limbs by blast

lemma bit_shr_limb:
  assumes "t < 32" "sh < 32"
  shows "bit (shr_limb a k sh n j) t \<longleftrightarrow>
    (j + k < n \<and> t + sh < 32 \<and> bit (a ! (j + k)) (t + sh)) \<or>
    (j + k + 1 < n \<and> 32 \<le> t + sh \<and> bit (a ! (j + k + 1)) (t + sh - 32))"
proof -
  have "bit (push_bit (32 - sh) w) t \<longleftrightarrow> 32 \<le> t + sh \<and> bit w (t + sh - 32)" for w :: "32 word"
    using assms by (auto simp: bit_push_bit_iff)
  moreover have "bit (drop_bit sh w) t \<longleftrightarrow> t + sh < 32 \<and> bit w (t + sh)" for w :: "32 word"
    using bit_imp_le_length [of w "t + sh"] by (auto simp: bit_drop_bit_eq add.commute)
  ultimately show ?thesis using assms by (auto simp: shr_limb_def bit_or_iff)
qed

lemma uint_shr_val: "limb_val (uint_shr a s) = limb_val a div 2 ^ s"
proof (rule bit_eqI)
  fix m
  have r: "bit (limb_val a div 2 ^ s) m \<longleftrightarrow> bit (limb_val a) (m + s)"
    unfolding drop_bit_eq_div [symmetric] by (simp add: bit_drop_bit_eq add.commute)
  show "bit (limb_val (uint_shr a s)) m \<longleftrightarrow> bit (limb_val a div 2 ^ s) m"
  proof (cases "m < 32 * length a")
    case True
    let ?j = "m div 32" and ?t = "m mod 32" and ?k = "s div 32" and ?sh = "s mod 32"
    have j: "?j < length a" using True by (simp add: less_mult_imp_div_less mult.commute)
    have "bit (limb_val (uint_shr a s)) m \<longleftrightarrow> bit (shr_limb a ?k ?sh (length a) ?j) ?t"
      using uint_shr_limbs [of a s] True j by (simp add: bit_limb_val)
    also have "\<dots> \<longleftrightarrow> (?j + ?k < length a \<and> ?t + ?sh < 32 \<and> bit (a ! (?j + ?k)) (?t + ?sh)) \<or>
        (?j + ?k + 1 < length a \<and> 32 \<le> ?t + ?sh \<and> bit (a ! (?j + ?k + 1)) (?t + ?sh - 32))"
      by (intro bit_shr_limb) simp_all
    also have "\<dots> \<longleftrightarrow> bit (limb_val a) (m + s)"
    proof -
      have "m + s < 32 * length a \<longleftrightarrow> (m + s) div 32 < length a" by (simp add: div_less_iff_less_mult mult.commute)
      then show ?thesis by (cases "?t + ?sh < 32") (simp_all add: bit_limb_val add_index)
    qed
    finally show ?thesis using r by simp
  qed (simp add: r bit_limb_val)
qed

section \<open>Bit length and division\<close>

lemma limb_and_bit: "p AND push_bit n 1 \<noteq> 0 \<longleftrightarrow> bit p n" for p :: "32 word"
  by (simp add: and_exp_eq_0_iff_not_bit push_bit_of_1)

lemma limb_bits_Suc: "limb_bits (Suc n) p = (if bit p (Suc n) then Suc n + 1 else limb_bits n p)"
  by (simp only: limb_bits.simps limb_and_bit)

lemma limb_bits_bounds:
  "unat p < 2 ^ Suc n \<Longrightarrow> p \<noteq> 0 \<Longrightarrow>
     0 < limb_bits n p \<and> limb_bits n p \<le> Suc n \<and> 2 ^ (limb_bits n p - 1) \<le> unat p \<and> unat p < 2 ^ limb_bits n p"
proof (induction n)
  case 0
  then show ?case by (simp add: unat_gt_0 Suc_le_eq)
next
  case (Suc n)
  show ?case
  proof (cases "bit p (Suc n)")
    case True
    then have "bit (unat p) (Suc n)" by (simp add: bit_unsigned_iff bit_imp_le_length)
    then have "2 ^ Suc n \<le> unat p" by (metis bit_nat_iff bit_take_bit_iff leI less_irrefl take_bit_nat_eq_self)
    with True Suc.prems show ?thesis by (simp add: limb_bits_Suc del: limb_bits.simps)
  next
    case False
    then have "take_bit (Suc (Suc n)) (unat p) = take_bit (Suc n) (unat p)"
      by (intro bit_eqI) (auto simp: bit_take_bit_iff bit_unsigned_iff less_Suc_eq)
    moreover have "take_bit (Suc (Suc n)) (unat p) = unat p" using Suc.prems by (simp add: take_bit_nat_eq_self)
    ultimately have "unat p < 2 ^ Suc n" by (metis take_bit_nat_less_exp)
    with Suc False show ?thesis by (auto simp: limb_bits_Suc simp del: limb_bits.simps)
  qed
qed

lemma bits_loop_bounds:
  "bits_loop pn \<le> 32 * length pn \<and> limb_val (rev pn) < 2 ^ bits_loop pn \<and>
   (limb_val (rev pn) = 0 \<longrightarrow> bits_loop pn = 0) \<and> (limb_val (rev pn) \<noteq> 0 \<longrightarrow> 2 ^ (bits_loop pn - 1) \<le> limb_val (rev pn))"
proof (induction pn)
  case (Cons p pn)
  show ?case
  proof (cases "p = 0")
    case False
    let ?l = "limb_bits 31 p" and ?n = "32 * length pn" and ?v = "limb_val (rev pn)"
    have l: "0 < ?l" "?l \<le> 32" "2 ^ (?l - 1) \<le> unat p" "unat p < 2 ^ ?l"
      using limb_bits_bounds [of p 31] False unat_limb_less [of p] by simp_all
    have e: "limb_val (rev (p # pn)) = ?v + 2 ^ ?n * unat p" by (simp add: limb_val_append power_mult)
    have v: "?v < 2 ^ ?n" using limb_val_less [of "rev pn"] by (simp add: power_mult)
    have "?v + 2 ^ ?n * unat p < 2 ^ ?n * (unat p + 1)" using v by simp
    also have "\<dots> \<le> 2 ^ ?n * 2 ^ ?l" using l by (intro mult_le_mono2) simp
    finally have up: "limb_val (rev (p # pn)) < 2 ^ (?n + ?l)" unfolding e power_add .
    have "?n + ?l - 1 = ?n + (?l - 1)" using l(1) by simp
    then have "2 ^ (?n + ?l - 1) = 2 ^ ?n * (2 :: nat) ^ (?l - 1)" by (simp only: power_add)
    also have "\<dots> \<le> 2 ^ ?n * unat p" using l by (intro mult_le_mono2) simp
    finally have lo: "2 ^ (?n + ?l - 1) \<le> limb_val (rev (p # pn))" unfolding e by simp
    from up lo l False show ?thesis using e by (simp add: unat_eq_zero)
  qed (use Cons in \<open>simp add: limb_val_append\<close>)
qed simp

lemma uint_bits_bounds:
  "uint_bits a \<le> 32 * length a" "limb_val a < 2 ^ uint_bits a" "uint_bits a = 0 \<longleftrightarrow> limb_val a = 0"
  "limb_val a \<noteq> 0 \<Longrightarrow> 2 ^ (uint_bits a - 1) \<le> limb_val a"
  using bits_loop_bounds [of "rev a"] by (auto simp: uint_bits_def)

lemma or_at_bit_val:
  assumes "s < 32 * length pn" "2 ^ Suc s dvd limb_val pn"
  shows "limb_val (or_at pn (s div 32) (push_bit (s mod 32) 1)) = limb_val pn + 2 ^ s"
proof -
  have nb: "\<not> bit (limb_val pn) s"
    using assms(2) by (auto elim!: dvdE simp: push_bit_eq_mult [symmetric] mult.commute [of "2 ^ Suc s"] bit_push_bit_iff bit_0 simp del: power_Suc)
  have "limb_val (or_at pn (s div 32) (push_bit (s mod 32) 1)) = limb_val pn OR 2 ^ s"
  proof (rule bit_eqI)
    fix m
    have "m = s \<longleftrightarrow> m div 32 = s div 32 \<and> m mod 32 = s mod 32" by (metis div_mult_mod_eq)
    moreover have "bit (push_bit (s mod 32) 1 :: 32 word) (m mod 32) \<longleftrightarrow> m mod 32 = s mod 32"
      by (simp add: push_bit_of_1 bit_exp_iff)
    ultimately show "bit (limb_val (or_at pn (s div 32) (push_bit (s mod 32) 1))) m \<longleftrightarrow> bit (limb_val pn OR 2 ^ s) m"
      using assms(1) less_mult_imp_div_less [of m "length pn" 32]
      by (auto simp: bit_limb_val bit_or_iff bit_exp_iff or_at_nth mult.commute split: if_splits)
  qed
  also have "\<dots> = limb_val pn + 2 ^ s"
    using nb by (intro disjunctive_add [symmetric]) (auto simp: bit_exp_iff)
  finally show ?thesis .
qed

lemma length_div_loop [simp]: "length (div_loop n dv num pn) = length pn"
  by (induction n dv num pn rule: div_loop.induct) auto

lemma div_loop_val:
  assumes "length dv = length num" "length num = length pn" "n \<le> 32 * length pn" "0 < d"
    "n > 0 \<Longrightarrow> limb_val dv = d * 2 ^ (n - 1)" "limb_val num < d * 2 ^ n" "2 ^ n dvd limb_val pn"
  shows "limb_val (div_loop n dv num pn) = limb_val pn + limb_val num div d"
  using assms
proof (induction n dv num pn rule: div_loop.induct)
  case (2 s dv num pn)
  have dv: "limb_val dv = d * 2 ^ s" using "2.prems"(5) by simp
  have shr: "s > 0 \<Longrightarrow> limb_val (uint_shr dv 1) = d * 2 ^ (s - 1)" by (cases s) (simp_all add: uint_shr_val dv)
  show ?case
  proof (cases "CompareTo num dv \<ge> 0")
    case True
    then have le: "d * 2 ^ s \<le> limb_val num" using "2.prems"(1) dv by (simp add: CompareTo_val split: if_splits)
    let ?pn = "or_at pn (s div 32) (push_bit (s mod 32) 1)"
    have pn: "limb_val ?pn = limb_val pn + 2 ^ s" using "2.prems"(3,7) by (intro or_at_bit_val) simp_all
    have sub: "limb_val (uint_sub num dv) = limb_val num - d * 2 ^ s" using le "2.prems"(1) dv by (simp add: uint_sub_val)
    have dvd: "2 ^ s dvd limb_val pn" using "2.prems"(7) by (simp add: power_Suc dvd_mult_right)
    have "limb_val (div_loop s (uint_shr dv 1) (uint_sub num dv) ?pn) = limb_val ?pn + limb_val (uint_sub num dv) div d"
      using "2.prems" le by (intro "2.IH"(1) True shr) (simp_all add: sub pn [unfolded push_bit_of_1] dvd)
    also have "\<dots> = limb_val pn + (2 ^ s + (limb_val num - d * 2 ^ s) div d)" by (simp add: pn [unfolded push_bit_of_1] sub)
    also have "2 ^ s + (limb_val num - d * 2 ^ s) div d = (d * 2 ^ s + (limb_val num - d * 2 ^ s)) div d" using "2.prems"(4) by simp
    finally show ?thesis using True le by simp
  next
    case False
    then have "limb_val num < d * 2 ^ s" using "2.prems"(1) dv by (simp add: CompareTo_val split: if_splits)
    moreover have "2 ^ s dvd limb_val pn" using "2.prems"(7) by (simp add: power_Suc dvd_mult_right)
    ultimately have "limb_val (div_loop s (uint_shr dv 1) num pn) = limb_val pn + limb_val num div d"
      using "2.prems" by (intro "2.IH"(2) False shr) simp_all
    then show ?thesis using False by simp
  qed
qed simp

lemma uint_div_val:
  assumes "length a = length b" "limb_val b \<noteq> 0"
  shows "\<exists>q. uint_div a b = Some q \<and> length q = length a \<and> limb_val q = limb_val a div limb_val b"
proof -
  have nz: "uint_bits b \<noteq> 0" using assms(2) by (simp add: uint_bits_bounds(3))
  show ?thesis
  proof (cases "uint_bits b > uint_bits a")
    case True
    have "limb_val a < 2 ^ uint_bits a" by (rule uint_bits_bounds)
    also have "\<dots> \<le> 2 ^ (uint_bits b - 1)" using True by (intro power_increasing) simp_all
    also have "\<dots> \<le> limb_val b" by (rule uint_bits_bounds(4)) (rule assms(2))
    finally show ?thesis using True nz by (simp add: uint_div_def)
  next
    case False
    let ?s = "uint_bits a - uint_bits b"
    have "limb_val b * 2 ^ ?s < 2 ^ uint_bits b * 2 ^ ?s" using uint_bits_bounds(2) [of b] by simp
    also have "\<dots> = 2 ^ uint_bits a" using False by (simp add: power_add [symmetric])
    also have "\<dots> \<le> 2 ^ (32 * length a)" using uint_bits_bounds(1) [of a] by (intro power_increasing) simp_all
    finally have shl: "limb_val (uint_shl b ?s) = limb_val b * 2 ^ ?s"
      using assms(1) by (simp add: uint_shl_val power_mult)
    have "limb_val a < 2 ^ uint_bits a" by (rule uint_bits_bounds)
    also have "\<dots> = 2 ^ (uint_bits b - 1 + Suc ?s)" using False nz by simp
    also have "\<dots> = 2 ^ (uint_bits b - 1) * 2 ^ Suc ?s" by (rule power_add)
    also have "\<dots> \<le> limb_val b * 2 ^ Suc ?s" using uint_bits_bounds(4) [OF assms(2)] by (intro mult_le_mono1)
    finally have lt: "limb_val a < limb_val b * 2 ^ Suc ?s" .
    have "Suc ?s \<le> 32 * length a" using uint_bits_bounds(1) [of a] nz False by simp
    then have "limb_val (div_loop (Suc ?s) (uint_shl b ?s) a (replicate (length a) 0)) = limb_val a div limb_val b"
      using assms lt shl by (subst div_loop_val [where d = "limb_val b"]) (simp_all del: div_loop.simps)
    then show ?thesis using False nz by (simp add: uint_div_def Let_def del: div_loop.simps)
  qed
qed

lemma uint_div_zero: "uint_div a b = None \<longleftrightarrow> limb_val b = 0"
  by (simp add: uint_div_def Let_def uint_bits_bounds(3))

section \<open>The remaining operators\<close>

lemma uint_sub_mod:
  "length a = length b \<Longrightarrow> limb_val (uint_sub a b) = (limb_val a + (B ^ length a - limb_val b)) mod B ^ length a"
  by (simp add: uint_sub_def uint_add_val uint_neg_val mod_add_right_eq)

lemma length_uint_dec [simp]: "length (uint_dec pn) = length pn"
  by (induction pn) auto

lemma limb_val_max [simp]: "limb_val (replicate n (- 1)) = B ^ n - 1"
  using uint_not_val [of "replicate n 0"] by (simp add: uint_not_def)

lemma uint_dec_val: "limb_val (uint_dec pn) = (if limb_val pn = 0 then B ^ length pn - 1 else limb_val pn - 1)"
proof (induction pn)
  case (Cons p pn)
  show ?case
  proof (cases "p = 0")
    case True
    have "0 < limb_val pn \<Longrightarrow> B - 1 + B * (limb_val pn - 1) = B * limb_val pn - 1"
      by (cases "limb_val pn") simp_all
    moreover have "B - 1 + B * (B ^ length pn - 1) = B * B ^ length pn - 1"
      by (cases "B ^ length pn") simp_all
    moreover have "unat (- 1 :: 32 word) = B - 1" by (simp add: unsigned_minus_1_eq_mask mask_eq_exp_minus_1)
    ultimately show ?thesis using True Cons by simp
  next
    case False
    then have "p - 1 \<noteq> - 1" by simp
    moreover have "unat (p - 1) = unat p - 1" "0 < unat p"
      using False by (simp_all add: unat_minus_one unat_gt_0)
    ultimately show ?thesis using False by simp
  qed
qed simp

lemma bitwise_vals:
  assumes "length a = length b"
  shows "limb_val (uint_and a b) = limb_val a AND limb_val b"
    and "limb_val (uint_or a b) = limb_val a OR limb_val b"
    and "limb_val (uint_xor a b) = limb_val a XOR limb_val b"
proof -
  have i: "m div 32 < length a" if "m < 32 * length a" for m using that by (simp add: less_mult_imp_div_less mult.commute)
  show "limb_val (uint_and a b) = limb_val a AND limb_val b" "limb_val (uint_or a b) = limb_val a OR limb_val b"
      "limb_val (uint_xor a b) = limb_val a XOR limb_val b"
    by (rule bit_eqI; use assms i in \<open>auto simp: uint_and_def uint_or_def uint_xor_def bit_limb_val bit_and_iff bit_or_iff bit_xor_iff\<close>)+
qed

lemma divmod_limb: "x < B \<Longrightarrow> x + B * z = n \<longleftrightarrow> x = n mod B \<and> z = n div B" for x z n :: nat
  by auto

lemma EqualTo_val: "2 \<le> length pn \<Longrightarrow> EqualTo pn b \<longleftrightarrow> limb_val pn = unat b"
proof -
  assume "2 \<le> length pn"
  then obtain x y r where pn: "pn = x # y # r" by (metis One_nat_def Suc_1 Suc_le_length_iff)
  have z: "limb_val r = 0 \<longleftrightarrow> \<not> list_ex (\<lambda>p. p \<noteq> 0) r" by (induction r) (auto simp: unat_eq_zero)
  have lo: "x = ucast (b AND 0xffffffff) \<longleftrightarrow> unat x = unat b mod B" by (simp add: word_unat_eq_iff low_half)
  have "unat b < B * B" using unsigned_less [of b, where 'a = nat] by simp
  then have bb: "unat b div B < B" by (rule less_mult_imp_div_less)
  then have hi: "y = ucast (drop_bit 32 b) \<longleftrightarrow> unat y = unat b div B"
    by (simp only: word_unat_eq_iff unat_ucast high_half) simp
  have "unat x + B * (unat y + B * limb_val r) = unat b \<longleftrightarrow> unat x = unat b mod B \<and> unat y + B * limb_val r = unat b div B"
    by (rule divmod_limb) (rule unat_limb_less)
  moreover have "unat y + B * limb_val r = unat b div B \<longleftrightarrow> unat y = unat b div B \<and> limb_val r = 0"
    using bb by (cases "limb_val r") auto
  ultimately show ?thesis by (auto simp: EqualTo_def pn lo hi z)
qed

lemma length_uint_mul32 [simp]: "length (uint_mul32 pn b) = length pn"
  by (simp add: uint_mul32_def)

lemma length_uint_mul [simp]: "length (uint_mul a b) = length a"
  by (simp add: uint_mul_def)

lemma base_uint_64_val: "limb_val (base_uint_64 b) = unat b" "length (base_uint_64 b) = WIDTH"
proof -
  have "unat (ucast b :: 32 word) = unat b mod B" by (simp add: unat_ucast)
  moreover have "unat (ucast (drop_bit 32 b) :: 32 word) = unat b div B"
  proof -
    have "unat b < B * B" using unsigned_less [of b, where 'a = nat] by simp
    then have "unat b div B < B" by (rule less_mult_imp_div_less)
    then show ?thesis by (simp only: unat_ucast high_half) simp
  qed
  ultimately show "limb_val (base_uint_64 b) = unat b" by (simp add: base_uint_64_def limb_val_append)
qed (simp add: base_uint_64_def WIDTH_def)

section \<open>Conversion from and to 256-bit strings\<close>

lemma unat_ReadLE32: "4 \<le> length d \<Longrightarrow> unat (ReadLE32 d) = le_val (take 4 d)"
  using le_val_less [of "take 4 d"] by (simp add: ReadLE32_def unat_of_nat)

lemma read_limbs_val: "length d = 4 * n \<Longrightarrow> limb_val (map (\<lambda>x. ReadLE32 (drop (x * 4) d)) [0..<n]) = le_val d"
proof (induction n arbitrary: d)
  case (Suc n)
  have "map (\<lambda>x. ReadLE32 (drop (x * 4) d)) [0..<Suc n] = ReadLE32 d # map (\<lambda>x. ReadLE32 (drop (x * 4) (drop 4 d))) [0..<n]"
    by (simp only: map_upt_Suc) (simp add: add.commute)
  then have "limb_val (map (\<lambda>x. ReadLE32 (drop (x * 4) d)) [0..<Suc n]) = le_val (take 4 d) + B * le_val (drop 4 d)"
    using Suc.prems Suc.IH [of "drop 4 d"] by (simp add: unat_ReadLE32 del: upt_Suc drop_drop)
  also have "\<dots> = le_val (take 4 d @ drop 4 d)" using Suc.prems by (simp only: le_val_append) simp
  finally show ?case by simp
qed simp

lemma UintToArith256_val: "limb_val (UintToArith256 u) = unat u" "length (UintToArith256 u) = WIDTH"
proof -
  have "limb_val (UintToArith256 u) = le_val (uint256_data u)"
    unfolding UintToArith256_def by (rule read_limbs_val) (simp add: WIDTH_def)
  also have "\<dots> = unat u" using unsigned_less [of u, where 'a = nat] by (simp add: uint256_data_def le_val_le_bytes)
  finally show "limb_val (UintToArith256 u) = unat u" .
qed (simp add: UintToArith256_def)

lemma write_limbs_val: "le_val (concat (map WriteLE32 a)) = limb_val a" "length (concat (map WriteLE32 a)) = 4 * length a"
  by (induction a) (simp_all add: le_val_append WriteLE32_def le_val_le_bytes unat_limb_less)

lemma ArithToUint256_val: "length a = WIDTH \<Longrightarrow> unat (ArithToUint256 a) = limb_val a"
  using limb_val_less [of a] by (simp add: ArithToUint256_def uint256_of_def write_limbs_val unat_of_nat WIDTH_def)

lemma UintToArith256_inverse: "length a = WIDTH \<Longrightarrow> UintToArith256 (ArithToUint256 a) = a"
  by (subst limb_val_inject [symmetric]) (simp_all add: UintToArith256_val ArithToUint256_val)

lemma ArithToUint256_inverse: "ArithToUint256 (UintToArith256 u) = u"
  by (simp add: word_unat_eq_iff UintToArith256_val ArithToUint256_val)

section \<open>What the class promises\<close>

text \<open>
  The contract the difficulty and chain-work code relies on: a value below \<open>M\<close> for each object, and operators that
  compute modulo \<open>M\<close>.
\<close>

locale big_uint =
  fixes val :: "'a \<Rightarrow> nat" and valid :: "'a \<Rightarrow> bool" and M :: nat
    and of64 :: "64 word \<Rightarrow> 'a" and add :: "'a \<Rightarrow> 'a \<Rightarrow> 'a" and mul32 :: "'a \<Rightarrow> 32 word \<Rightarrow> 'a" and mul :: "'a \<Rightarrow> 'a \<Rightarrow> 'a"
    and quo :: "'a \<Rightarrow> 'a \<Rightarrow> 'a option" and cmp :: "'a \<Rightarrow> 'a \<Rightarrow> int"
  assumes val_less: "valid a \<Longrightarrow> val a < M"
    and of64: "valid (of64 w)" "val (of64 w) = unat w"
    and add: "valid a \<Longrightarrow> valid b \<Longrightarrow> valid (add a b) \<and> val (add a b) = (val a + val b) mod M"
    and mul32: "valid a \<Longrightarrow> valid (mul32 a n) \<and> val (mul32 a n) = val a * unat n mod M"
    and mul: "valid a \<Longrightarrow> valid b \<Longrightarrow> valid (mul a b) \<and> val (mul a b) = val a * val b mod M"
    and quo: "valid a \<Longrightarrow> valid b \<Longrightarrow> val b \<noteq> 0 \<Longrightarrow> \<exists>q. quo a b = Some q \<and> valid q \<and> val q = val a div val b"
    and cmp: "valid a \<Longrightarrow> valid b \<Longrightarrow> 0 < cmp a b \<longleftrightarrow> val b < val a"
begin

lemma quo64: "valid a \<Longrightarrow> d \<noteq> 0 \<Longrightarrow> \<exists>r. quo a (of64 d) = Some r \<and> valid r \<and> val r = val a div unat d"
  using quo [of a "of64 d"] of64 by (simp add: unat_eq_zero)

lemma scale:
  assumes "valid a" "val a * unat n < M" "d \<noteq> 0"
  shows "\<exists>r. quo (mul32 a n) (of64 d) = Some r \<and> valid r \<and> val r = val a * unat n div unat d"
  using assms mul32 [of a n] quo64 [of "mul32 a n" d] by simp

lemma clamp:
  assumes "valid a" "valid l"
  shows "valid (if 0 < cmp a l then l else a)" "val (if 0 < cmp a l then l else a) = min (val a) (val l)"
  using assms cmp [of a l] by (auto simp: min_def)

lemma moving_average:
  assumes "valid a" "valid t" "val a \<le> L" "val t \<le> L" "L * (unat n + 1) < M" "unat d = unat n + 1"
  shows "\<exists>r. quo (add (mul32 a n) t) (of64 d) = Some r \<and> valid r \<and> val r = (val a * unat n + val t) div (unat n + 1) \<and> val r \<le> L"
proof -
  have le: "val a * unat n + val t \<le> L * (unat n + 1)" 
    using add_mono [OF mult_le_mono1 [OF assms(3), of "unat n"] assms(4)] by simp
  then have "val (mul32 a n) = val a * unat n" "valid (mul32 a n)" using mul32 [OF assms(1), of n] assms(5) by simp_all
  then have v: "valid (add (mul32 a n) t)" "val (add (mul32 a n) t) = val a * unat n + val t"
    using add [of "mul32 a n" t] assms(2,5) le by simp_all
  have "d \<noteq> 0" using assms(6) by (simp add: unat_eq_zero [symmetric])
  then obtain r where r: "quo (add (mul32 a n) t) (of64 d) = Some r" "valid r" "val r = (val a * unat n + val t) div (unat n + 1)"
    using quo64 [OF v(1), of d] v(2) assms(6) by auto
  have "(val a * unat n + val t) div (unat n + 1) \<le> L * (unat n + 1) div (unat n + 1)" by (rule div_le_mono) (rule le)
  also have "\<dots> = L" by (rule nonzero_mult_div_cancel_right) simp
  finally show ?thesis using r by simp
qed

end

abbreviation is_uint256 :: "base_uint \<Rightarrow> bool" where "is_uint256 a \<equiv> length a = WIDTH"

lemma uint256_modulus: "B ^ WIDTH = 2 ^ 256"
  by (simp add: WIDTH_def)

lemma limb_val_256: "is_uint256 a \<Longrightarrow> limb_val a < 2 ^ 256"
  using limb_val_less [of a] by (simp only: uint256_modulus)

interpretation au: big_uint limb_val is_uint256 "2 ^ 256" base_uint_64 uint_add uint_mul32 uint_mul uint_div CompareTo
proof unfold_locales
  fix a b :: base_uint and n :: "32 word"
  assume a: "is_uint256 a"
  show "limb_val a < 2 ^ 256" by (rule limb_val_256) (rule a)
  show "is_uint256 (uint_mul32 a n) \<and> limb_val (uint_mul32 a n) = limb_val a * unat n mod 2 ^ 256"
    using a by (simp only: uint_mul32_val length_uint_mul32 uint256_modulus mult.commute [of "unat n"])
  assume b: "is_uint256 b"
  then have ab: "length a = length b" using a by simp
  show "is_uint256 (uint_add a b) \<and> limb_val (uint_add a b) = (limb_val a + limb_val b) mod 2 ^ 256"
    using a uint_add_val [OF ab] length_uint_add [OF ab] by (simp only: uint256_modulus)
  show "is_uint256 (uint_mul a b) \<and> limb_val (uint_mul a b) = limb_val a * limb_val b mod 2 ^ 256"
    using a uint_mul_val [OF ab] by (simp only: length_uint_mul uint256_modulus)
  show "0 < CompareTo a b \<longleftrightarrow> limb_val b < limb_val a" using ab by (simp add: CompareTo_val)
  show "\<exists>q. uint_div a b = Some q \<and> is_uint256 q \<and> limb_val q = limb_val a div limb_val b" if "limb_val b \<noteq> 0"
    using uint_div_val [OF ab that] a by simp
qed (simp_all add: base_uint_64_val)

text \<open>
  C21.  The limb-by-limb operators of \<open>arith_uint256\<close> compute on natural numbers modulo \<open>2 ^ 256\<close>: addition,
  subtraction, multiplication, both shifts, complement, comparison and equality with an integer; division is the
  quotient, and throws exactly on a zero divisor.
\<close>

theorem arith_uint256_spec:
  assumes "length a = WIDTH" "length b = WIDTH"
  shows "limb_val (uint_add a b) = (limb_val a + limb_val b) mod 2 ^ 256 \<and>
    (limb_val (uint_sub a b) + limb_val b) mod 2 ^ 256 = limb_val a \<and>
    limb_val (uint_mul a b) = limb_val a * limb_val b mod 2 ^ 256 \<and>
    limb_val (uint_shl a s) = limb_val a * 2 ^ s mod 2 ^ 256 \<and>
    limb_val (uint_shr a s) = limb_val a div 2 ^ s \<and>
    limb_val (uint_not a) = 2 ^ 256 - 1 - limb_val a \<and>
    CompareTo a b = sgn (int (limb_val a) - int (limb_val b)) \<and>
    (EqualTo a w \<longleftrightarrow> limb_val a = unat w) \<and>
    (if limb_val b = 0 then uint_div a b = None
     else map_option limb_val (uint_div a b) = Some (limb_val a div limb_val b))"
proof -
  have l: "limb_val a < 2 ^ 256" "limb_val b < 2 ^ 256" using assms by (simp_all only: limb_val_256)
  have "(limb_val (uint_sub a b) + limb_val b) mod 2 ^ 256 = (limb_val a + (2 ^ 256 - limb_val b) + limb_val b) mod 2 ^ 256"
    using assms by (simp only: uint_sub_mod uint256_modulus mod_add_left_eq)
  also have "\<dots> = limb_val a" using l by simp
  finally have sub: "(limb_val (uint_sub a b) + limb_val b) mod 2 ^ 256 = limb_val a" .
  have d: "if limb_val b = 0 then uint_div a b = None else map_option limb_val (uint_div a b) = Some (limb_val a div limb_val b)"
    using uint_div_val [of a b] uint_div_zero [of a b] assms by auto
  have c: "CompareTo a b = sgn (int (limb_val a) - int (limb_val b))" using assms by (simp add: CompareTo_val)
  have e: "EqualTo a w \<longleftrightarrow> limb_val a = unat w" using assms by (intro EqualTo_val) (simp add: WIDTH_def)
  have "limb_val (uint_add a b) = (limb_val a + limb_val b) mod 2 ^ 256" "limb_val (uint_mul a b) = limb_val a * limb_val b mod 2 ^ 256"
      "limb_val (uint_shl a s) = limb_val a * 2 ^ s mod 2 ^ 256" "limb_val (uint_not a) = 2 ^ 256 - 1 - limb_val a"
    using assms uint_add_val [of a b] uint_mul_val [of a b] uint_shl_val [of a s] uint_not_val [of a] by (simp_all only: uint256_modulus)
  then show ?thesis by (intro conjI sub uint_shr_val c e d)
qed

theorem arith_uint256_spec_witness:
  "limb_val (uint_add (base_uint_64 7) (base_uint_64 5)) = (limb_val (base_uint_64 7) + limb_val (base_uint_64 5)) mod 2 ^ 256 \<and>
   map_option limb_val (uint_div (base_uint_64 7) (base_uint_64 5)) = Some (limb_val (base_uint_64 7) div limb_val (base_uint_64 5))"
  using arith_uint256_spec [of "base_uint_64 7" "base_uint_64 5"] by (simp add: base_uint_64_val)

end
