(* ===== verification/Arith_Compact.thy ===== *)
theory Arith_Compact
  imports Arith_Uint256
begin

unbundle bit_operations_syntax

text \<open>
  The compact form of a target (\<open>nBits\<close>): \<open>SetCompact\<close> and \<open>GetCompact\<close> of \<^verbatim>\<open>src/arith_uint256.cpp\<close>.
\<close>

section \<open>The compact form\<close>

definition SetCompact :: "32 word \<Rightarrow> base_uint \<times> bool \<times> bool" where
  "SetCompact nCompact =
     (let nSize = unat (drop_bit 24 nCompact);
          nWord0 = nCompact AND 0x007fffff;
          nWord = (if nSize \<le> 3 then drop_bit (8 * (3 - nSize)) nWord0 else nWord0);
          r = (if nSize \<le> 3 then base_uint_64 (ucast nWord)
               else uint_shl (base_uint_64 (ucast nWord)) (8 * (nSize - 3))) in
      (r, nWord \<noteq> 0 \<and> nCompact AND 0x00800000 \<noteq> 0,
       nWord \<noteq> 0 \<and> (nSize > 34 \<or> (nWord > 0xff \<and> nSize > 33) \<or> (nWord > 0xffff \<and> nSize > 32))))"

text \<open>\<open>None\<close> where one of the assertions fails.\<close>

definition GetCompact :: "base_uint \<Rightarrow> bool \<Rightarrow> 32 word option" where
  "GetCompact pn fNegative =
     (let nSize = (uint_bits pn + 7) div 8;
          nCompact = (if nSize \<le> 3 then ucast (push_bit (8 * (3 - nSize)) (GetLow64 pn))
                      else ucast (GetLow64 (uint_shr pn (8 * (nSize - 3)))) :: 32 word);
          big = (nCompact AND 0x00800000 \<noteq> 0);
          nCompact = (if big then drop_bit 8 nCompact else nCompact);
          nSize = (if big then nSize + 1 else nSize) in
      if nCompact AND NOT 0x007fffff \<noteq> 0 then None
      else if \<not> nSize < 256 then None
      else let nCompact = nCompact OR push_bit 24 (of_nat nSize)
           in Some (nCompact OR (if fNegative \<and> nCompact AND 0x007fffff \<noteq> 0 then 0x00800000 else 0)))"

section \<open>Mantissa and exponent\<close>

text \<open>The three leading base-256 digits of a number, read with an exponent \<open>s\<close>.\<close>

definition mantissa :: "nat \<Rightarrow> nat \<Rightarrow> nat" where
  "mantissa s v = (if s \<le> 3 then v * 256 ^ (3 - s) else v div 256 ^ (s - 3))"

lemma mantissa_Suc: "mantissa (Suc s) v = mantissa s v div 256"
proof (cases "s < 3")
  case True
  then have "(256 :: nat) ^ (3 - s) = 256 * 256 ^ (3 - Suc s)" by (metis Suc_diff_Suc power_Suc)
  then show ?thesis using True by (simp add: mantissa_def)
next
  case False
  then obtain k where "s = 3 + k" using le_Suc_ex not_less by blast
  then show ?thesis by (cases k) (simp_all add: mantissa_def div_mult2_eq [symmetric] mult.commute)
qed

lemma mantissa_add: "mantissa (s + k) v = mantissa s v div 256 ^ k"
  by (induction k) (simp_all add: mantissa_Suc div_mult2_eq [symmetric] mult.commute)

lemma mantissa_unique:
  assumes "2 ^ 15 \<le> mantissa s v" "mantissa s v < 2 ^ 23" "2 ^ 15 \<le> mantissa t v" "mantissa t v < 2 ^ 23"
  shows "s = t"
proof -
  have "\<not> s < t" if l: "mantissa s v < 2 ^ 23" "2 ^ 15 \<le> mantissa t v" for s t
  proof
    assume "s < t"
    then obtain k where "t = s + Suc k" using less_iff_Suc_add by auto
    then have "mantissa t v = mantissa s v div 256 div 256 ^ k"
      using mantissa_add [of "Suc s" k v] by (simp add: mantissa_Suc)
    also have "\<dots> \<le> mantissa s v div 256" by simp
    also have "\<dots> < 2 ^ 15" using l by (simp add: less_mult_imp_div_less)
    finally show False using l by simp
  qed
  then show ?thesis using assms by (metis linorder_neqE_nat)
qed

lemma GetLow64_val: "2 \<le> length pn \<Longrightarrow> unat (GetLow64 pn) = limb_val pn mod 2 ^ 64"
proof -
  assume "2 \<le> length pn"
  then obtain x y r where pn: "pn = x # y # r" by (metis One_nat_def Suc_1 Suc_le_length_iff)
  have "GetLow64 pn = ucast x + push_bit 32 (ucast y)"
    unfolding GetLow64_def pn
    by (simp, intro disjunctive_add [symmetric]) (auto simp: bit_push_bit_iff bit_unsigned_iff dest: bit_imp_le_length)
  also have "unat \<dots> = unat x + B * unat y"
  proof -
    have "unat (push_bit 32 (ucast y) :: 64 word) = B * unat y"
      using unat_limb_less [of y] by (simp add: push_bit_eq_mult unat_word_ariths unat_ucast_32)
    then show ?thesis using unat_limb_less [of x] unat_limb_less [of y] by (simp add: unat_word_ariths(1) unat_ucast_32)
  qed
  also have "\<dots> = limb_val pn mod 2 ^ 64"
  proof -
    have "limb_val pn = unat x + B * unat y + 2 ^ 64 * limb_val r" by (simp add: pn)
    moreover have "unat x + B * unat y < 2 ^ 64" using unat_limb_less [of x] unat_limb_less [of y] by simp
    ultimately show ?thesis by simp
  qed
  finally show ?thesis .
qed

text \<open>The 24 low bits of a compact number are a sign bit and a mantissa of 23 bits.\<close>

lemma unat_low23: "unat (x AND 0x007fffff :: 32 word) = unat x mod 2 ^ 23"
  using unat_and_mask [of x 23] by (simp add: mask_eq_exp_minus_1)

lemma sign_bit: "x AND 0x00800000 \<noteq> 0 \<longleftrightarrow> bit x 23" for x :: "32 word"
  using and_exp_eq_0_iff_not_bit [of x 23] by simp

lemma sign_bit_small: "unat x < 2 ^ 24 \<Longrightarrow> bit x 23 \<longleftrightarrow> 2 ^ 23 \<le> unat x" for x :: "32 word"
proof -
  assume l: "unat x < 2 ^ 24"
  have "bit x 23 \<longleftrightarrow> bit (unat x) 23" by (simp add: bit_unsigned_iff)
  also have "\<dots> \<longleftrightarrow> odd (unat x div 2 ^ 23)" by (rule bit_nat_def)
  finally have "bit x 23 \<longleftrightarrow> odd (unat x div 2 ^ 23)" .
  moreover have "unat x div 2 ^ 23 = (if 2 ^ 23 \<le> unat x then 1 else 0)"
    using l by (auto simp: div_nat_eqI)
  ultimately show ?thesis by simp
qed

lemma high_bits_clear: "x AND NOT 0x007fffff = 0 \<longleftrightarrow> unat x < 2 ^ 23" for x :: "32 word"
proof -
  have "x AND NOT (mask 23) = 0 \<longleftrightarrow> x = x AND mask 23"
    by (auto simp: bit_eq_iff bit_and_iff bit_not_iff bit_mask_iff)
  also have "\<dots> \<longleftrightarrow> unat x = unat x mod 2 ^ 23" using unat_and_mask [of x 23] by (metis word_unat_eq_iff)
  also have "\<dots> \<longleftrightarrow> unat x < 2 ^ 23" by (rule iffI) (metis mod_less_divisor zero_less_numeral zero_less_power, simp)
  finally show ?thesis by (simp add: mask_eq_exp_minus_1)
qed

section \<open>Decoding\<close>

lemma SetCompact_val:
  fixes c
  defines "s \<equiv> unat (drop_bit 24 c)" and "w \<equiv> unat c mod 2 ^ 23"
  shows "limb_val (fst (SetCompact c)) = (if s \<le> 3 then w div 256 ^ (3 - s) else w * 256 ^ (s - 3) mod 2 ^ 256)"
    and "length (fst (SetCompact c)) = WIDTH"
proof -
  have p: "(2 :: nat) ^ (8 * n) = 256 ^ n" for n by (simp add: power_mult)
  have u: "unat (ucast (x :: 32 word) :: 64 word) = unat x" for x by (rule unat_ucast_32)
  have d: "unat (drop_bit (8 * n) (c AND 0x007fffff)) = w div 256 ^ n" for n
    unfolding unat_drop_bit_eq by (simp only: unat_low23 drop_bit_eq_div p w_def)
  have B8: "B ^ WIDTH = 2 ^ 256" by (simp add: WIDTH_def)
  show "limb_val (fst (SetCompact c)) = (if s \<le> 3 then w div 256 ^ (3 - s) else w * 256 ^ (s - 3) mod 2 ^ 256)"
    unfolding SetCompact_def Let_def fst_conv s_def [symmetric]
    by (simp only: if_distrib [of limb_val] uint_shl_val base_uint_64_val u d B8 p unat_low23 w_def if_True if_False split: if_split) simp
  show "length (fst (SetCompact c)) = WIDTH"
    by (simp add: SetCompact_def Let_def base_uint_64_val)
qed

text \<open>The overflow flag is raised exactly when the number does not fit 256 bits.\<close>

lemma power_256_mono: "k \<le> n \<Longrightarrow> (256 :: nat) ^ k \<le> 256 ^ n"
  by (intro power_increasing) simp_all

lemma compact_fits:
  fixes w s :: nat
  assumes "0 < w" "w < 2 ^ 23" "3 < s"
  shows "2 ^ 256 \<le> w * 256 ^ (s - 3) \<longleftrightarrow> 34 < s \<or> (0xff < w \<and> 33 < s) \<or> (0xffff < w \<and> 32 < s)"
proof -
  have up: "w * 256 ^ (s - 3) < 2 ^ 256" if "s - 3 \<le> k" "w < m" "m * 256 ^ k = 2 ^ 256" for k m
  proof -
    have "w * 256 ^ (s - 3) \<le> w * 256 ^ k" using that by (intro mult_le_mono2 power_256_mono)
    also have "\<dots> < m * 256 ^ k" using that(2) by (intro mult_strict_right_mono) simp_all
    finally show ?thesis unfolding that(3) .
  qed
  have lo: "2 ^ 256 \<le> w * 256 ^ (s - 3)" if "k \<le> s - 3" "m \<le> w" "m * 256 ^ k = 2 ^ 256" for k m
    using mult_le_mono [OF that(2) power_256_mono [OF that(1)]] that(3) by simp
  consider "34 < s" | "s = 34" | "s = 33" | "s \<le> 32" by linarith
  then show ?thesis
  proof cases
    case 1
    then show ?thesis using lo [of 32 1] assms by simp
  next
    case 2
    then show ?thesis using lo [of 31 256] up [of 31 256] by auto
  next
    case 3
    then show ?thesis using lo [of 30 65536] up [of 30 65536] by auto
  next
    case 4
    then have "s - 3 \<le> 29" by simp
    with 4 show ?thesis using up [of 29 "2 ^ 24"] assms by auto
  qed
qed

text \<open>
  \<open>SetCompact\<close> decodes exponent \<open>e\<close> and mantissa \<open>w\<close> to the number \<open>w * 256 ^ (e - 3)\<close> (digits below the point
  dropped), modulo \<open>2 ^ 256\<close>; the overflow flag is raised exactly when that number needs more than 256 bits, the
  negative flag exactly when it is not zero and the sign bit is set.
\<close>

theorem SetCompact_spec:
  fixes c :: "32 word"
  defines "e \<equiv> unat c div 2 ^ 24" and "w \<equiv> unat c mod 2 ^ 23"
  defines "N \<equiv> w div 256 ^ (3 - e) * 256 ^ (e - 3)"
  shows "limb_val (fst (SetCompact c)) = N mod 2 ^ 256 \<and>
    (fst (snd (SetCompact c)) \<longleftrightarrow> w div 256 ^ (3 - e) \<noteq> 0 \<and> odd (unat c div 2 ^ 23)) \<and>
    (snd (snd (SetCompact c)) \<longleftrightarrow> 2 ^ 256 \<le> N)"
proof -
  let ?w' = "if e \<le> 3 then drop_bit (8 * (3 - e)) (c AND 0x007fffff) else c AND 0x007fffff"
  have e: "unat (drop_bit 24 c) = e" unfolding unat_drop_bit_eq unfolding drop_bit_eq_div e_def ..
  have w: "w < 2 ^ 23" by (simp add: w_def)
  define w' where "w' = ?w'"
  have w': "unat w' = w div 256 ^ (3 - e)"
    using unat_drop_bit_eq [of "8 * (3 - e)" "c AND 0x007fffff"]
    by (simp add: w'_def unat_low23 drop_bit_eq_div power_mult w_def)
  have sgn: "c AND 0x00800000 \<noteq> 0 \<longleftrightarrow> odd (unat c div 2 ^ 23)"
    unfolding sign_bit using bit_nat_def [of "unat c" 23] by (simp add: bit_unsigned_iff)
  have cmp: "0xff < w' \<longleftrightarrow> 0xff < unat w'" "0xffff < w' \<longleftrightarrow> 0xffff < unat w'" "w' = 0 \<longleftrightarrow> unat w' = 0"
    by (simp_all add: word_less_nat_alt unat_eq_zero)
  have "N < 2 ^ 256" if "e \<le> 3"
  proof -
    have "N \<le> w" using that by (simp add: N_def)
    then show ?thesis using w by simp
  qed
  then have ovf: "2 ^ 256 \<le> N \<longleftrightarrow> unat w' \<noteq> 0 \<and> (34 < e \<or> (0xff < unat w' \<and> 33 < e) \<or> (0xffff < unat w' \<and> 32 < e))"
    using compact_fits [of w e] w unfolding w' by (cases "e \<le> 3"; cases "w = 0") (auto simp: N_def)
  have "limb_val (fst (SetCompact c)) = N mod 2 ^ 256"
    using SetCompact_val(1) [of c] \<open>e \<le> 3 \<Longrightarrow> N < 2 ^ 256\<close> unfolding e w_def [symmetric] by (auto simp: N_def)
  moreover have "snd (SetCompact c) = (unat w' \<noteq> 0 \<and> odd (unat c div 2 ^ 23), 2 ^ 256 \<le> N)"
    unfolding SetCompact_def Let_def snd_conv e w'_def [symmetric] sgn cmp ovf by simp
  ultimately show ?thesis by (simp add: w')
qed

section \<open>Encoding\<close>

lemma mantissa_of_size:
  fixes pn
  defines "s \<equiv> (uint_bits pn + 7) div 8" and "v \<equiv> limb_val pn"
  assumes "length pn = WIDTH"
  shows "s \<le> 32" "mantissa s v < 2 ^ 24" "v \<noteq> 0 \<Longrightarrow> 2 ^ 16 \<le> mantissa s v" "v = 0 \<Longrightarrow> s = 0"
proof -
  have b: "uint_bits pn \<le> 256" using uint_bits_bounds(1) [of pn] assms(3) by (simp add: WIDTH_def)
  then show "s \<le> 32" by (simp add: s_def)
  have "v < 2 ^ uint_bits pn" unfolding v_def by (rule uint_bits_bounds)
  also have "\<dots> \<le> 2 ^ (8 * s)" by (intro power_increasing) (simp_all add: s_def)
  finally have u: "v < 256 ^ s" by (simp add: power_mult)
  show "mantissa s v < 2 ^ 24"
  proof (cases "s \<le> 3")
    case True
    have "v * 256 ^ (3 - s) < 256 ^ s * 256 ^ (3 - s)" using u by (intro mult_strict_right_mono) simp_all
    also have "\<dots> = 256 ^ 3" using True by (simp only: power_add [symmetric] le_add_diff_inverse)
    finally show ?thesis using True by (simp add: mantissa_def)
  next
    case False
    then have "(256 :: nat) ^ s = 256 ^ 3 * 256 ^ (s - 3)" by (simp only: power_add [symmetric] le_add_diff_inverse)
    then have "v div 256 ^ (s - 3) < 256 ^ 3" using u by (intro less_mult_imp_div_less) simp
    then show ?thesis using False by (simp add: mantissa_def)
  qed
  show "v = 0 \<Longrightarrow> s = 0" by (simp add: s_def v_def uint_bits_bounds(3) [symmetric])
  assume nz: "v \<noteq> 0"
  then have s: "0 < s" "8 * (s - 1) \<le> uint_bits pn - 1"
    using uint_bits_bounds(3) [of pn] by (auto simp: s_def v_def)
  have "(256 :: nat) ^ (s - 1) = 2 ^ (8 * (s - 1))" by (simp add: power_mult)
  also have "\<dots> \<le> 2 ^ (uint_bits pn - 1)" using s by (intro power_increasing) simp_all
  also have "\<dots> \<le> v" unfolding v_def using nz by (intro uint_bits_bounds(4)) (simp add: v_def)
  finally have l: "256 ^ (s - 1) \<le> v" .
  show "2 ^ 16 \<le> mantissa s v"
  proof (cases "s \<le> 3")
    case True
    have "(256 :: nat) ^ 2 = 256 ^ (s - 1 + (3 - s))" using True s by simp
    also have "\<dots> = 256 ^ (s - 1) * 256 ^ (3 - s)" by (rule power_add)
    also have "\<dots> \<le> v * 256 ^ (3 - s)" using l by (intro mult_le_mono1)
    finally show ?thesis using True by (simp add: mantissa_def)
  next
    case False
    then have "s - 1 = 2 + (s - 3)" by simp
    then have "(256 :: nat) ^ (s - 1) = 256 ^ (2 + (s - 3))" by (rule arg_cong)
    also have "\<dots> = 256 ^ 2 * 256 ^ (s - 3)" by (rule power_add)
    finally have "256 ^ 2 * 256 ^ (s - 3) \<le> v" using l by simp
    then have "256 ^ 2 \<le> v div 256 ^ (s - 3)" by (simp add: less_eq_div_iff_mult_less_eq)
    then show ?thesis using False by (simp add: mantissa_def)
  qed
qed

lemma GetCompact_word:
  fixes pn
  defines "s \<equiv> (uint_bits pn + 7) div 8"
  assumes "length pn = WIDTH"
  shows "unat (if s \<le> 3 then ucast (push_bit (8 * (3 - s)) (GetLow64 pn))
               else ucast (GetLow64 (uint_shr pn (8 * (s - 3)))) :: 32 word) = mantissa s (limb_val pn)"
proof -
  note m = mantissa_of_size(2) [OF assms(2), folded s_def]
  have p: "(2 :: nat) ^ (8 * n) = 256 ^ n" for n by (simp add: power_mult)
  have W: "2 \<le> length pn" using assms(2) by (simp add: WIDTH_def)
  show ?thesis
  proof (cases "s \<le> 3")
    case True
    have "unat (push_bit (8 * (3 - s)) (GetLow64 pn)) = limb_val pn * 256 ^ (3 - s) mod 2 ^ 64"
      unfolding unsigned_push_bit_eq GetLow64_val [OF W]
      by (simp only: take_bit_eq_mod push_bit_eq_mult p len_num1 len_bit0 len_num0) (simp add: mod_mult_left_eq)
    also have "\<dots> = limb_val pn * 256 ^ (3 - s)" using m True by (simp add: mantissa_def)
    finally show ?thesis using m True by (simp add: mantissa_def unat_ucast)
  next
    case False
    have "unat (GetLow64 (uint_shr pn (8 * (s - 3)))) = limb_val pn div 256 ^ (s - 3) mod 2 ^ 64"
      using W by (simp add: GetLow64_val uint_shr_val p)
    also have "\<dots> = limb_val pn div 256 ^ (s - 3)" using m False by (simp add: mantissa_def)
    finally show ?thesis using m False by (simp add: mantissa_def unat_ucast)
  qed
qed

lemma compact_fields:
  fixes x :: "32 word"
  assumes "unat x < 2 ^ 23" "s < 256"
  defines "c \<equiv> x OR push_bit 24 (of_nat s)"
  shows "unat c = s * 2 ^ 24 + unat x" "unat (drop_bit 24 c) = s" "unat c mod 2 ^ 23 = unat x" "\<not> bit c 23"
proof -
  have "\<not> bit x n" if "23 \<le> n" for n
  proof -
    have "unat x < 2 ^ n" using assms(1) power_increasing [OF that, of "2 :: nat"] by simp
    then have "\<not> bit (unat x) n" by (simp add: bit_nat_def)
    then show ?thesis by (auto simp: bit_unsigned_iff dest: bit_imp_le_length)
  qed
  then have "c = x + push_bit 24 (of_nat s)" "\<not> bit c 23"
    unfolding c_def by (auto intro!: disjunctive_add [symmetric] simp: bit_push_bit_iff bit_or_iff)
  moreover have "unat (push_bit 24 (of_nat s) :: 32 word) = s * 2 ^ 24"
    using assms(2) by (simp add: push_bit_eq_mult unat_word_ariths unat_of_nat)
  ultimately show u: "unat c = s * 2 ^ 24 + unat x" "\<not> bit c 23"
    using assms by (simp_all add: unat_word_ariths(1))
  show "unat (drop_bit 24 c) = s" unfolding unat_drop_bit_eq unfolding drop_bit_eq_div u(1) using assms(1) by simp
  have "unat c = unat x + (2 * s) * 2 ^ 23" using u(1) by simp
  then show "unat c mod 2 ^ 23 = unat x" using assms(1) by (simp only: mod_mult_self1) simp
qed

text \<open>\<open>GetCompact\<close> passes its assertions; the exponent it picks is the one whose mantissa has 16 to 23 bits.\<close>

lemma GetCompact_fields:
  assumes "length pn = WIDTH"
  shows "\<exists>c s. GetCompact pn False = Some c \<and> s \<le> 33 \<and> unat (drop_bit 24 c) = s \<and>
    unat c = s * 2 ^ 24 + mantissa s (limb_val pn) \<and> unat c mod 2 ^ 23 = mantissa s (limb_val pn) \<and> \<not> bit c 23 \<and>
    mantissa s (limb_val pn) < 2 ^ 23 \<and> (limb_val pn = 0 \<longrightarrow> s = 0) \<and> (limb_val pn \<noteq> 0 \<longrightarrow> 2 ^ 15 \<le> mantissa s (limb_val pn))"
proof -
  let ?s = "(uint_bits pn + 7) div 8" and ?v = "limb_val pn"
  define x :: "32 word" where "x = (if ?s \<le> 3 then ucast (push_bit (8 * (3 - ?s)) (GetLow64 pn))
               else ucast (GetLow64 (uint_shr pn (8 * (?s - 3)))))"
  define y where "y = (if bit x 23 then drop_bit 8 x else x)"
  define t where "t = (if bit x 23 then ?s + 1 else ?s)"
  have x: "unat x = mantissa ?s ?v" unfolding x_def by (rule GetCompact_word [OF assms])
  note m = mantissa_of_size [OF assms]
  have b: "bit x 23 \<longleftrightarrow> 2 ^ 23 \<le> mantissa ?s ?v" using sign_bit_small [of x] m(2) x by simp
  have y: "unat y = mantissa t ?v" "mantissa t ?v < 2 ^ 23" "?v \<noteq> 0 \<longrightarrow> 2 ^ 15 \<le> mantissa t ?v"
  proof -
    have d: "unat (drop_bit 8 x) = mantissa ?s ?v div 256" unfolding unat_drop_bit_eq x by (simp add: drop_bit_eq_div)
    then show "unat y = mantissa t ?v" by (simp add: y_def t_def mantissa_Suc x)
    show "mantissa t ?v < 2 ^ 23" using b m(2) by (auto simp: t_def mantissa_Suc less_mult_imp_div_less)
    show "?v \<noteq> 0 \<longrightarrow> 2 ^ 15 \<le> mantissa t ?v" using b m(3) by (auto simp: t_def mantissa_Suc less_eq_div_iff_mult_less_eq)
  qed
  have t: "t \<le> 33" "?v = 0 \<longrightarrow> t = 0"
    using m(1) m(4) b by (auto simp: t_def mantissa_def)
  have "GetCompact pn False = Some (y OR push_bit 24 (of_nat t))"
    using y t unfolding GetCompact_def Let_def x_def [symmetric] sign_bit y_def [symmetric] t_def [symmetric] high_bits_clear by simp
  then show ?thesis using compact_fields [of y t] y t by (intro exI [of _ "y OR push_bit 24 (of_nat t)"] exI [of _ t]) simp
qed

lemma SetCompact_of_fields:
  assumes "unat (drop_bit 24 c) = s" "unat c mod 2 ^ 23 = mantissa s v" "\<not> bit c 23" "v < 2 ^ 256"
  shows "\<exists>t. SetCompact c = (t, False, False) \<and> length t = WIDTH \<and>
     limb_val t = (if s \<le> 3 then v else mantissa s v * 256 ^ (s - 3))"
proof -
  let ?w = "mantissa s v" and ?w' = "if s \<le> 3 then drop_bit (8 * (3 - s)) (c AND 0x007fffff) else c AND 0x007fffff"
  have p: "(2 :: nat) ^ (8 * n) = 256 ^ n" for n by (simp add: power_mult)
  have w: "unat (c AND 0x007fffff) = ?w" by (simp only: unat_low23 assms(2))
  have le: "3 < s \<Longrightarrow> ?w * 256 ^ (s - 3) \<le> v" by (simp add: mantissa_def)
  have "limb_val (fst (SetCompact c)) = (if s \<le> 3 then v else ?w * 256 ^ (s - 3))"
  proof (cases "s \<le> 3")
    case True
    then show ?thesis using SetCompact_val(1) [of c] assms by (simp add: mantissa_def)
  next
    case False
    then have "?w * 256 ^ (s - 3) mod 2 ^ 256 = ?w * 256 ^ (s - 3)" using le assms(4) by (intro mod_less) simp
    then show ?thesis using SetCompact_val(1) [of c] False unfolding assms(1,2) by simp
  qed
  moreover have ovf: "\<not> (unat ?w' \<noteq> 0 \<and> (34 < s \<or> (0xff < unat ?w' \<and> 33 < s) \<or> (0xffff < unat ?w' \<and> 32 < s)))"
  proof (cases "s \<le> 3")
    case False
    have "?w < 2 ^ 23" unfolding assms(2) [symmetric] by (rule mod_less_divisor) simp
    then show ?thesis using compact_fits [of ?w s] le assms(4) False w by (cases "?w = 0") auto
  qed simp
  moreover have "snd (SetCompact c) = (False, False)"
  proof -
    define w' where "w' = ?w'"
    have "c AND 0x00800000 = 0" using assms(3) sign_bit by blast
    moreover have "0xff < w' \<longleftrightarrow> 0xff < unat w'" "0xffff < w' \<longleftrightarrow> 0xffff < unat w'" "w' = 0 \<longleftrightarrow> unat w' = 0"
      by (simp_all add: word_less_nat_alt unat_eq_zero)
    ultimately show ?thesis
      using ovf unfolding SetCompact_def Let_def snd_conv assms(1) w'_def [symmetric] by simp
  qed
  ultimately show ?thesis using SetCompact_val(2) [of c] by (intro exI [of _ "fst (SetCompact c)"]) (simp add: prod_eq_iff)
qed

section \<open>Round trip\<close>

lemma compact_decode:
  assumes "length a = WIDTH"
  shows "\<exists>c t. GetCompact a False = Some c \<and> SetCompact c = (t, False, False) \<and> length t = WIDTH \<and>
    limb_val t \<le> limb_val a \<and> (limb_val a - limb_val t) * 2 ^ 15 \<le> limb_val a \<and> GetCompact t False = Some c"
proof -
  let ?v = "limb_val a"
  obtain c s where c: "GetCompact a False = Some c" "unat (drop_bit 24 c) = s" "unat c = s * 2 ^ 24 + mantissa s ?v"
    "unat c mod 2 ^ 23 = mantissa s ?v" "\<not> bit c 23" "mantissa s ?v < 2 ^ 23" "?v = 0 \<longrightarrow> s = 0"
    "?v \<noteq> 0 \<longrightarrow> 2 ^ 15 \<le> mantissa s ?v"
    using GetCompact_fields [OF assms] by (elim exE conjE) (rule that)
  have "?v < 2 ^ 256" using limb_val_less [of a] assms by (simp add: WIDTH_def)
  then obtain t where t: "SetCompact c = (t, False, False)" "length t = WIDTH"
      "limb_val t = (if s \<le> 3 then ?v else mantissa s ?v * 256 ^ (s - 3))"
    using SetCompact_of_fields [OF c(2,4,5)] by blast
  show ?thesis
  proof (cases "s \<le> 3")
    case True
    then have "t = a" using t assms limb_val_inject [of t a] by simp
    then show ?thesis using c(1) t(1,2) by (intro exI [of _ c] exI [of _ t]) simp
  next
    case False
    let ?p = "(256 :: nat) ^ (s - 3)"
    have m: "mantissa s ?v = ?v div ?p" "limb_val t = ?v div ?p * ?p" "2 ^ 15 \<le> ?v div ?p"
      using False t c by (auto simp: mantissa_def)
    have "?v - limb_val t = ?v mod ?p" by (simp add: m(2) minus_div_mult_eq_mod)
    also have "\<dots> \<le> ?p" by (simp add: less_imp_le)
    finally have "(?v - limb_val t) * 2 ^ 15 \<le> ?p * (?v div ?p)" using m(3) by (intro mult_le_mono)
    also have "\<dots> \<le> ?v" by simp
    finally have err: "(?v - limb_val t) * 2 ^ 15 \<le> ?v" .
    have mt: "mantissa s (limb_val t) = mantissa s ?v" using False by (simp add: mantissa_def m(2))
    have nz: "limb_val t \<noteq> 0" using m by auto
    obtain c' s' where c': "GetCompact t False = Some c'" "unat c' = s' * 2 ^ 24 + mantissa s' (limb_val t)"
        "mantissa s' (limb_val t) < 2 ^ 23" "2 ^ 15 \<le> mantissa s' (limb_val t)"
      using GetCompact_fields [OF t(2)] nz by (elim exE conjE) (auto intro: that)
    have "s' = s" using c'(3,4) c(6) m(1,3) mt by (intro mantissa_unique [of _ "limb_val t"]) simp_all
    then have "c' = c" using c'(2) c(3) mt by (simp add: word_unat_eq_iff)
    then show ?thesis using c(1) t(1,2) c'(1) err m(2) by (intro exI [of _ c] exI [of _ t]) simp
  qed
qed

text \<open>
  C22.  Writing a target as \<open>nBits\<close> and reading it back never trips the assertions of \<open>GetCompact\<close>, raises neither
  the sign nor the overflow flag, rounds down by less than one part in \<open>2 ^ 15\<close>, and is idempotent: the target read
  back has the same \<open>nBits\<close>.
\<close>

theorem compact_roundtrip:
  assumes "length a = WIDTH"
  shows "\<exists>c t. GetCompact a False = Some c \<and> SetCompact c = (t, False, False) \<and> length t = WIDTH \<and>
    limb_val t \<le> limb_val a \<and> (limb_val a - limb_val t) * 2 ^ 15 \<le> limb_val a \<and> GetCompact t False = Some c"
  by (rule compact_decode) (rule assms)

theorem compact_roundtrip_witness:
  "\<exists>c t. GetCompact (base_uint_64 0x123456789) False = Some c \<and> SetCompact c = (t, False, False) \<and> length t = WIDTH \<and>
    limb_val t \<le> limb_val (base_uint_64 0x123456789) \<and>
    (limb_val (base_uint_64 0x123456789) - limb_val t) * 2 ^ 15 \<le> limb_val (base_uint_64 0x123456789) \<and>
    GetCompact t False = Some c"
  by (rule compact_roundtrip) (simp add: base_uint_64_val)

end
