(* ===== verification/Chain.thy ===== *)
theory Chain
  imports Block Arith_Compact
begin

unbundle bit_operations_syntax

text \<open>
  The tree of block headers and chains in it: \<^verbatim>\<open>src/chain.h\<close>, \<^verbatim>\<open>src/chain.cpp\<close>, and \<open>AddToBlockIndex\<close> of
  \<^verbatim>\<open>src/validation.cpp\<close>.  Objects of class \<open>CBlockIndex\<close> live in a store, the list \<open>blocks\<close>; a pointer is an index into
  it and the null pointer is \<open>None\<close>.  \<open>nHeight\<close>, an \<open>int\<close> that starts at zero and grows by one, is a natural number.

  \<open>up H k p\<close> is the block \<open>k\<close> steps above \<open>p\<close> along \<open>pprev\<close>, against which the skip-list search, the fork
  finder and the active chain are specified.
\<close>

section \<open>Block index entries\<close>

record CBlockIndex =
  phashBlock :: uint256
  pprev :: "nat option"
  pskip :: "nat option"
  nHeight :: nat
  nFile :: int
  nDataPos :: "32 word"
  nUndoPos :: "32 word"
  nChainWork :: base_uint
  nTx :: "32 word"
  nChainTx :: "32 word"
  nStatus :: "32 word"
  b_nVersion :: "32 word"
  b_hashMerkleRoot :: uint256
  b_nTime :: "32 word"
  b_nBits :: "32 word"
  b_nNonce :: "32 word"
  nSequenceId :: int
  nTimeMax :: "32 word"

type_synonym block_store = "CBlockIndex list"

definition BLOCK_VALID_TREE :: "32 word" where "BLOCK_VALID_TREE = 2"
definition BLOCK_VALID_TRANSACTIONS :: "32 word" where "BLOCK_VALID_TRANSACTIONS = 3"
definition BLOCK_VALID_SCRIPTS :: "32 word" where "BLOCK_VALID_SCRIPTS = 5"
definition BLOCK_VALID_MASK :: "32 word" where "BLOCK_VALID_MASK = 1 OR 2 OR 3 OR 4 OR 5"
definition BLOCK_HAVE_DATA :: "32 word" where "BLOCK_HAVE_DATA = 8"
definition BLOCK_HAVE_UNDO :: "32 word" where "BLOCK_HAVE_UNDO = 16"
definition BLOCK_FAILED_VALID :: "32 word" where "BLOCK_FAILED_VALID = 32"
definition BLOCK_FAILED_CHILD :: "32 word" where "BLOCK_FAILED_CHILD = 64"
definition BLOCK_FAILED_MASK :: "32 word" where "BLOCK_FAILED_MASK = BLOCK_FAILED_VALID OR BLOCK_FAILED_CHILD"
definition BLOCK_OPT_WITNESS :: "32 word" where "BLOCK_OPT_WITNESS = 128"

definition CBlockIndex_new :: "CBlockHeader \<Rightarrow> CBlockIndex" where
  "CBlockIndex_new block =
     \<lparr>phashBlock = 0, pprev = None, pskip = None, nHeight = 0, nFile = 0, nDataPos = 0, nUndoPos = 0,
      nChainWork = base_uint_zero, nTx = 0, nChainTx = 0, nStatus = 0,
      b_nVersion = h_nVersion block, b_hashMerkleRoot = h_hashMerkleRoot block, b_nTime = h_nTime block,
      b_nBits = h_nBits block, b_nNonce = h_nNonce block, nSequenceId = 0, nTimeMax = 0\<rparr>"

definition index_GetBlockHeader :: "block_store \<Rightarrow> CBlockIndex \<Rightarrow> CBlockHeader" where
  "index_GetBlockHeader H b =
     \<lparr>h_nVersion = b_nVersion b, hashPrevBlock = (case pprev b of None \<Rightarrow> 0 | Some q \<Rightarrow> phashBlock (H ! q)),
      h_hashMerkleRoot = b_hashMerkleRoot b, h_nTime = b_nTime b, h_nBits = b_nBits b, h_nNonce = b_nNonce b\<rparr>"

definition GetBlockTime :: "CBlockIndex \<Rightarrow> int" where
  "GetBlockTime b = uint (b_nTime b)"

definition GetBlockTimeMax :: "CBlockIndex \<Rightarrow> int" where
  "GetBlockTimeMax b = uint (nTimeMax b)"

definition IsValid :: "32 word \<Rightarrow> CBlockIndex \<Rightarrow> bool" where
  "IsValid nUpTo b = (if nStatus b AND BLOCK_FAILED_MASK \<noteq> 0 then False else nStatus b AND BLOCK_VALID_MASK \<ge> nUpTo)"

definition RaiseValidity :: "32 word \<Rightarrow> CBlockIndex \<Rightarrow> CBlockIndex \<times> bool" where
  "RaiseValidity nUpTo b =
     (if nStatus b AND BLOCK_FAILED_MASK \<noteq> 0 then (b, False)
      else if nStatus b AND BLOCK_VALID_MASK < nUpTo
        then (b\<lparr>nStatus := (nStatus b AND NOT BLOCK_VALID_MASK) OR nUpTo\<rparr>, True)
      else (b, False))"

section \<open>Median time\<close>

definition nMedianTimeSpan :: nat where "nMedianTimeSpan = 11"

fun times_back :: "block_store \<Rightarrow> nat \<Rightarrow> nat option \<Rightarrow> int list" where
  "times_back H 0 p = []"
| "times_back H (Suc n) None = []"
| "times_back H (Suc n) (Some p) = GetBlockTime (H ! p) # times_back H n (pprev (H ! p))"

definition GetMedianTimePast :: "block_store \<Rightarrow> nat \<Rightarrow> int" where
  "GetMedianTimePast H p = (let v = times_back H nMedianTimeSpan (Some p) in sort (rev v) ! (length v div 2))"

section \<open>Ancestors\<close>

definition InvertLowestOne :: "nat \<Rightarrow> nat" where
  "InvertLowestOne n = n AND (n - 1)"

definition GetSkipHeight :: "nat \<Rightarrow> nat" where
  "GetSkipHeight height =
     (if height < 2 then 0
      else if height AND 1 \<noteq> 0 then InvertLowestOne (InvertLowestOne (height - 1)) + 1
      else InvertLowestOne height)"

datatype chain_error = AssertPrev | AssertMeet

lemma and_le_right: "n AND m \<le> (m :: nat)"
proof -
  have "int n AND int m \<le> int m" by (simp add: AND_upper2)
  then show ?thesis by (simp flip: of_nat_and_eq)
qed

lemma InvertLowestOne_le: "InvertLowestOne n \<le> n - 1"
  by (simp add: InvertLowestOne_def and_le_right)

lemma GetSkipHeight_less: "0 < h \<Longrightarrow> GetSkipHeight h < h"
  using InvertLowestOne_le [of h] InvertLowestOne_le [of "InvertLowestOne (h - 1)"] InvertLowestOne_le [of "h - 1"]
  by (auto simp: GetSkipHeight_def)

function ancestor_loop :: "block_store \<Rightarrow> nat \<Rightarrow> nat \<Rightarrow> nat \<Rightarrow> chain_error + nat" where
  "ancestor_loop H pindexWalk heightWalk height =
     (if heightWalk > height then
        let heightSkip = GetSkipHeight heightWalk; heightSkipPrev = GetSkipHeight (heightWalk - 1) in
        case pskip (H ! pindexWalk) of
          Some q \<Rightarrow>
            if heightSkip = height \<or> (heightSkip > height \<and> \<not> (heightSkipPrev + 2 < heightSkip \<and> heightSkipPrev \<ge> height))
            then ancestor_loop H q heightSkip height
            else (case pprev (H ! pindexWalk) of
                    None \<Rightarrow> Inl AssertPrev
                  | Some r \<Rightarrow> ancestor_loop H r (heightWalk - 1) height)
        | None \<Rightarrow> (case pprev (H ! pindexWalk) of
                    None \<Rightarrow> Inl AssertPrev
                  | Some r \<Rightarrow> ancestor_loop H r (heightWalk - 1) height)
      else Inr pindexWalk)"
  by pat_completeness auto
termination
  by (relation "measure (\<lambda>(H, p, hw, h). hw)") (auto simp: GetSkipHeight_less)

declare ancestor_loop.simps [simp del]

definition GetAncestor :: "block_store \<Rightarrow> nat \<Rightarrow> int \<Rightarrow> chain_error + nat option" where
  "GetAncestor H p height =
     (if height > int (nHeight (H ! p)) \<or> height < 0 then Inr None
      else ebind (ancestor_loop H p (nHeight (H ! p)) (nat height)) (\<lambda>q. Inr (Some q)))"

definition BuildSkip :: "block_store \<Rightarrow> CBlockIndex \<Rightarrow> chain_error + CBlockIndex" where
  "BuildSkip H b =
     (case pprev b of
        None \<Rightarrow> Inr b
      | Some q \<Rightarrow> ebind (GetAncestor H q (int (GetSkipHeight (nHeight b)))) (\<lambda>r. Inr (b\<lparr>pskip := r\<rparr>)))"

text \<open>The loop of \<open>LastCommonAncestor\<close>; both pointers move up together.\<close>

partial_function (option) meet_loop :: "block_store \<Rightarrow> nat option \<Rightarrow> nat option \<Rightarrow> (nat option \<times> nat option) option" where
  "meet_loop H pa pb =
     (case (pa, pb) of
        (Some a, Some b) \<Rightarrow> if a \<noteq> b then meet_loop H (pprev (H ! a)) (pprev (H ! b)) else Some (pa, pb)
      | _ \<Rightarrow> Some (pa, pb))"

text \<open>\<open>None\<close> outside: the loop does not end; \<open>Inl AssertMeet\<close>: the assertion that both pointers agree fails.\<close>

definition LastCommonAncestor :: "block_store \<Rightarrow> nat \<Rightarrow> nat \<Rightarrow> (chain_error + nat option) option" where
  "LastCommonAncestor H pa pb =
     (case (if nHeight (H ! pa) > nHeight (H ! pb) then ebind (GetAncestor H pa (int (nHeight (H ! pb)))) (\<lambda>a. Inr (a, Some pb))
            else if nHeight (H ! pb) > nHeight (H ! pa) then ebind (GetAncestor H pb (int (nHeight (H ! pa)))) (\<lambda>b. Inr (Some pa, b))
            else Inr (Some pa, Some pb)) of
        Inl e \<Rightarrow> Some (Inl e)
      | Inr (a, b) \<Rightarrow>
          (case meet_loop H a b of
             None \<Rightarrow> None
           | Some (a, b) \<Rightarrow> Some (if a = b then Inr a else Inl AssertMeet)))"

section \<open>Work\<close>

text \<open>\<open>None\<close>: the division throws.\<close>

definition GetBlockProof :: "CBlockIndex \<Rightarrow> base_uint option" where
  "GetBlockProof block =
     (case SetCompact (b_nBits block) of (bnTarget, fNegative, fOverflow) \<Rightarrow>
        if fNegative \<or> fOverflow \<or> EqualTo bnTarget 0 then Some (base_uint_64 0)
        else map_option (\<lambda>q. uint_add q (base_uint_64 1)) (uint_div (uint_not bnTarget) (uint_add bnTarget (base_uint_64 1))))"

definition IsDualAlgoEnabled :: "32 word \<Rightarrow> CBlockIndex option \<Rightarrow> bool" where
  "IsDualAlgoEnabled powForkTime pindexPrev = (case pindexPrev of None \<Rightarrow> False | Some b \<Rightarrow> b_nTime b > powForkTime)"

definition GetBlockProof_algo :: "32 word \<Rightarrow> block_store \<Rightarrow> CBlockIndex \<Rightarrow> POW_TYPE \<Rightarrow> base_uint option" where
  "GetBlockProof_algo powForkTime H block powType =
     (case SetCompact (b_nBits block) of (bnTarget, fNegative, fOverflow) \<Rightarrow>
        if fNegative \<or> fOverflow \<or> EqualTo bnTarget 0 then Some (base_uint_64 0)
        else if IsDualAlgoEnabled powForkTime (Some block) \<and> GetPoWType (index_GetBlockHeader H block) \<noteq> powType then Some (base_uint_64 0)
        else if \<not> IsDualAlgoEnabled powForkTime (Some block) \<and> powType = POW_TYPE_MINOTAURX then Some (base_uint_64 0)
        else map_option (\<lambda>q. uint_add q (base_uint_64 1)) (uint_div (uint_not bnTarget) (uint_add bnTarget (base_uint_64 1))))"

section \<open>The active chain\<close>

type_synonym CChain = "nat option list"

definition chain_at :: "CChain \<Rightarrow> int \<Rightarrow> nat option" where
  "chain_at v h = (if h < 0 \<or> h \<ge> int (length v) then None else v ! nat h)"

definition chain_Genesis :: "CChain \<Rightarrow> nat option" where
  "chain_Genesis v = (if length v > 0 then v ! 0 else None)"

definition chain_Tip :: "CChain \<Rightarrow> nat option" where
  "chain_Tip v = (if length v > 0 then v ! (length v - 1) else None)"

definition chain_Height :: "CChain \<Rightarrow> int" where
  "chain_Height v = int (length v) - 1"

definition chain_Contains :: "block_store \<Rightarrow> CChain \<Rightarrow> nat \<Rightarrow> bool" where
  "chain_Contains H v p \<longleftrightarrow> chain_at v (int (nHeight (H ! p))) = Some p"

definition chain_Next :: "block_store \<Rightarrow> CChain \<Rightarrow> nat \<Rightarrow> nat option" where
  "chain_Next H v p = (if chain_Contains H v p then chain_at v (int (nHeight (H ! p)) + 1) else None)"

partial_function (option) set_tip_loop :: "block_store \<Rightarrow> CChain \<Rightarrow> nat option \<Rightarrow> CChain option" where
  "set_tip_loop H v pindex =
     (case pindex of
        None \<Rightarrow> Some v
      | Some p \<Rightarrow>
          if v ! nHeight (H ! p) \<noteq> Some p
          then set_tip_loop H (v[nHeight (H ! p) := Some p]) (pprev (H ! p))
          else Some v)"

definition resize :: "CChain \<Rightarrow> nat \<Rightarrow> CChain" where
  "resize v n = take n v @ replicate (n - length v) None"

definition SetTip :: "block_store \<Rightarrow> CChain \<Rightarrow> nat option \<Rightarrow> CChain option" where
  "SetTip H v pindex =
     (case pindex of
        None \<Rightarrow> Some []
      | Some p \<Rightarrow> set_tip_loop H (resize v (nHeight (H ! p) + 1)) (Some p))"

partial_function (option) fork_loop :: "block_store \<Rightarrow> CChain \<Rightarrow> nat option \<Rightarrow> nat option option" where
  "fork_loop H v pindex =
     (case pindex of
        None \<Rightarrow> Some None
      | Some p \<Rightarrow> if \<not> chain_Contains H v p then fork_loop H v (pprev (H ! p)) else Some (Some p))"

definition FindFork :: "block_store \<Rightarrow> CChain \<Rightarrow> nat option \<Rightarrow> (chain_error + nat option) option" where
  "FindFork H v pindex =
     (case pindex of
        None \<Rightarrow> Some (Inr None)
      | Some p \<Rightarrow>
          (case (if int (nHeight (H ! p)) > chain_Height v then GetAncestor H p (chain_Height v) else Inr (Some p)) of
             Inl e \<Rightarrow> Some (Inl e)
           | Inr q \<Rightarrow> map_option Inr (fork_loop H v q)))"

section \<open>Trees\<close>

fun up :: "block_store \<Rightarrow> nat \<Rightarrow> nat \<Rightarrow> nat option" where
  "up H 0 p = Some p"
| "up H (Suc k) p = (case pprev (H ! p) of None \<Rightarrow> None | Some q \<Rightarrow> up H k q)"

definition block_ok :: "block_store \<Rightarrow> nat \<Rightarrow> bool" where
  "block_ok H p \<longleftrightarrow>
     (case pprev (H ! p) of
        None \<Rightarrow> nHeight (H ! p) = 0 \<and> pskip (H ! p) = None
      | Some q \<Rightarrow> q < length H \<and> nHeight (H ! p) = nHeight (H ! q) + 1 \<and>
          pskip (H ! p) \<in> {None, up H (nHeight (H ! p) - GetSkipHeight (nHeight (H ! p))) p})"

definition block_tree :: "block_store \<Rightarrow> bool" where
  "block_tree H \<longleftrightarrow> (\<forall>p < length H. block_ok H p)"

lemma block_treeD: "block_tree H \<Longrightarrow> p < length H \<Longrightarrow> block_ok H p"
  by (simp add: block_tree_def)

lemma tree_prev:
  assumes "block_tree H" "p < length H"
  shows "nHeight (H ! p) = 0 \<longleftrightarrow> pprev (H ! p) = None"
    and "pprev (H ! p) = Some q \<Longrightarrow> q < length H \<and> nHeight (H ! p) = Suc (nHeight (H ! q))"
  using block_treeD [OF assms] by (auto simp: block_ok_def split: option.splits)

lemma up_total:
  assumes "block_tree H"
  shows "p < length H \<Longrightarrow> k \<le> nHeight (H ! p) \<Longrightarrow> \<exists>q < length H. up H k p = Some q \<and> nHeight (H ! q) = nHeight (H ! p) - k"
proof (induction k arbitrary: p)
  case (Suc k)
  then obtain q where q: "pprev (H ! p) = Some q" using tree_prev(1) [OF assms Suc.prems(1)] by (cases "pprev (H ! p)") auto
  with tree_prev(2) [OF assms Suc.prems(1) q] Suc.IH [of q] Suc.prems show ?case by auto
qed simp

lemma up_height:
  assumes "block_tree H" "p < length H" "up H k p = Some q"
  shows "q < length H \<and> k \<le> nHeight (H ! p) \<and> nHeight (H ! q) = nHeight (H ! p) - k"
  using assms(2,3)
proof (induction k arbitrary: p)
  case (Suc k)
  then obtain r where r: "pprev (H ! p) = Some r" "up H k r = Some q" by (auto split: option.splits)
  with tree_prev(2) [OF assms(1) Suc.prems(1) r(1)] Suc.IH [of r] show ?case by auto
qed simp

lemma up_add: "up H (j + k) p = (case up H j p of None \<Rightarrow> None | Some q \<Rightarrow> up H k q)"
  by (induction j arbitrary: p) (auto split: option.splits)

lemma up_Suc_right: "up H (Suc k) p = (case up H k p of None \<Rightarrow> None | Some q \<Rightarrow> pprev (H ! q))"
  using up_add [of H k 1 p] by (auto split: option.splits)

section \<open>The skip-list search finds the ancestor\<close>

lemma ancestor_loop_up:
  assumes "block_tree H"
  shows "p < length H \<Longrightarrow> height \<le> nHeight (H ! p) \<Longrightarrow>
    \<exists>q. ancestor_loop H p (nHeight (H ! p)) height = Inr q \<and> up H (nHeight (H ! p) - height) p = Some q"
proof (induction "nHeight (H ! p)" arbitrary: p rule: less_induct)
  case less
  let ?h = "nHeight (H ! p)" and ?s = "GetSkipHeight (nHeight (H ! p))"
  show ?case
  proof (cases "height < ?h")
    case False
    then show ?thesis using less.prems by (simp add: ancestor_loop.simps)
  next
    case True
    then obtain r where r: "pprev (H ! p) = Some r" using tree_prev(1) [OF assms less.prems(1)] by (cases "pprev (H ! p)") auto
    note r' = tree_prev(2) [OF assms less.prems(1) r]
    have step: "\<exists>q. ancestor_loop H r (?h - 1) height = Inr q \<and> up H (?h - height) p = Some q"
    proof -
      have "height \<le> nHeight (H ! r)" "nHeight (H ! r) < ?h" "r < length H" using r' True by auto
      with less.hyps [of r] obtain q where "ancestor_loop H r (nHeight (H ! r)) height = Inr q" "up H (nHeight (H ! r) - height) r = Some q" by blast
      moreover have "?h - height = Suc (nHeight (H ! r) - height)" using r' True by simp
      ultimately show ?thesis using r r' by simp
    qed
    have skip: "\<exists>q'. ancestor_loop H q ?s height = Inr q' \<and> up H (?h - height) p = Some q'"
      if "pskip (H ! p) = Some q" "height \<le> ?s" for q
    proof -
      have lt: "?s < ?h" using True by (intro GetSkipHeight_less) simp
      have u: "up H (?h - ?s) p = Some q" using block_treeD [OF assms less.prems(1)] r that by (simp add: block_ok_def)
      with up_height [OF assms less.prems(1)] lt have q: "q < length H" "nHeight (H ! q) = ?s" by force+
      with less.hyps [of q] that lt obtain q' where "ancestor_loop H q ?s height = Inr q'" "up H (?s - height) q = Some q'" by auto
      moreover have "?h - height = (?h - ?s) + (?s - height)" using lt that by simp
      ultimately show ?thesis using u by (simp only: up_add) simp
    qed
    show ?thesis
      using True step skip r by (subst ancestor_loop.simps) (auto simp: Let_def split: option.splits)
  qed
qed

lemma GetAncestor_up:
  assumes "block_tree H" "p < length H"
  shows "GetAncestor H p h = Inr (if h < 0 \<or> int (nHeight (H ! p)) < h then None else up H (nHeight (H ! p) - nat h) p)"
proof (cases "h < 0 \<or> int (nHeight (H ! p)) < h")
  case False
  then have "nat h \<le> nHeight (H ! p)" by auto
  with ancestor_loop_up [OF assms this] False show ?thesis by (auto simp: GetAncestor_def)
qed (auto simp: GetAncestor_def)

lemma BuildSkip_tree:
  assumes "block_tree H" "pprev b = Some q" "q < length H" "nHeight b = Suc (nHeight (H ! q))"
  shows "BuildSkip H b = Inr (b\<lparr>pskip := up H (nHeight b - 1 - GetSkipHeight (nHeight b)) q\<rparr>)"
proof -
  have "GetSkipHeight (nHeight b) \<le> nHeight (H ! q)" using GetSkipHeight_less [of "nHeight b"] assms(4) by simp
  then show ?thesis using assms by (simp add: BuildSkip_def GetAncestor_up)
qed

text \<open>
  C24.  \<open>GetAncestor\<close> with its skip pointers returns the block that walking \<open>pprev\<close> would reach, for every height asked
  for: nothing below zero or above the block, otherwise the block at that height; the search ends and its assertion
  never fails.
\<close>

theorem GetAncestor_correct:
  assumes "block_tree H" "p < length H"
  shows "GetAncestor H p h = Inr (if h < 0 \<or> int (nHeight (H ! p)) < h then None else up H (nHeight (H ! p) - nat h) p)"
  using assms by (rule GetAncestor_up)

section \<open>Chains\<close>

definition chain_of :: "block_store \<Rightarrow> nat \<Rightarrow> CChain" where
  "chain_of H p = map (\<lambda>h. up H (nHeight (H ! p) - h) p) [0..<Suc (nHeight (H ! p))]"

definition is_chain :: "block_store \<Rightarrow> CChain \<Rightarrow> bool" where
  "is_chain H v \<longleftrightarrow> v = [] \<or> (\<exists>p < length H. v = chain_of H p)"

lemma length_chain_of [simp]: "length (chain_of H p) = Suc (nHeight (H ! p))"
  by (simp add: chain_of_def)

lemma chain_of_nth: "h \<le> nHeight (H ! p) \<Longrightarrow> chain_of H p ! h = up H (nHeight (H ! p) - h) p"
  by (simp add: chain_of_def nth_append del: upt_Suc)

lemma chain_of_ancestor:
  assumes "block_tree H" "p < length H" "chain_of H p ! h = Some q" "h \<le> nHeight (H ! p)" "j \<le> h"
  shows "chain_of H p ! j = up H (h - j) q"
proof -
  have e: "nHeight (H ! p) - j = (nHeight (H ! p) - h) + (h - j)" using assms(4,5) by simp
  have "up H (nHeight (H ! p) - h) p = Some q" using assms(3,4) by (simp add: chain_of_nth)
  then have "up H (nHeight (H ! p) - j) p = up H (h - j) q" unfolding e up_add by simp
  then show ?thesis using assms(4,5) by (simp add: chain_of_nth)
qed

text \<open>The loop of \<open>SetTip\<close> from a block of height \<open>h\<close>: above \<open>h\<close> the new chain is in place, up to \<open>h\<close> an old one.\<close>

lemma set_tip_loop_chain:
  assumes "block_tree H" "p < length H" "k \<le> nHeight (H ! p)"
    and "up H k p = Some q" "length v = Suc (nHeight (H ! p))"
    and "\<And>j. nHeight (H ! q) < j \<Longrightarrow> j \<le> nHeight (H ! p) \<Longrightarrow> v ! j = chain_of H p ! j"
    and "is_chain H w" "\<And>j. j \<le> nHeight (H ! q) \<Longrightarrow> v ! j = (if j < length w then w ! j else None)"
  shows "set_tip_loop H v (Some q) = Some (chain_of H p)"
  using assms(3-)
proof (induction "nHeight (H ! q)" arbitrary: q k v)
  case 0
  note q = up_height [OF assms(1,2) \<open>up H k p = Some q\<close>]
  have "pprev (H ! q) = None" using tree_prev(1) [OF assms(1)] q 0 by simp
  moreover have "v[0 := Some q] = chain_of H p"
  proof (rule nth_equalityI)
    fix j assume "j < length (v[0 := Some q])"
    then show "v[0 := Some q] ! j = chain_of H p ! j"
      using 0 q chain_of_nth [of 0 H p] by (cases j) auto
  qed (use 0 in simp)
  moreover have "v ! 0 = Some q \<Longrightarrow> v[0 := Some q] = v" by (metis list_update_id)
  ultimately show ?case
    using 0 by (subst set_tip_loop.simps) (auto simp: set_tip_loop.simps)
next
  case (Suc n)
  note q = up_height [OF assms(1,2) \<open>up H k p = Some q\<close>]
  obtain r where r: "pprev (H ! q) = Some r" using tree_prev(1) [OF assms(1), of q] q Suc.hyps(2) by (cases "pprev (H ! q)") auto
  have r': "r < length H" "nHeight (H ! q) = Suc (nHeight (H ! r))" using tree_prev(2) [OF assms(1) _ r] q by simp_all
  have ur: "up H (Suc k) p = Some r" using Suc.prems(2) r by (simp add: up_Suc_right del: up.simps)
  show ?case
  proof (cases "v ! nHeight (H ! q) = Some q")
    case False
    let ?v = "v[nHeight (H ! q) := Some q]"
    have qc: "chain_of H p ! nHeight (H ! q) = Some q" using q Suc.prems(2) by (simp add: chain_of_nth)
    have "set_tip_loop H ?v (Some r) = Some (chain_of H p)"
    proof (rule Suc.hyps(1) [OF _ _ ur])
      show "n = nHeight (H ! r)" using r' q Suc.hyps(2) by simp
      show "Suc k \<le> nHeight (H ! p)" using up_height [OF assms(1,2) ur] by simp
      show "?v ! j = chain_of H p ! j" if "nHeight (H ! r) < j" "j \<le> nHeight (H ! p)" for j
        using that Suc.prems(3,4) qc r' q by (cases "j = nHeight (H ! q)") auto
      show "?v ! j = (if j < length w then w ! j else None)" if "j \<le> nHeight (H ! r)" for j
        using that Suc.prems(6) r' q by auto
    qed (use Suc.prems in simp_all)
    then show ?thesis using False r by (subst set_tip_loop.simps) simp
  next
    case True
    then have w: "nHeight (H ! q) < length w" "w ! nHeight (H ! q) = Some q" using Suc.prems(6) [of "nHeight (H ! q)"] by (auto split: if_splits)
    then obtain p' where p': "p' < length H" "w = chain_of H p'" using Suc.prems(5) by (auto simp: is_chain_def)
    have "v ! j = chain_of H p ! j" if "j \<le> nHeight (H ! p)" for j
    proof (cases "j \<le> nHeight (H ! q)")
      case le: True
      then have "v ! j = chain_of H p' ! j" using Suc.prems(6) w p' by simp
      also have "\<dots> = up H (nHeight (H ! q) - j) q" using w p' le by (intro chain_of_ancestor [OF assms(1) p'(1)]) auto
      also have "\<dots> = chain_of H p ! j"
        using le q Suc.prems(2) by (intro chain_of_ancestor [OF assms(1,2), symmetric]) (auto simp: chain_of_nth)
      finally show ?thesis .
    qed (use Suc.prems(4) that in simp)
    then have "v = chain_of H p" using Suc.prems(3) by (intro nth_equalityI) auto
    then show ?thesis using True by (subst set_tip_loop.simps) simp
  qed
qed

lemma resize_nth: "j < n \<Longrightarrow> resize v n ! j = (if j < length v then v ! j else None)"
  by (auto simp: resize_def nth_append)

lemma length_resize [simp]: "length (resize v n) = n"
  by (simp add: resize_def)

lemma SetTip_chain_of:
  assumes "block_tree H" "is_chain H v" "p < length H"
  shows "SetTip H v (Some p) = Some (chain_of H p)"
proof -
  have "set_tip_loop H (resize v (nHeight (H ! p) + 1)) (Some p) = Some (chain_of H p)"
    by (rule set_tip_loop_chain [OF assms(1,3), of 0 p _ v]) (use assms(2) in \<open>auto simp: resize_nth\<close>)
  then show ?thesis by (simp add: SetTip_def)
qed

section \<open>Forks\<close>

definition anc :: "block_store \<Rightarrow> nat \<Rightarrow> nat \<Rightarrow> bool" where
  "anc H p q \<longleftrightarrow> (\<exists>k. up H k p = Some q)"

lemma anc_step: "anc H p q \<longleftrightarrow> q = p \<or> (\<exists>r. pprev (H ! p) = Some r \<and> anc H r q)"
proof
  assume "anc H p q"
  then obtain k where "up H k p = Some q" by (auto simp: anc_def)
  then show "q = p \<or> (\<exists>r. pprev (H ! p) = Some r \<and> anc H r q)" by (cases k) (auto simp: anc_def split: option.splits)
next
  assume "q = p \<or> (\<exists>r. pprev (H ! p) = Some r \<and> anc H r q)"
  then show "anc H p q"
  proof
    assume "q = p"
    then have "up H 0 p = Some q" by simp
    then show ?thesis unfolding anc_def by blast
  next
    assume "\<exists>r. pprev (H ! p) = Some r \<and> anc H r q"
    then obtain r k where "pprev (H ! p) = Some r" "up H k r = Some q" by (auto simp: anc_def)
    then have "up H (Suc k) p = Some q" by simp
    then show ?thesis unfolding anc_def by blast
  qed
qed

lemma anc_height: "block_tree H \<Longrightarrow> p < length H \<Longrightarrow> anc H p q \<Longrightarrow> q < length H \<and> nHeight (H ! q) \<le> nHeight (H ! p)"
  unfolding anc_def using up_height by fastforce

lemma anc_up_height:
  assumes "block_tree H" "p < length H"
  shows "anc H p q \<longleftrightarrow> nHeight (H ! q) \<le> nHeight (H ! p) \<and> up H (nHeight (H ! p) - nHeight (H ! q)) p = Some q"
  using up_height [OF assms] unfolding anc_def by (metis diff_diff_cancel diff_le_self)

lemma anc_from:
  assumes "block_tree H" "p < length H" "up H k p = Some r"
  shows "anc H r q \<longleftrightarrow> anc H p q \<and> nHeight (H ! q) \<le> nHeight (H ! r)"
proof -
  note r = up_height [OF assms]
  have "up H (nHeight (H ! p) - nHeight (H ! q)) p = up H (nHeight (H ! r) - nHeight (H ! q)) r" if "nHeight (H ! q) \<le> nHeight (H ! r)"
  proof -
    have e: "nHeight (H ! p) - nHeight (H ! q) = k + (nHeight (H ! r) - nHeight (H ! q))" using r that by linarith
    show ?thesis unfolding e up_add using assms(3) by simp
  qed
  then show ?thesis using r by (auto simp: anc_up_height [OF assms(1,2)] anc_up_height [OF assms(1), of r])
qed

lemma chain_of_Contains:
  assumes "block_tree H" "t < length H"
  shows "chain_Contains H (chain_of H t) q \<longleftrightarrow> anc H t q"
proof (cases "nHeight (H ! q) \<le> nHeight (H ! t)")
  case True
  then show ?thesis by (simp add: chain_Contains_def chain_at_def chain_of_nth anc_up_height [OF assms])
qed (simp add: chain_Contains_def chain_at_def anc_up_height [OF assms])

text \<open>The highest block with a property among a block and its ancestors.\<close>

definition highest :: "block_store \<Rightarrow> (nat \<Rightarrow> bool) \<Rightarrow> nat option \<Rightarrow> bool" where
  "highest H P r \<longleftrightarrow>
     (case r of None \<Rightarrow> \<forall>q. \<not> P q
      | Some q \<Rightarrow> P q \<and> (\<forall>q'. P q' \<longrightarrow> nHeight (H ! q') \<le> nHeight (H ! q)))"

lemma fork_loop_highest:
  assumes "block_tree H" "p < length H"
  shows "\<exists>r. fork_loop H v (Some p) = Some r \<and> highest H (\<lambda>q. anc H p q \<and> chain_Contains H v q) r"
  using assms(2)
proof (induction "nHeight (H ! p)" arbitrary: p rule: less_induct)
  case less
  show ?case
  proof (cases "chain_Contains H v p")
    case True
    then show ?thesis using anc_height [OF assms(1) less.prems]
      by (subst fork_loop.simps) (auto simp: highest_def anc_step [of H p p])
  next
    case False
    show ?thesis
    proof (cases "pprev (H ! p)")
      case None
      then show ?thesis using False
        by (subst fork_loop.simps) (auto simp: highest_def anc_step [of H p] fork_loop.simps)
    next
      case (Some r)
      then have "r < length H" "nHeight (H ! r) < nHeight (H ! p)" using tree_prev(2) [OF assms(1) less.prems Some] by auto
      moreover have "(\<lambda>q. anc H p q \<and> chain_Contains H v q) = (\<lambda>q. anc H r q \<and> chain_Contains H v q)"
        using False Some by (auto simp: fun_eq_iff anc_step [of H p])
      ultimately show ?thesis using less.hyps [of r] False Some by (subst fork_loop.simps) simp
    qed
  qed
qed

lemma FindFork_highest:
  assumes "block_tree H" "t < length H" "p < length H"
  shows "\<exists>r. FindFork H (chain_of H t) (Some p) = Some (Inr r) \<and> highest H (\<lambda>q. anc H p q \<and> anc H t q) r"
proof (cases "nHeight (H ! p) > nHeight (H ! t)")
  case False
  then show ?thesis using fork_loop_highest [OF assms(1,3), of "chain_of H t"]
    by (auto simp: FindFork_def chain_Height_def chain_of_Contains [OF assms(1,2)])
next
  case True
  obtain r where r: "r < length H" "up H (nHeight (H ! p) - nHeight (H ! t)) p = Some r" "nHeight (H ! r) = nHeight (H ! t)"
    using up_total [OF assms(1,3), of "nHeight (H ! p) - nHeight (H ! t)"] True by auto
  have "(\<lambda>q. anc H r q \<and> anc H t q) = (\<lambda>q. anc H p q \<and> anc H t q)"
    using anc_from [OF assms(1,3) r(2)] anc_height [OF assms(1,2)] r(3) by (auto simp: fun_eq_iff)
  then show ?thesis using True r fork_loop_highest [OF assms(1) r(1), of "chain_of H t"]
    by (auto simp: FindFork_def chain_Height_def chain_of_Contains [OF assms(1,2)] GetAncestor_up [OF assms(1,3)])
qed

lemma meet_loop_highest:
  assumes "block_tree H" "a < length H" "b < length H" "nHeight (H ! a) = nHeight (H ! b)"
  shows "\<exists>r. meet_loop H (Some a) (Some b) = Some (r, r) \<and> highest H (\<lambda>q. anc H a q \<and> anc H b q) r"
  using assms(2-)
proof (induction "nHeight (H ! a)" arbitrary: a b)
  case 0
  then have n: "pprev (H ! a) = None" "pprev (H ! b) = None" using tree_prev(1) [OF assms(1), of a] tree_prev(1) [OF assms(1), of b] by simp_all
  show ?case
  proof (cases "a = b")
    case True
    with n show ?thesis by (subst meet_loop.simps) (auto simp: highest_def anc_step [of H b])
  next
    case False
    with n show ?thesis by (subst meet_loop.simps) (auto simp: highest_def anc_step [of H a] anc_step [of H b] meet_loop.simps)
  qed
next
  case (Suc n)
  then obtain a' b' where p: "pprev (H ! a) = Some a'" "pprev (H ! b) = Some b'"
    using tree_prev(1) [OF assms(1), of a] tree_prev(1) [OF assms(1), of b] by (metis not_None_eq nat.distinct(1))
  note a' = tree_prev(2) [OF assms(1) Suc.prems(1) p(1)] and b' = tree_prev(2) [OF assms(1) Suc.prems(2) p(2)]
  show ?case
  proof (cases "a = b")
    case True
    then show ?thesis using anc_height [OF assms(1) Suc.prems(1)]
      by (subst meet_loop.simps) (auto simp: highest_def anc_step [of H b b])
  next
    case False
    have nb: "\<not> anc H b a" "\<not> anc H a b"
      using False Suc.prems anc_up_height [OF assms(1)] by auto
    then have "(\<lambda>q. anc H a q \<and> anc H b q) = (\<lambda>q. anc H a' q \<and> anc H b' q)"
      using p False by (auto simp: fun_eq_iff anc_step [of H a] anc_step [of H b])
    then show ?thesis using Suc.hyps(1) [of a' b'] Suc.hyps(2) Suc.prems a' b' False p by (subst meet_loop.simps) auto
  qed
qed

lemma LastCommonAncestor_highest:
  assumes "block_tree H" "a < length H" "b < length H"
  shows "\<exists>r. LastCommonAncestor H a b = Some (Inr r) \<and> highest H (\<lambda>q. anc H a q \<and> anc H b q) r"
proof -
  have lower: "\<exists>r < length H. GetAncestor H x (int (nHeight (H ! y))) = Inr (Some r) \<and> nHeight (H ! r) = nHeight (H ! y) \<and>
      (\<lambda>q. anc H r q \<and> anc H y q) = (\<lambda>q. anc H x q \<and> anc H y q)"
    if x: "x < length H" and y: "y < length H" and lt: "nHeight (H ! y) < nHeight (H ! x)" for x y
  proof -
    obtain r where r: "r < length H" "up H (nHeight (H ! x) - nHeight (H ! y)) x = Some r" "nHeight (H ! r) = nHeight (H ! y)"
      using up_total [OF assms(1) x, of "nHeight (H ! x) - nHeight (H ! y)"] lt by auto
    moreover have "(\<lambda>q. anc H r q \<and> anc H y q) = (\<lambda>q. anc H x q \<and> anc H y q)"
      using anc_from [OF assms(1) x r(2)] anc_height [OF assms(1) y] r(3) by (auto simp: fun_eq_iff)
    ultimately show ?thesis using lt by (auto simp: GetAncestor_up [OF assms(1) x])
  qed
  consider "nHeight (H ! b) < nHeight (H ! a)" | "nHeight (H ! a) < nHeight (H ! b)" | "nHeight (H ! a) = nHeight (H ! b)" by linarith
  then show ?thesis
  proof cases
    case 1
    from lower [OF assms(2,3) 1] obtain r where r: "r < length H" "GetAncestor H a (int (nHeight (H ! b))) = Inr (Some r)"
      "nHeight (H ! r) = nHeight (H ! b)" "(\<lambda>q. anc H r q \<and> anc H b q) = (\<lambda>q. anc H a q \<and> anc H b q)" by blast
    with meet_loop_highest [OF assms(1) r(1) assms(3) r(3)] 1 show ?thesis by (auto simp: LastCommonAncestor_def)
  next
    case 2
    from lower [OF assms(3,2) 2] obtain r where r: "r < length H" "GetAncestor H b (int (nHeight (H ! a))) = Inr (Some r)"
      "nHeight (H ! r) = nHeight (H ! a)" "(\<lambda>q. anc H r q \<and> anc H a q) = (\<lambda>q. anc H b q \<and> anc H a q)" by blast
    with meet_loop_highest [OF assms(1,2) r(1) r(3) [symmetric]] 2 show ?thesis
      by (auto simp: LastCommonAncestor_def conj_commute)
  next
    case 3
    with meet_loop_highest [OF assms] show ?thesis by (auto simp: LastCommonAncestor_def)
  qed
qed

lemma highest_unique:
  assumes "highest H P r" "highest H P r'" "\<And>q q'. P q \<Longrightarrow> P q' \<Longrightarrow> nHeight (H ! q) = nHeight (H ! q') \<Longrightarrow> q = q'"
  shows "r = r'"
proof (cases "r = None \<or> r' = None")
  case True
  with assms(1,2) show ?thesis by (cases r; cases r') (simp_all add: highest_def)
next
  case False
  then obtain q q' where q: "r = Some q" "r' = Some q'" by auto
  with assms(1,2) have P: "P q" "P q'" by (simp_all add: highest_def)
  have "nHeight (H ! q) \<le> nHeight (H ! q')" "nHeight (H ! q') \<le> nHeight (H ! q)"
    using assms(1,2) P unfolding q highest_def by simp_all
  with assms(3) [OF P] q show ?thesis by simp
qed

text \<open>
  C25.  Setting the tip of the active chain to a block leaves in it exactly that block and its ancestors, whatever chain
  was active before; then \<open>FindFork\<close> and \<open>LastCommonAncestor\<close> both end, their assertions hold, and they return the same
  block: the highest common ancestor of the tip and the block asked about, or nothing if there is none.
\<close>

theorem SetTip_FindFork:
  assumes "block_tree H" "is_chain H v" "t < length H" "p < length H"
  shows "\<exists>c r. SetTip H v (Some t) = Some c \<and> (\<forall>q. chain_Contains H c q \<longleftrightarrow> anc H t q) \<and> chain_Tip c = Some t \<and>
    FindFork H c (Some p) = Some (Inr r) \<and> LastCommonAncestor H t p = Some (Inr r) \<and>
    highest H (\<lambda>q. anc H t q \<and> anc H p q) r"
proof -
  let ?P = "\<lambda>q. anc H t q \<and> anc H p q"
  obtain r where r: "FindFork H (chain_of H t) (Some p) = Some (Inr r)" "highest H ?P r"
    using FindFork_highest [OF assms(1,3,4)] by (auto simp: conj_commute)
  obtain r' where r': "LastCommonAncestor H t p = Some (Inr r')" "highest H ?P r'"
    using LastCommonAncestor_highest [OF assms(1,3,4)] by blast
  have "r = r'" by (rule highest_unique [OF r(2) r'(2)]) (auto simp: anc_up_height [OF assms(1,3)])
  moreover have "chain_Tip (chain_of H t) = Some t" by (simp add: chain_Tip_def chain_of_nth)
  ultimately show ?thesis
    using SetTip_chain_of [OF assms(1-3)] chain_of_Contains [OF assms(1,3)] r r' by blast
qed

section \<open>Locators\<close>

partial_function (option) locator_loop ::
  "block_store \<Rightarrow> CChain \<Rightarrow> nat option \<Rightarrow> int \<Rightarrow> uint256 list \<Rightarrow> (chain_error + uint256 list) option" where
  "locator_loop H v pindex nStep vHave =
     (case pindex of
        None \<Rightarrow> Some (Inr vHave)
      | Some p \<Rightarrow>
          let vHave = vHave @ [phashBlock (H ! p)] in
          if nHeight (H ! p) = 0 then Some (Inr vHave)
          else let h = max (int (nHeight (H ! p)) - nStep) 0;
                   next = (if chain_Contains H v p then Inr (chain_at v h) else GetAncestor H p h);
                   nStep = (if length vHave > 10 then nStep * 2 else nStep) in
            (case next of Inl e \<Rightarrow> Some (Inl e) | Inr q \<Rightarrow> locator_loop H v q nStep vHave))"

definition GetLocator :: "block_store \<Rightarrow> CChain \<Rightarrow> nat option \<Rightarrow> (chain_error + uint256 list) option" where
  "GetLocator H v pindex = locator_loop H v (case pindex of None \<Rightarrow> chain_Tip v | Some p \<Rightarrow> Some p) 1 []"

text \<open>The heights a locator names: ten single steps back, then steps that double, down to the genesis block.\<close>

function locator_heights :: "nat \<Rightarrow> nat \<Rightarrow> nat list" where
  "locator_heights n h = h # (if h = 0 then [] else locator_heights (Suc n) (h - 2 ^ (n - 10)))"
  by pat_completeness auto
termination
  by (relation "measure snd") auto

declare locator_heights.simps [simp del]

lemma length_locator_heights_late: "10 \<le> n \<Longrightarrow> h < 2 ^ (n - 10 + m) \<Longrightarrow> length (locator_heights n h) \<le> m + 2"
proof (induction m arbitrary: n h)
  case 0
  then have "h - 2 ^ (n - 10) = 0" by simp
  then show ?case by (simp add: locator_heights.simps)
next
  case (Suc m)
  obtain k where k: "n = 10 + k" using Suc.prems(1) le_Suc_ex by blast
  then have "h < 2 ^ (Suc n - 10 + m)" using Suc.prems(2) by simp
  then have "h - 2 ^ (n - 10) < 2 ^ (Suc n - 10 + m)" by (rule less_imp_diff_less)
  then show ?case using Suc by (subst locator_heights.simps) simp
qed

lemma length_locator_heights: "n \<le> 10 \<Longrightarrow> h < 2 ^ m \<Longrightarrow> length (locator_heights n h) \<le> 10 - n + (m + 2)"
proof (induction "10 - n" arbitrary: n h)
  case 0
  then show ?case using length_locator_heights_late [of n h m] by simp
next
  case (Suc k)
  then have "length (locator_heights (Suc n) (h - 1)) \<le> 10 - Suc n + (m + 2)" by (intro Suc.hyps(1)) simp_all
  moreover have "n - 10 = 0" "10 - n = Suc (10 - Suc n)" using Suc by simp_all
  ultimately show ?case by (subst locator_heights.simps) simp
qed

definition ancestor_at :: "block_store \<Rightarrow> nat \<Rightarrow> nat \<Rightarrow> nat" where
  "ancestor_at H p h = the (up H (nHeight (H ! p) - h) p)"

lemma next_ancestor:
  assumes "block_tree H" "is_chain H v" "p < length H" "h \<le> nHeight (H ! p)"
  shows "(if chain_Contains H v p then Inr (chain_at v (int h)) else GetAncestor H p (int h)) = Inr (Some (ancestor_at H p h))"
proof -
  obtain q where q: "up H (nHeight (H ! p) - h) p = Some q" using up_total [OF assms(1,3), of "nHeight (H ! p) - h"] by auto
  have "chain_at v (int h) = Some q" if c: "chain_Contains H v p"
  proof -
    obtain t where t: "t < length H" "v = chain_of H t" using c assms(2) by (auto simp: is_chain_def chain_Contains_def chain_at_def)
    then have "nHeight (H ! p) \<le> nHeight (H ! t)" "chain_of H t ! nHeight (H ! p) = Some p"
      using c by (auto simp: chain_Contains_def chain_at_def split: if_splits)
    then have "chain_of H t ! h = Some q" using chain_of_ancestor [OF assms(1) t(1)] assms(4) q by simp
    then show ?thesis using t \<open>nHeight (H ! p) \<le> nHeight (H ! t)\<close> assms(4) by (simp add: chain_at_def)
  qed
  then show ?thesis using q assms(4) by (simp add: GetAncestor_up [OF assms(1,3)] ancestor_at_def)
qed

lemma ancestor_at_up:
  assumes "block_tree H" "p < length H" "up H j p = Some q" "h \<le> nHeight (H ! q)"
  shows "ancestor_at H q h = ancestor_at H p h"
proof -
  have "nHeight (H ! p) - h = j + (nHeight (H ! q) - h)" using up_height [OF assms(1-3)] assms(4) by linarith
  then show ?thesis using assms(3) by (simp only: ancestor_at_def up_add option.case)
qed

lemma locator_heights_le: "x \<in> set (locator_heights n h) \<Longrightarrow> x \<le> h"
proof (induction n h rule: locator_heights.induct)
  case (1 n h)
  then show ?case by (subst (asm) (2) locator_heights.simps) (auto split: if_splits)
qed

lemma locator_loop_heights:
  assumes "block_tree H" "is_chain H v" "p < length H" "nStep = 2 ^ (length vHave - 10)"
  shows "locator_loop H v (Some p) nStep vHave =
    Some (Inr (vHave @ map (\<lambda>h. phashBlock (H ! ancestor_at H p h)) (locator_heights (length vHave) (nHeight (H ! p)))))"
  using assms(3,4)
proof (induction "nHeight (H ! p)" arbitrary: p nStep vHave rule: less_induct)
  case less
  let ?h = "nHeight (H ! p)" let ?n = "length vHave"
  have self: "ancestor_at H p ?h = p" by (simp add: ancestor_at_def)
  show ?case
  proof (cases "?h = 0")
    case True
    with self show ?thesis by (subst locator_loop.simps) (simp add: locator_heights.simps)
  next
    case False
    let ?g = "?h - 2 ^ (?n - 10)"
    obtain q where q: "up H (?h - ?g) p = Some q" "q < length H" "nHeight (H ! q) = ?g"
      using up_total [OF assms(1) less.prems(1), of "?h - ?g"] by auto
    have m: "max (int ?h - nStep) 0 = int ?g" using less.prems(2) by (simp add: of_nat_diff max_def)
    have a: "ancestor_at H p ?g = q" using q by (simp add: ancestor_at_def)
    have st: "(if length (vHave @ [phashBlock (H ! p)]) > 10 then nStep * 2 else nStep) = 2 ^ (Suc ?n - 10)"
    proof (cases "10 \<le> ?n")
      case True
      then have "Suc ?n - 10 = Suc (?n - 10)" by simp
      with True less.prems(2) show ?thesis by simp
    qed (use less.prems(2) in auto)
    have "locator_loop H v (Some p) nStep vHave = locator_loop H v (Some q) (2 ^ (Suc ?n - 10)) (vHave @ [phashBlock (H ! p)])"
      using False next_ancestor [OF assms(1,2) less.prems(1), of ?g] a st
      by (subst locator_loop.simps) (simp only: option.case Let_def m if_False sum.case diff_le_self)
    also have "\<dots> = Some (Inr ((vHave @ [phashBlock (H ! p)]) @ map (\<lambda>h. phashBlock (H ! ancestor_at H q h)) (locator_heights (Suc ?n) ?g)))"
      using less.hyps [of q "2 ^ (Suc ?n - 10)" "vHave @ [phashBlock (H ! p)]"] q False by simp
    also have "map (\<lambda>h. phashBlock (H ! ancestor_at H q h)) (locator_heights (Suc ?n) ?g) =
        map (\<lambda>h. phashBlock (H ! ancestor_at H p h)) (locator_heights (Suc ?n) ?g)"
      using ancestor_at_up [OF assms(1) less.prems(1) q(1)] locator_heights_le [of _ "Suc ?n" ?g] q(3) by simp
    finally show ?thesis using False self by (simp add: locator_heights.simps [of ?n])
  qed
qed
lemma locator_heights_ends: "hd (locator_heights n h) = h \<and> last (locator_heights n h) = 0 \<and> sorted_wrt (>) (locator_heights n h)"
proof (induction n h rule: locator_heights.induct)
  case (1 n h)
  show ?case
  proof (cases "h = 0")
    case False
    let ?t = "locator_heights (Suc n) (h - 2 ^ (n - 10))"
    have ne: "?t \<noteq> []" by (subst locator_heights.simps) simp
    have "h - 2 ^ (n - 10) < h" using False by simp
    then have "\<forall>x \<in> set ?t. x < h" using locator_heights_le [of _ "Suc n" "h - 2 ^ (n - 10)"] by fastforce
    with 1 [OF False] ne False show ?thesis by (subst (1 2 3) locator_heights.simps) simp
  qed (simp add: locator_heights.simps)
qed

text \<open>
  C26.  \<open>GetLocator\<close> always ends without an assertion failure.  Its hashes are those of the block and of ancestors at
  strictly falling heights down to the genesis block, found alike through the active chain or the skip list, and there
  are at most \<open>12 + m\<close> of them for a block below height \<open>2 ^ m\<close>.
\<close>

theorem GetLocator_spec:
  assumes "block_tree H" "is_chain H v" "p < length H" "nHeight (H ! p) < 2 ^ m"
  shows "\<exists>hs. GetLocator H v (Some p) = Some (Inr (map (\<lambda>h. phashBlock (H ! the (up H (nHeight (H ! p) - h) p))) hs)) \<and>
    hd hs = nHeight (H ! p) \<and> last hs = 0 \<and> sorted_wrt (>) hs \<and> length hs \<le> 12 + m"
  using locator_loop_heights [OF assms(1-3), of 1 "[]"] locator_heights_ends [of 0 "nHeight (H ! p)"]
    length_locator_heights [of 0 "nHeight (H ! p)" m] assms(4)
  by (intro exI [of _ "locator_heights 0 (nHeight (H ! p))"]) (simp add: GetLocator_def ancestor_at_def)

section \<open>An example tree\<close>

text \<open>A genesis block and two children, the second with a skip pointer.\<close>

definition example_store :: block_store where
  "example_store =
     (let g = CBlockIndex_new CBlockHeader_null in
      [g, g\<lparr>phashBlock := 1, pprev := Some 0, nHeight := 1\<rparr>, g\<lparr>phashBlock := 2, pprev := Some 0, pskip := Some 0, nHeight := 1\<rparr>])"

lemma example_tree: "block_tree example_store" "length example_store = 3" "is_chain example_store []"
  by (auto simp: block_tree_def example_store_def block_ok_def Let_def CBlockIndex_new_def less_Suc_eq numeral_3_eq_3
      numeral_2_eq_2 GetSkipHeight_def is_chain_def)

theorem GetAncestor_correct_witness: "GetAncestor example_store 2 0 = Inr (Some 0)"
  using GetAncestor_correct [OF example_tree(1), of 2 0] example_tree(2)
  by (simp add: example_store_def Let_def CBlockIndex_new_def)

theorem SetTip_FindFork_witness:
  "\<exists>c r. SetTip example_store [] (Some 1) = Some c \<and> chain_Tip c = Some 1 \<and> FindFork example_store c (Some 2) = Some (Inr r) \<and>
     LastCommonAncestor example_store 1 2 = Some (Inr r)"
  using SetTip_FindFork [OF example_tree(1,3), of 1 2] example_tree(2) by auto

theorem GetLocator_spec_witness:
  "\<exists>hs. GetLocator example_store [] (Some 2) =
      Some (Inr (map (\<lambda>h. phashBlock (example_store ! the (up example_store (nHeight (example_store ! 2) - h) 2))) hs)) \<and>
    hd hs = nHeight (example_store ! 2) \<and> last hs = 0 \<and> sorted_wrt (>) hs \<and> length hs \<le> 12 + 1"
  by (rule GetLocator_spec [OF example_tree(1,3)])
    (simp_all add: example_tree(2), simp add: example_store_def Let_def CBlockIndex_new_def)

end
