(* ===== verification/Block_Index.thy ===== *)
theory Block_Index
  imports Chain
begin

unbundle bit_operations_syntax

text \<open>
  Growing the tree of headers: \<open>AddToBlockIndex\<close> of \<^verbatim>\<open>src/validation.cpp\<close>, which sets the links, the skip pointer, the greatest
  time stamp and the accumulated work of a new entry and keeps track of the best header.  The states it can reach
  are those of the inductive predicate \<open>index_reach\<close>; its invariant \<open>index_inv\<close> holds in all of them.
\<close>

section \<open>Adding a header\<close>

record block_index =
  blocks :: block_store
  mapBlockIndex :: "uint256 \<Rightarrow> nat option"
  pindexBestHeader :: "nat option"
  setDirtyBlockIndex :: "nat list"

definition empty_index :: block_index where
  "empty_index = \<lparr>blocks = [], mapBlockIndex = \<lambda>_. None, pindexBestHeader = None, setDirtyBlockIndex = []\<rparr>"

datatype index_error = SkipError chain_error | UintError

text \<open>The entry of a new header before its work is known; \<open>H\<close> is the store, the new entry last.\<close>

definition link_entry :: "block_store \<Rightarrow> nat option \<Rightarrow> CBlockIndex \<Rightarrow> index_error + CBlockIndex" where
  "link_entry H miPrev b =
     (case miPrev of
        None \<Rightarrow> Inr b
      | Some q \<Rightarrow>
          let b = b\<lparr>pprev := Some q, nHeight := nHeight ((H @ [b]) ! q) + 1\<rparr>
          in (case BuildSkip (H @ [b]) b of Inl e \<Rightarrow> Inl (SkipError e) | Inr b \<Rightarrow> Inr b))"

definition prev_field :: "block_store \<Rightarrow> CBlockIndex \<Rightarrow> (CBlockIndex \<Rightarrow> 'a) \<Rightarrow> 'a option" where
  "prev_field H b f = (case pprev b of None \<Rightarrow> None | Some q \<Rightarrow> Some (f ((H @ [b]) ! q)))"

definition set_time_max :: "block_store \<Rightarrow> CBlockIndex \<Rightarrow> CBlockIndex" where
  "set_time_max H b =
     b\<lparr>nTimeMax := (case prev_field H b nTimeMax of None \<Rightarrow> b_nTime b | Some t \<Rightarrow> max t (b_nTime b))\<rparr>"

definition set_chain_work :: "block_store \<Rightarrow> CBlockIndex \<Rightarrow> index_error + CBlockIndex" where
  "set_chain_work H b =
     (case GetBlockProof b of
        None \<Rightarrow> Inl UintError
      | Some w \<Rightarrow> Inr (b\<lparr>nChainWork := uint_add (case prev_field H b nChainWork of None \<Rightarrow> base_uint_64 0 | Some c \<Rightarrow> c) w\<rparr>))"

text \<open>\<open>hash\<close> is \<open>block.GetHash()\<close>.  The new entry is in the map before its parent is looked up, as in the code.\<close>

definition AddToBlockIndex :: "uint256 \<Rightarrow> CBlockHeader \<Rightarrow> block_index \<Rightarrow> index_error + nat \<times> block_index" where
  "AddToBlockIndex hash block S =
     (case mapBlockIndex S hash of
        Some p \<Rightarrow> Inr (p, S)
      | None \<Rightarrow>
          let H = blocks S; p = length H; m = (mapBlockIndex S)(hash := Some p);
              b = (CBlockIndex_new block)\<lparr>nSequenceId := 0, phashBlock := hash\<rparr> in
          ebind (link_entry H (m (hashPrevBlock block)) b) (\<lambda>b.
          ebind (set_chain_work H (set_time_max H b)) (\<lambda>b.
            let b = fst (RaiseValidity BLOCK_VALID_TREE b); H' = H @ [b] in
            Inr (p, S\<lparr>blocks := H', mapBlockIndex := m,
              pindexBestHeader := (case pindexBestHeader S of
                 None \<Rightarrow> Some p
               | Some q \<Rightarrow> if CompareTo (nChainWork (H' ! q)) (nChainWork b) < 0 then Some p else Some q),
              setDirtyBlockIndex := p # setDirtyBlockIndex S\<rparr>))))"

section \<open>Work of a block\<close>

definition block_work :: "CBlockIndex \<Rightarrow> nat" where
  "block_work b =
     (case SetCompact (b_nBits b) of (t, fNegative, fOverflow) \<Rightarrow>
        if fNegative \<or> fOverflow \<or> limb_val t = 0 then 0 else 2 ^ 256 div (limb_val t + 1))"

text \<open>A target has at most 23 bits or is a multiple of 256, so it is never \<open>2 ^ 256 - 1\<close>.\<close>

lemma SetCompact_not_max: "limb_val (fst (SetCompact c)) < 2 ^ 256 - 1"
proof (cases "unat (drop_bit 24 c) \<le> 3")
  case True
  have "unat c mod 2 ^ 23 < (2 :: nat) ^ 23" by simp
  moreover have "unat c mod 2 ^ 23 div 256 ^ (3 - unat (drop_bit 24 c)) \<le> unat c mod 2 ^ 23" by simp
  ultimately have "unat c mod 2 ^ 23 div 256 ^ (3 - unat (drop_bit 24 c)) < 2 ^ 23" by linarith
  then show ?thesis using True SetCompact_val(1) [of c] by simp
next
  case False
  then obtain k where k: "unat (drop_bit 24 c) - 3 = Suc k" by (metis Suc_diff_Suc not_le)
  let ?v = "unat c mod 2 ^ 23 * 256 ^ Suc k mod (2 ^ 256 :: nat)"
  have "256 dvd ?v" by (rule dvd_mod) simp_all
  moreover have "\<not> (256 :: nat) dvd 2 ^ 256 - 1" by simp
  ultimately have "?v \<noteq> 2 ^ 256 - 1" by metis
  moreover have "?v < 2 ^ 256" by simp
  ultimately have "?v < 2 ^ 256 - 1" by linarith
  then show ?thesis using False k SetCompact_val(1) [of c] by simp
qed

lemma GetBlockProof_val: "\<exists>r. GetBlockProof b = Some r \<and> is_uint256 r \<and> limb_val r = block_work b"
proof -
  obtain t neg ovf where s: "SetCompact (b_nBits b) = (t, neg, ovf)" by (cases "SetCompact (b_nBits b)")
  have t: "is_uint256 t" "limb_val t < 2 ^ 256 - 1"
    using SetCompact_val(2) [of "b_nBits b"] SetCompact_not_max [of "b_nBits b"] s by simp_all
  have e: "EqualTo t 0 \<longleftrightarrow> limb_val t = 0" using EqualTo_val [of t 0] t by (simp add: WIDTH_def)
  show ?thesis
  proof (cases "neg \<or> ovf \<or> limb_val t = 0")
    case True
    then show ?thesis using s e by (auto simp: GetBlockProof_def block_work_def base_uint_64_val)
  next
    case False
    let ?d = "uint_add t (base_uint_64 1)"
    have d: "is_uint256 ?d" "limb_val ?d = limb_val t + 1"
      using au.add [OF t(1) au.of64(1), of 1] t(2) by (simp_all add: base_uint_64_val)
    have n: "is_uint256 (uint_not t)" "limb_val (uint_not t) = 2 ^ 256 - 1 - limb_val t"
      using t(1) by (simp_all add: uint_not_val WIDTH_def)
    obtain q where q: "uint_div (uint_not t) ?d = Some q" "is_uint256 q" "limb_val q = (2 ^ 256 - 1 - limb_val t) div (limb_val t + 1)"
      using au.quo [OF n(1) d(1)] d(2) n(2) by auto
    have "2 ^ 256 = (2 ^ 256 - 1 - limb_val t) + (limb_val t + 1)" using t(2) by simp
    then have w: "2 ^ 256 div (limb_val t + 1) = (2 ^ 256 - 1 - limb_val t) div (limb_val t + 1) + 1"
      by (metis add_is_0 div_add_self2 one_neq_zero)
    have "2 ^ 256 div (limb_val t + 1) < (2 :: nat) ^ 256" using False by (intro div_less_dividend) simp_all
    then have "is_uint256 (uint_add q (base_uint_64 1)) \<and> limb_val (uint_add q (base_uint_64 1)) = 2 ^ 256 div (limb_val t + 1)"
      using au.add [OF q(2) au.of64(1), of 1] q(3) w by (simp add: base_uint_64_val)
    then show ?thesis using False s e q(1) by (auto simp: GetBlockProof_def block_work_def)
  qed
qed

section \<open>Invariant\<close>

definition times_ok :: "block_store \<Rightarrow> nat \<Rightarrow> bool" where
  "times_ok H p \<longleftrightarrow>
     nTimeMax (H ! p) = (case pprev (H ! p) of None \<Rightarrow> b_nTime (H ! p) | Some q \<Rightarrow> max (nTimeMax (H ! q)) (b_nTime (H ! p)))"

definition work_ok :: "block_store \<Rightarrow> nat \<Rightarrow> bool" where
  "work_ok H p \<longleftrightarrow> is_uint256 (nChainWork (H ! p)) \<and>
     limb_val (nChainWork (H ! p)) =
       ((case pprev (H ! p) of None \<Rightarrow> 0 | Some q \<Rightarrow> limb_val (nChainWork (H ! q))) + block_work (H ! p)) mod 2 ^ 256"

definition best_ok :: "block_store \<Rightarrow> nat option \<Rightarrow> bool" where
  "best_ok H best \<longleftrightarrow>
     (case best of None \<Rightarrow> H = []
      | Some q \<Rightarrow> q < length H \<and> (\<forall>p < length H. limb_val (nChainWork (H ! p)) \<le> limb_val (nChainWork (H ! q))))"

definition index_inv :: "block_index \<Rightarrow> bool" where
  "index_inv S \<longleftrightarrow> block_tree (blocks S) \<and>
     (\<forall>h p. mapBlockIndex S h = Some p \<longleftrightarrow> p < length (blocks S) \<and> phashBlock (blocks S ! p) = h) \<and>
     (\<forall>p < length (blocks S). times_ok (blocks S) p \<and> work_ok (blocks S) p) \<and>
     best_ok (blocks S) (pindexBestHeader S)"

lemma up_append:
  assumes "block_tree H"
  shows "p < length H \<Longrightarrow> up (H @ bs) k p = up H k p"
proof (induction k arbitrary: p)
  case (Suc k)
  then show ?case using tree_prev(2) [OF assms Suc.prems] by (auto simp: nth_append split: option.splits)
qed simp

lemma block_ok_append: "block_tree H \<Longrightarrow> p < length H \<Longrightarrow> block_ok (H @ [b]) p"
  using block_treeD [of H p] up_append [of H p "[b]"] by (auto simp: block_ok_def nth_append split: option.splits)

lemma inv_append:
  assumes "block_tree H" "p < length H"
  shows "times_ok H p \<Longrightarrow> times_ok (H @ [b]) p" "work_ok H p \<Longrightarrow> work_ok (H @ [b]) p"
  using tree_prev(2) [OF assms] assms(2) by (auto simp: times_ok_def work_ok_def nth_append split: option.splits)

lemma index_inv_empty: "index_inv empty_index"
  by (simp add: index_inv_def empty_index_def block_tree_def best_ok_def)

lemma tree_snoc: "block_tree H \<Longrightarrow> block_ok (H @ [b]) (length H) \<Longrightarrow> block_tree (H @ [b])"
  using block_ok_append by (auto simp: block_tree_def [of "H @ [b]"] less_Suc_eq)

text \<open>The fields each stage sets.\<close>

lemma link_entry_known:
  assumes "block_tree H" "q < length H" "pskip b = None"
  shows "link_entry H (Some q) b =
    Inr (b\<lparr>pprev := Some q, nHeight := nHeight (H ! q) + 1,
           pskip := up H (nHeight (H ! q) - GetSkipHeight (nHeight (H ! q) + 1)) q\<rparr>)"
proof -
  let ?b = "b\<lparr>pprev := Some q, nHeight := nHeight (H ! q) + 1\<rparr>"
  have tree: "block_tree (H @ [?b])"
    using assms by (intro tree_snoc) (auto simp: block_ok_def nth_append)
  have "BuildSkip (H @ [?b]) ?b = Inr (?b\<lparr>pskip := up (H @ [?b]) (nHeight ?b - 1 - GetSkipHeight (nHeight ?b)) q\<rparr>)"
    using assms(2) by (intro BuildSkip_tree [OF tree]) (simp_all add: nth_append)
  then show ?thesis using assms(2) up_append [OF assms(1,2)] by (simp add: link_entry_def nth_append Let_def)
qed

lemma block_ok_linked:
  assumes "block_tree H" "q < length H" "pprev b = Some q" "nHeight b = nHeight (H ! q) + 1"
    and "pskip b = up H (nHeight (H ! q) - GetSkipHeight (nHeight (H ! q) + 1)) q"
  shows "block_ok (H @ [b]) (length H)"
proof -
  let ?s = "GetSkipHeight (nHeight (H ! q) + 1)"
  have "?s \<le> nHeight (H ! q)" using GetSkipHeight_less [of "nHeight (H ! q) + 1"] by simp
  then have "nHeight (H ! q) + 1 - ?s = Suc (nHeight (H ! q) - ?s)" by simp
  then show ?thesis using assms up_append [OF assms(1,2), of "[b]"] by (simp add: block_ok_def nth_append)
qed

lemma RaiseValidity_fields [simp]:
  "pprev (fst (RaiseValidity v b)) = pprev b" "pskip (fst (RaiseValidity v b)) = pskip b"
  "nHeight (fst (RaiseValidity v b)) = nHeight b" "phashBlock (fst (RaiseValidity v b)) = phashBlock b"
  "nChainWork (fst (RaiseValidity v b)) = nChainWork b" "nTimeMax (fst (RaiseValidity v b)) = nTimeMax b"
  "b_nTime (fst (RaiseValidity v b)) = b_nTime b" "b_nBits (fst (RaiseValidity v b)) = b_nBits b"
  "b_nVersion (fst (RaiseValidity v b)) = b_nVersion b" "b_nNonce (fst (RaiseValidity v b)) = b_nNonce b"
  "b_hashMerkleRoot (fst (RaiseValidity v b)) = b_hashMerkleRoot b"
  by (simp_all add: RaiseValidity_def)

lemma block_work_cong: "b_nBits b = b_nBits b' \<Longrightarrow> block_work b = block_work b'"
  by (simp add: block_work_def)

text \<open>A finished entry: the links and the time and work fields of \<open>b\<close> are right in the store \<open>H @ [b]\<close>.\<close>

definition entry_ok :: "block_store \<Rightarrow> CBlockIndex \<Rightarrow> bool" where
  "entry_ok H b \<longleftrightarrow> block_ok (H @ [b]) (length H) \<and> times_ok (H @ [b]) (length H) \<and> work_ok (H @ [b]) (length H)"

lemma finish_entry:
  assumes "block_tree H" "\<forall>p < length H. work_ok H p" "pprev b = None \<or> (\<exists>q < length H. pprev b = Some q)"
    and "\<And>b'. pprev b' = pprev b \<Longrightarrow> pskip b' = pskip b \<Longrightarrow> nHeight b' = nHeight b \<Longrightarrow> block_ok (H @ [b']) (length H)"
  shows "\<exists>b'. set_chain_work H (set_time_max H b) = Inr b' \<and> entry_ok H (fst (RaiseValidity v b')) \<and>
    phashBlock b' = phashBlock b \<and> (\<forall>H'. index_GetBlockHeader H' b' = index_GetBlockHeader H' b)"
proof -
  let ?b = "set_time_max H b"
  obtain w where w: "GetBlockProof ?b = Some w" "is_uint256 w" "limb_val w = block_work ?b" using GetBlockProof_val by blast
  let ?c = "case prev_field H ?b nChainWork of None \<Rightarrow> base_uint_64 0 | Some c \<Rightarrow> c"
  let ?b' = "?b\<lparr>nChainWork := uint_add ?c w\<rparr>" let ?r = "fst (RaiseValidity v ?b')"
  have c: "is_uint256 ?c" using assms(2,3) by (auto simp: prev_field_def set_time_max_def nth_append work_ok_def base_uint_64_val)
  have cv: "limb_val ?c = (case pprev b of None \<Rightarrow> 0 | Some q \<Rightarrow> limb_val (nChainWork (H ! q)))"
    using assms(3) by (auto simp: prev_field_def set_time_max_def nth_append base_uint_64_val)
  have "block_ok (H @ [?r]) (length H)" by (rule assms(4)) (simp_all add: set_time_max_def)
  moreover have "times_ok (H @ [?r]) (length H)"
    using assms(3) by (auto simp: times_ok_def set_time_max_def prev_field_def nth_append)
  moreover have "work_ok (H @ [?r]) (length H)"
  proof -
    have "block_work ?r = limb_val w" using w(3) by (simp add: block_work_cong [of ?r ?b])
    then show ?thesis using assms(3) au.add [OF c w(2)] cv by (auto simp: work_ok_def set_time_max_def nth_append)
  qed
  ultimately show ?thesis using w(1) by (auto simp: set_chain_work_def entry_ok_def set_time_max_def index_GetBlockHeader_def)
qed

lemma best_ok_snoc:
  assumes "best_ok H best" "\<forall>p < length H. is_uint256 (nChainWork (H ! p))" "is_uint256 (nChainWork b)"
  shows "best_ok (H @ [b]) (case best of None \<Rightarrow> Some (length H)
     | Some q \<Rightarrow> if CompareTo (nChainWork ((H @ [b]) ! q)) (nChainWork b) < 0 then Some (length H) else Some q)"
proof (cases best)
  case None
  then show ?thesis using assms(1) by (simp add: best_ok_def)
next
  case (Some q)
  then have q: "q < length H" "\<forall>p < length H. limb_val (nChainWork (H ! p)) \<le> limb_val (nChainWork (H ! q))"
    using assms(1) by (simp_all add: best_ok_def)
  have "CompareTo (nChainWork (H ! q)) (nChainWork b) < 0 \<longleftrightarrow> limb_val (nChainWork (H ! q)) < limb_val (nChainWork b)"
    using q(1) assms(2,3) by (simp add: CompareTo_val)
  with Some q show ?thesis by (auto simp: best_ok_def nth_append less_Suc_eq intro: order.strict_trans1 less_imp_le)
qed

lemma link_new_entry:
  fixes S hash block
  defines "H \<equiv> blocks S" and "prev \<equiv> mapBlockIndex S (hashPrevBlock block)"
    and "b0 \<equiv> (CBlockIndex_new block)\<lparr>nSequenceId := 0, phashBlock := hash\<rparr>"
  assumes "block_tree H" "\<And>h p. mapBlockIndex S h = Some p \<longleftrightarrow> p < length H \<and> phashBlock (H ! p) = h"
  shows "\<exists>b. link_entry H prev b0 = Inr b \<and> pprev b = prev \<and> phashBlock b = hash \<and>
    (\<forall>b'. pprev b' = pprev b \<longrightarrow> pskip b' = pskip b \<longrightarrow> nHeight b' = nHeight b \<longrightarrow> block_ok (H @ [b']) (length H)) \<and>
    (prev \<noteq> None \<longrightarrow> (\<forall>bs. index_GetBlockHeader (H @ bs) b = block))"
proof -
  have new: "pprev b0 = None" "pskip b0 = None" "nHeight b0 = 0" "phashBlock b0 = hash" by (simp_all add: b0_def CBlockIndex_new_def)
  show ?thesis
  proof (cases prev)
    case None
    then show ?thesis using new by (intro exI [of _ b0]) (simp add: link_entry_def block_ok_def)
  next
    case (Some q)
    then have q: "q < length H" "phashBlock (H ! q) = hashPrevBlock block" using assms(5) by (simp_all add: prev_def)
    let ?b = "b0\<lparr>pprev := Some q, nHeight := nHeight (H ! q) + 1, pskip := up H (nHeight (H ! q) - GetSkipHeight (nHeight (H ! q) + 1)) q\<rparr>"
    have "link_entry H prev b0 = Inr ?b" unfolding Some by (rule link_entry_known [OF assms(4) q(1)]) (rule new)
    moreover have "block_ok (H @ [c]) (length H)" if "pprev c = pprev ?b" "pskip c = pskip ?b" "nHeight c = nHeight ?b" for c
      using that by (intro block_ok_linked [OF assms(4) q(1)]) simp_all
    moreover have "index_GetBlockHeader (H @ bs) ?b = block" for bs
      using q by (simp add: index_GetBlockHeader_def b0_def CBlockIndex_new_def nth_append)
    ultimately show ?thesis using Some new by (intro exI [of _ ?b]) simp
  qed
qed

lemma index_inv_snoc:
  assumes "index_inv S" "mapBlockIndex S hash = None" "entry_ok (blocks S) b" "phashBlock b = hash"
  defines "H \<equiv> blocks S" and "p \<equiv> length (blocks S)"
  shows "index_inv (S\<lparr>blocks := H @ [b], mapBlockIndex := (mapBlockIndex S)(hash := Some p),
    pindexBestHeader := (case pindexBestHeader S of None \<Rightarrow> Some p
      | Some q \<Rightarrow> if CompareTo (nChainWork ((H @ [b]) ! q)) (nChainWork b) < 0 then Some p else Some q),
    setDirtyBlockIndex := D\<rparr>)"
proof -
  have inv: "block_tree H" "\<And>h p. mapBlockIndex S h = Some p \<longleftrightarrow> p < length H \<and> phashBlock (H ! p) = h"
      "\<forall>p < length H. times_ok H p \<and> work_ok H p" "best_ok H (pindexBestHeader S)"
    using assms(1) by (simp_all add: index_inv_def H_def)
  have b: "block_ok (H @ [b]) (length H)" "times_ok (H @ [b]) (length H)" "work_ok (H @ [b]) (length H)"
    using assms(3) by (simp_all add: entry_ok_def H_def)
  have "block_tree (H @ [b])" by (rule tree_snoc [OF inv(1) b(1)])
  moreover have "((mapBlockIndex S)(hash := Some p)) h = Some i \<longleftrightarrow> i < length (H @ [b]) \<and> phashBlock ((H @ [b]) ! i) = h" for h i
    using inv(2) [of h i] inv(2) [of hash i] assms(2,4) by (auto simp: nth_append less_Suc_eq p_def H_def)
  moreover have "\<forall>i < length (H @ [b]). times_ok (H @ [b]) i \<and> work_ok (H @ [b]) i"
    using inv_append [OF inv(1)] inv(3) b by (auto simp: less_Suc_eq)
  moreover have "best_ok (H @ [b]) (case pindexBestHeader S of None \<Rightarrow> Some (length H)
      | Some q \<Rightarrow> if CompareTo (nChainWork ((H @ [b]) ! q)) (nChainWork b) < 0 then Some (length H) else Some q)"
    using inv(3) b(3) by (intro best_ok_snoc [OF inv(4)]) (simp_all add: work_ok_def)
  ultimately show ?thesis unfolding index_inv_def p_def H_def [symmetric] by simp
qed

lemma AddToBlockIndex_inv:
  assumes "index_inv S" "hash \<noteq> hashPrevBlock block"
  shows "\<exists>p S'. AddToBlockIndex hash block S = Inr (p, S') \<and> index_inv S' \<and> mapBlockIndex S' hash = Some p \<and>
    (\<exists>bs. blocks S' = blocks S @ bs) \<and>
    (mapBlockIndex S hash = None \<longrightarrow> mapBlockIndex S (hashPrevBlock block) \<noteq> None \<longrightarrow>
       index_GetBlockHeader (blocks S') (blocks S' ! p) = block)"
proof (cases "mapBlockIndex S hash")
  case (Some p)
  then show ?thesis using assms(1) by (simp add: AddToBlockIndex_def)
next
  case None
  let ?H = "blocks S" and ?prev = "mapBlockIndex S (hashPrevBlock block)"
  have inv: "block_tree ?H" "\<And>h p. mapBlockIndex S h = Some p \<longleftrightarrow> p < length ?H \<and> phashBlock (?H ! p) = h"
      "\<forall>p < length ?H. times_ok ?H p \<and> work_ok ?H p"
    using assms(1) by (simp_all add: index_inv_def)
  obtain b where b: "link_entry ?H ?prev ((CBlockIndex_new block)\<lparr>nSequenceId := 0, phashBlock := hash\<rparr>) = Inr b"
      "pprev b = ?prev" "phashBlock b = hash"
      "\<And>b'. pprev b' = pprev b \<Longrightarrow> pskip b' = pskip b \<Longrightarrow> nHeight b' = nHeight b \<Longrightarrow> block_ok (?H @ [b']) (length ?H)"
      "?prev \<noteq> None \<longrightarrow> (\<forall>bs. index_GetBlockHeader (?H @ bs) b = block)"
    using link_new_entry [of S block hash, OF inv(1,2)] by blast
  have "pprev b = None \<or> (\<exists>q < length ?H. pprev b = Some q)" using b(2) inv(2) by (cases ?prev) auto
  from finish_entry [OF inv(1) _ this b(4), of BLOCK_VALID_TREE] inv(3) obtain b' where
    b': "set_chain_work ?H (set_time_max ?H b) = Inr b'" "entry_ok ?H (fst (RaiseValidity BLOCK_VALID_TREE b'))"
      "phashBlock b' = phashBlock b" "\<And>H'. index_GetBlockHeader H' b' = index_GetBlockHeader H' b"
    by blast
  let ?r = "fst (RaiseValidity BLOCK_VALID_TREE b')"
  have hd: "index_GetBlockHeader H' ?r = index_GetBlockHeader H' b'" for H' by (simp add: index_GetBlockHeader_def)
  have "phashBlock ?r = hash" by (simp add: b'(3) b(3))
  note I = index_inv_snoc [OF assms(1) None b'(2) this]
  show ?thesis using None b(1,5) b'(1,4) assms(2) I hd by (simp add: AddToBlockIndex_def Let_def del: RaiseValidity_fields)
qed

section \<open>Reachable states\<close>

text \<open>
  Headers arrive in any order, their hashes arbitrary except that no header names itself as its parent.
\<close>

inductive index_reach :: "block_index \<Rightarrow> bool" where
  start: "index_reach empty_index"
| add: "index_reach S \<Longrightarrow> hash \<noteq> hashPrevBlock block \<Longrightarrow> AddToBlockIndex hash block S = Inr (p, S') \<Longrightarrow> index_reach S'"

lemma index_reach_index_inv: "index_reach S \<Longrightarrow> index_inv S"
proof (induction rule: index_reach.induct)
  case (add S hash block p S')
  then show ?case using AddToBlockIndex_inv [of S hash block] by auto
qed (rule index_inv_empty)

text \<open>
  C27.  The header tree stays sound: in every state that adding headers can reach, parent links lead down in height to a
  root, skip pointers point at the right ancestor, the map from hashes finds exactly the stored entries, \<open>nTimeMax\<close> is
  the running maximum of the times and \<open>nChainWork\<close> the running sum of the works modulo \<open>2 ^ 256\<close>, and
  \<open>pindexBestHeader\<close> has the greatest work; and adding one more header throws no exception and fails no assertion.
\<close>

theorem index_reach_sound:
  assumes "index_reach S"
  shows "index_inv S \<and> (\<forall>hash block. hash \<noteq> hashPrevBlock block \<longrightarrow> (\<exists>p S'. AddToBlockIndex hash block S = Inr (p, S')))"
  using index_reach_index_inv [OF assms] AddToBlockIndex_inv by blast

definition example_header :: CBlockHeader where
  "example_header = CBlockHeader_null\<lparr>hashPrevBlock := 7, h_nBits := 0x1e00ffff\<rparr>"

theorem index_reach_sound_witness:
  "index_inv empty_index \<and> (\<exists>p S'. AddToBlockIndex 9 example_header empty_index = Inr (p, S') \<and> index_reach S')"
proof -
  have h: "(9 :: uint256) \<noteq> hashPrevBlock example_header" by (simp add: example_header_def)
  note s = index_reach_sound [OF index_reach.start]
  from s h obtain p S' where "AddToBlockIndex 9 example_header empty_index = Inr (p, S')" by blast
  with s h index_reach.add [OF index_reach.start h] show ?thesis by blast
qed

text \<open>
  The work of a block is the expected number of hashes: \<open>GetBlockProof\<close> computes \<open>2 ^ 256 div (target + 1)\<close>
  exactly, although \<open>2 ^ 256\<close> does not fit the type, never divides by zero, and is zero exactly for targets that are
  negative, too large or zero.
\<close>

theorem GetBlockProof_exact:
  fixes b :: CBlockIndex
  defines "t \<equiv> limb_val (fst (SetCompact (b_nBits b)))"
  defines "bad \<equiv> fst (snd (SetCompact (b_nBits b))) \<or> snd (snd (SetCompact (b_nBits b))) \<or> t = 0"
  shows "\<exists>n. map_option limb_val (GetBlockProof b) = Some n \<and> n = (if bad then 0 else 2 ^ 256 div (t + 1)) \<and> (n = 0 \<longleftrightarrow> bad)"
proof -
  have "t < 2 ^ 256 - 1" unfolding t_def by (rule SetCompact_not_max)
  then have "0 < (2 :: nat) ^ 256 div (t + 1)" by (simp add: div_greater_zero_iff)
  moreover have "block_work b = (if bad then 0 else 2 ^ 256 div (t + 1))"
    by (simp add: block_work_def bad_def t_def split: prod.split)
  ultimately show ?thesis using GetBlockProof_val [of b] by auto
qed

end
