(* ===== verification/Pow.thy ===== *)
theory Pow
  imports Block_Index "HOL-Library.Signed_Division"
begin

unbundle bit_operations_syntax

text \<open>
  Difficulty: \<^verbatim>\<open>src/pow.cpp\<close> and the proof-of-work fields of \<^verbatim>\<open>src/consensus/params.h\<close>.  The \<open>int64_t\<close> quantities (times, spans,
  weights) are integers; where one meets a 256-bit number the conversion the overload resolution picks is written out:
  \<open>of_int\<close> to 32 bits for a factor on the right, to 64 bits for a divisor or a factor on the left.  Division of
  integers truncates (\<open>sdiv\<close>).  A failed assertion, a division by zero, a null pointer that is followed and a vector
  index out of range are errors.

  The loops that walk back carry the height of the block as fuel; it is enough on every tree.
\<close>

section \<open>Parameters\<close>

record ConsensusParams =
  powLimit :: uint256
  fPowAllowMinDifficultyBlocks :: bool
  fPowNoRetargeting :: bool
  nPowTargetSpacing :: int
  nPowTargetTimespan :: int
  powForkTime :: "32 word"
  diffRetargetFix :: int
  diffRetargetTake2 :: int
  lwmaAveragingWindow :: int
  powTypeLimits :: "uint256 list"
  nDGWActivationBlock :: int

definition DifficultyAdjustmentInterval :: "ConsensusParams \<Rightarrow> int" where
  "DifficultyAdjustmentInterval params = nPowTargetTimespan params sdiv nPowTargetSpacing params"

datatype pow_error = AssertFailed | DivideByZero | NullPointer | OutOfRange | NoFuel

definition get_compact :: "base_uint \<Rightarrow> pow_error + 32 word" where
  "get_compact a = (case GetCompact a False of None \<Rightarrow> Inl AssertFailed | Some c \<Rightarrow> Inr c)"

definition div64 :: "base_uint \<Rightarrow> int \<Rightarrow> pow_error + base_uint" where
  "div64 a d = (case uint_div a (base_uint_64 (of_int d)) of None \<Rightarrow> Inl DivideByZero | Some q \<Rightarrow> Inr q)"

definition prev_assert :: "block_store \<Rightarrow> nat \<Rightarrow> pow_error + nat" where
  "prev_assert H p = (case pprev (H ! p) of None \<Rightarrow> Inl AssertFailed | Some q \<Rightarrow> Inr q)"

definition ancestor :: "block_store \<Rightarrow> nat \<Rightarrow> int \<Rightarrow> pow_error + nat option" where
  "ancestor H p h = (case GetAncestor H p h of Inl _ \<Rightarrow> Inl AssertFailed | Inr q \<Rightarrow> Inr q)"

definition deref :: "nat option \<Rightarrow> pow_error + nat" where
  "deref q = (case q of None \<Rightarrow> Inl NullPointer | Some p \<Rightarrow> Inr p)"

definition index_target :: "block_store \<Rightarrow> nat \<Rightarrow> base_uint" where
  "index_target H p = fst (SetCompact (b_nBits (H ! p)))"

definition index_pow_type :: "block_store \<Rightarrow> nat \<Rightarrow> POW_TYPE" where
  "index_pow_type H p = GetPoWType (index_GetBlockHeader H (H ! p))"

definition header_time :: "CBlockHeader \<Rightarrow> int" where
  "header_time h = uint (h_nTime h)"

section \<open>Dark Gravity Wave\<close>

text \<open>The walk back to the last block that does not have the minimum difficulty.\<close>

fun last_real_bits :: "ConsensusParams \<Rightarrow> block_store \<Rightarrow> 32 word \<Rightarrow> nat \<Rightarrow> nat \<Rightarrow> pow_error + 32 word" where
  "last_real_bits params H limit 0 p = Inl NoFuel"
| "last_real_bits params H limit (Suc fuel) p =
     (case pprev (H ! p) of
        Some q \<Rightarrow>
          if int (nHeight (H ! p)) mod DifficultyAdjustmentInterval params \<noteq> 0 \<and> b_nBits (H ! p) = limit
          then last_real_bits params H limit fuel q
          else Inr (b_nBits (H ! p))
      | None \<Rightarrow> Inr (b_nBits (H ! p)))"

definition nPastBlocks :: nat where "nPastBlocks = 180"

text \<open>The averaging loop; \<open>left\<close> counts the iterations still to run, so \<open>nCountBlocks = nPastBlocks + 1 - left\<close>.\<close>

fun dgw_loop :: "block_store \<Rightarrow> nat \<Rightarrow> nat \<Rightarrow> base_uint \<Rightarrow> pow_error + base_uint \<times> nat" where
  "dgw_loop H 0 p avg = Inr (avg, p)"
| "dgw_loop H (Suc left) p avg =
     (let nCountBlocks = nPastBlocks - left; bnTarget = index_target H p in
      ebind (if nCountBlocks = 1 then Inr bnTarget
             else div64 (uint_add (uint_mul32 avg (of_nat nCountBlocks)) bnTarget) (int nCountBlocks + 1)) (\<lambda>avg.
      ebind (if nCountBlocks \<noteq> nPastBlocks then prev_assert H p else Inr p) (\<lambda>p.
        dgw_loop H left p avg)))"

text \<open>Limiting a time span to a range and scaling a target by it, as all three retargeting rules do.\<close>

definition clamp :: "int \<Rightarrow> int \<Rightarrow> int \<Rightarrow> int" where
  "clamp lo hi x = (let x = (if x < lo then lo else x) in if x > hi then hi else x)"

definition cap_target :: "base_uint \<Rightarrow> base_uint \<Rightarrow> base_uint" where
  "cap_target limit a = (if CompareTo a limit > 0 then limit else a)"

definition DarkGravityWave :: "block_store \<Rightarrow> nat \<Rightarrow> CBlockHeader \<Rightarrow> ConsensusParams \<Rightarrow> pow_error + 32 word" where
  "DarkGravityWave H pindexLast pblock params =
     (let bnPowLimit = UintToArith256 (powLimit params) in
      ebind (get_compact bnPowLimit) (\<lambda>nProofOfWorkLimit.
      if nHeight (H ! pindexLast) < nPastBlocks then get_compact bnPowLimit
      else if fPowAllowMinDifficultyBlocks params \<and> fPowNoRetargeting params then
        if header_time pblock > GetBlockTime (H ! pindexLast) + nPowTargetSpacing params * 2 then Inr nProofOfWorkLimit
        else last_real_bits params H nProofOfWorkLimit (Suc (nHeight (H ! pindexLast))) pindexLast
      else
        ebind (dgw_loop H nPastBlocks pindexLast base_uint_zero) (\<lambda>(bnPastTargetAvg, pindex).
        let nTargetTimespan = int nPastBlocks * nPowTargetSpacing params;
            nActualTimespan = clamp (nTargetTimespan sdiv 3) (nTargetTimespan * 3)
              (GetBlockTime (H ! pindexLast) - GetBlockTime (H ! pindex)) in
        ebind (div64 (uint_mul32 bnPastTargetAvg (of_int nActualTimespan)) nTargetTimespan) (\<lambda>bnNew.
          get_compact (cap_target bnPowLimit bnNew)))))"

section \<open>The original rule\<close>

definition CalculateNextWorkRequired :: "block_store \<Rightarrow> nat \<Rightarrow> int \<Rightarrow> ConsensusParams \<Rightarrow> pow_error + 32 word" where
  "CalculateNextWorkRequired H pindexLast nFirstBlockTime params =
     (if fPowNoRetargeting params then Inr (b_nBits (H ! pindexLast))
      else
        let nActualTimespan = clamp (nPowTargetTimespan params sdiv 4) (nPowTargetTimespan params * 4)
              (GetBlockTime (H ! pindexLast) - nFirstBlockTime) in
        ebind (div64 (uint_mul32 (index_target H pindexLast) (of_int nActualTimespan)) (nPowTargetTimespan params)) (\<lambda>bnNew.
          get_compact (cap_target (UintToArith256 (powLimit params)) bnNew)))"

definition GetNextWorkRequiredBTC :: "block_store \<Rightarrow> nat \<Rightarrow> CBlockHeader \<Rightarrow> ConsensusParams \<Rightarrow> pow_error + 32 word" where
  "GetNextWorkRequiredBTC H pindexLast pblock params =
     ebind (get_compact (UintToArith256 (powLimit params))) (\<lambda>nProofOfWorkLimit.
      if (int (nHeight (H ! pindexLast)) + 1) mod DifficultyAdjustmentInterval params \<noteq> 0 then
        if fPowAllowMinDifficultyBlocks params then
          if header_time pblock > GetBlockTime (H ! pindexLast) + nPowTargetSpacing params * 2 then Inr nProofOfWorkLimit
          else last_real_bits params H nProofOfWorkLimit (Suc (nHeight (H ! pindexLast))) pindexLast
        else Inr (b_nBits (H ! pindexLast))
      else
        let nHeightFirst = int (nHeight (H ! pindexLast)) - (DifficultyAdjustmentInterval params - 1) in
        if nHeightFirst < 0 then Inl AssertFailed
        else ebind (ancestor H pindexLast nHeightFirst) (\<lambda>q.
          case q of
            None \<Rightarrow> Inl AssertFailed
          | Some pindexFirst \<Rightarrow> CalculateNextWorkRequired H pindexLast (GetBlockTime (H ! pindexFirst)) params))"

definition IsDGWActive :: "ConsensusParams \<Rightarrow> int \<Rightarrow> bool" where
  "IsDGWActive params nBlockNumber \<longleftrightarrow> nBlockNumber \<ge> nDGWActivationBlock params"

definition GetNextWorkRequired :: "block_store \<Rightarrow> nat \<Rightarrow> CBlockHeader \<Rightarrow> ConsensusParams \<Rightarrow> pow_error + 32 word" where
  "GetNextWorkRequired H pindexLast pblock params =
     ebind (DarkGravityWave H pindexLast pblock params) (\<lambda>dgw.
     ebind (GetNextWorkRequiredBTC H pindexLast pblock params) (\<lambda>btc.
       Inr (if IsDGWActive params (int (nHeight (H ! pindexLast)) + 1) then dgw else btc)))"

text \<open>
  The window is empty, so the loop of \<open>IsTransitioningToX16rt\<close> does not run.  The field \<open>nX16rtTimestamp\<close> of the
  consensus parameters is an argument: no network sets it.
\<close>

definition IsTransitioningToX16rt :: "block_store \<Rightarrow> nat \<Rightarrow> CBlockHeader \<Rightarrow> 32 word \<Rightarrow> bool" where
  "IsTransitioningToX16rt H pindexLast pblock x16rtTimestamp =
     (if h_nTime pblock \<le> x16rtTimestamp then False
      else b_nTime (H ! pindexLast) \<le> x16rtTimestamp)"

section \<open>Linearly weighted moving averages\<close>

text \<open>
  First version.  \<open>lwma1_first\<close> looks for the oldest of the \<open>N\<close> latest blocks of the type; \<open>None\<close>: the fork point is
  reached before, and the limit is returned.
\<close>

fun lwma1_first :: "ConsensusParams \<Rightarrow> block_store \<Rightarrow> POW_TYPE \<Rightarrow> int \<Rightarrow> nat \<Rightarrow> nat \<Rightarrow> int \<Rightarrow> pow_error + nat option" where
  "lwma1_first params H powType N 0 p blocksFound = Inl NoFuel"
| "lwma1_first params H powType N (Suc fuel) p blocksFound =
     (if blocksFound < N then
        if b_nTime (H ! p) < powForkTime params then Inr None
        else if index_pow_type H p \<noteq> powType then
          ebind (prev_assert H p) (\<lambda>q. lwma1_first params H powType N fuel q blocksFound)
        else if blocksFound + 1 = N then Inr (Some p)
        else ebind (prev_assert H p) (\<lambda>q. lwma1_first params H powType N fuel q (blocksFound + 1))
      else Inr (Some p))"

record lwma_state =
  l_avg :: base_uint
  l_sum :: int
  l_j :: int
  l_prev :: int

definition add_target :: "base_uint \<Rightarrow> base_uint \<Rightarrow> int \<Rightarrow> int \<Rightarrow> pow_error + base_uint" where
  "add_target sm target N k = ebind (div64 target N) (\<lambda>a. ebind (div64 a k) (\<lambda>b. Inr (uint_add sm b)))"

fun lwma1_sum :: "block_store \<Rightarrow> POW_TYPE \<Rightarrow> int \<Rightarrow> int \<Rightarrow> int \<Rightarrow> nat \<Rightarrow> nat \<Rightarrow> int \<Rightarrow> lwma_state \<Rightarrow> pow_error + lwma_state" where
  "lwma1_sum H powType T N k 0 p blocksFound st = Inl NoFuel"
| "lwma1_sum H powType T N k (Suc fuel) p blocksFound st =
     (if blocksFound < N then
        if index_pow_type H p \<noteq> powType then
          ebind (prev_assert H p) (\<lambda>q. lwma1_sum H powType T N k fuel q blocksFound st)
        else
          let thisTimestamp = (if GetBlockTime (H ! p) > l_prev st then GetBlockTime (H ! p) else l_prev st + 1);
              solvetime = min (6 * T) (thisTimestamp - l_prev st);
              j = l_j st + 1 in
          ebind (add_target (l_avg st) (index_target H p) N k) (\<lambda>avg.
          ebind (prev_assert H p) (\<lambda>q.
            lwma1_sum H powType T N k fuel q (blocksFound + 1)
              \<lparr>l_avg = avg, l_sum = l_sum st + solvetime * j, l_j = j, l_prev = thisTimestamp\<rparr>))
      else Inr st)"

definition GetNextWorkRequiredLWMA1 ::
  "block_store \<Rightarrow> nat \<Rightarrow> CBlockHeader \<Rightarrow> ConsensusParams \<Rightarrow> POW_TYPE \<Rightarrow> pow_error + 32 word" where
  "GetNextWorkRequiredLWMA1 H pindexLast pblock params powType =
     (let limit = UintToArith256 (powLimit params); T = nPowTargetSpacing params * 2; N = 90;
          k = N * (N + 1) * T sdiv 2; height = int (nHeight (H ! pindexLast)); fuel = Suc (nHeight (H ! pindexLast)) in
      if fPowAllowMinDifficultyBlocks params \<and> header_time pblock > GetBlockTime (H ! pindexLast) + T * 10 then get_compact limit
      else if height < N then get_compact limit
      else ebind (lwma1_first params H powType N fuel pindexLast 0) (\<lambda>first.
        case first of
          None \<Rightarrow> get_compact limit
        | Some p \<Rightarrow>
            ebind (lwma1_sum H powType T N k (Suc fuel) pindexLast 0
              \<lparr>l_avg = base_uint_zero, l_sum = 0, l_j = 0, l_prev = GetBlockTime (H ! p)\<rparr>) (\<lambda>st.
            let nextTarget = uint_mul32 (l_avg st) (of_int (l_sum st)) in
            if CompareTo nextTarget limit > 0 then get_compact limit else get_compact nextTarget)))"

text \<open>
  Second version.  \<open>t\<close> is an \<open>int\<close>, so the weighted sum is stored modulo \<open>2 ^ 32\<close>.  A null \<open>block\<close> is followed before it
  is compared with null.
\<close>

definition wrap32 :: "int \<Rightarrow> int" where
  "wrap32 x = sint (of_int x :: 32 word)"

record lwma2_state =
  l2_last :: nat
  l2_sum :: base_uint
  l2_t :: int
  l2_j :: int
  l2_found :: int

definition lwma2_step :: "block_store \<Rightarrow> POW_TYPE \<Rightarrow> int \<Rightarrow> int \<Rightarrow> int \<Rightarrow> lwma2_state \<Rightarrow> pow_error + lwma2_state" where
  "lwma2_step H powType N k i st =
     (if index_pow_type H (l2_last st) \<noteq> powType then
        ebind (prev_assert H (l2_last st)) (\<lambda>q. Inr (st\<lparr>l2_last := q\<rparr>))
      else
        let st = st\<lparr>l2_found := l2_found st + 1\<rparr> in
        ebind (ancestor H (l2_last st) i) (\<lambda>block.
        ebind (deref block) (\<lambda>b.
        ebind (ancestor H b (i - 1)) (\<lambda>block_Prev.
        case block_Prev of
          None \<Rightarrow> ebind (prev_assert H (l2_last st)) (\<lambda>q. Inr (st\<lparr>l2_last := q\<rparr>))
        | Some bp \<Rightarrow>
            let solvetime = GetBlockTime (H ! b) - GetBlockTime (H ! bp); j = l2_j st + 1;
                t = wrap32 (l2_t st + solvetime * j) in
            ebind (div64 (index_target H b) (k * N * N)) (\<lambda>q.
              Inr (st\<lparr>l2_sum := uint_add (l2_sum st) q, l2_t := t, l2_j := j\<rparr>))))))"

fun lwma2_loop :: "block_store \<Rightarrow> POW_TYPE \<Rightarrow> int \<Rightarrow> int \<Rightarrow> int list \<Rightarrow> lwma2_state \<Rightarrow> pow_error + lwma2_state" where
  "lwma2_loop H powType N k [] st = Inr st"
| "lwma2_loop H powType N k (i # is) st = ebind (lwma2_step H powType N k i st) (lwma2_loop H powType N k is)"

definition GetNextWorkRequiredLWMA2 ::
  "block_store \<Rightarrow> nat \<Rightarrow> CBlockHeader \<Rightarrow> ConsensusParams \<Rightarrow> POW_TYPE \<Rightarrow> pow_error + 32 word" where
  "GetNextWorkRequiredLWMA2 H pindexLast pblock params powType =
     (let N = lwmaAveragingWindow params; k = 1277; limit = UintToArith256 (powLimit params);
          height = int (nHeight (H ! pindexLast)) + 1 in
      if \<not> height > N then Inl AssertFailed
      else if fPowAllowMinDifficultyBlocks params \<and>
          header_time pblock > GetBlockTime (H ! pindexLast) + nPowTargetSpacing params * 2 then get_compact limit
      else if fPowNoRetargeting params then Inr (b_nBits (H ! pindexLast))
      else ebind (lwma2_loop H powType N k [height - N..height - 1]
          \<lparr>l2_last = pindexLast, l2_sum = base_uint_zero, l2_t = 0, l2_j = 0, l2_found = 0\<rparr>) (\<lambda>st.
        let t = (if l2_t st < N * k sdiv 3 then wrap32 (N * k sdiv 3) else l2_t st);
            next_target = cap_target limit (uint_mul (base_uint_64 (of_int t)) (l2_sum st)) in
        if l2_found st = 0 then get_compact limit else get_compact next_target))"

text \<open>Third version.  \<open>same_algo\<close> collects the \<open>N + 1\<close> latest blocks of the type, newest first; \<open>None\<close>: too few.\<close>

function same_algo :: "block_store \<Rightarrow> nat \<Rightarrow> POW_TYPE \<Rightarrow> nat \<Rightarrow> nat \<Rightarrow> nat list \<Rightarrow> pow_error + nat list option" where
  "same_algo H pindexLast powType N c found =
     (if length found < N + 1 then
        ebind (ancestor H pindexLast (int c)) (\<lambda>block. ebind (deref block) (\<lambda>b.
        let found = (if index_pow_type H b = powType then found @ [b] else found) in
        if c < 100 then Inr None else same_algo H pindexLast powType N (c - 1) found))
      else Inr (Some found))"
  by pat_completeness auto
termination
  by (relation "measure (\<lambda>(H, p, t, N, c, f). c)") auto

declare same_algo.simps [simp del]

text \<open>The summing loop over the collected blocks, oldest pair first.\<close>

fun lwma3_sum :: "block_store \<Rightarrow> int \<Rightarrow> int \<Rightarrow> int \<Rightarrow> (nat \<times> nat) list \<Rightarrow> base_uint \<Rightarrow> int \<Rightarrow> int \<Rightarrow> pow_error + base_uint \<times> int" where
  "lwma3_sum H T N k [] sum_target t j = Inr (sum_target, t)"
| "lwma3_sum H T N k ((block, block_Prev) # bs) sum_target t j =
     (let solvetime = min (GetBlockTime (H ! block) - GetBlockTime (H ! block_Prev)) (6 * T);
          solvetime = (if solvetime < 1 then 1 else solvetime); j = j + 1 in
      ebind (add_target sum_target (index_target H block) N k) (\<lambda>sum_target.
        lwma3_sum H T N k bs sum_target (t + solvetime * j) j))"

definition pow_type_limit :: "ConsensusParams \<Rightarrow> POW_TYPE \<Rightarrow> pow_error + base_uint" where
  "pow_type_limit params powType =
     (let i = (case powType of POW_TYPE_X16RT \<Rightarrow> 0 | POW_TYPE_MINOTAURX \<Rightarrow> 1 | POW_TYPE_other n \<Rightarrow> n) in
      if i < length (powTypeLimits params) then Inr (UintToArith256 (powTypeLimits params ! i)) else Inl OutOfRange)"

definition GetNextWorkRequiredLWMA3 ::
  "block_store \<Rightarrow> nat \<Rightarrow> CBlockHeader \<Rightarrow> ConsensusParams \<Rightarrow> POW_TYPE \<Rightarrow> pow_error + 32 word" where
  "GetNextWorkRequiredLWMA3 H pindexLast pblock params powType =
     ebind (pow_type_limit params powType) (\<lambda>limit.
      let T = nPowTargetSpacing params * 2; N = 60; k = int N * (int N + 1) * T sdiv 2 in
      ebind (same_algo H pindexLast powType N (nHeight (H ! pindexLast)) []) (\<lambda>found.
        case found of
          None \<Rightarrow> get_compact limit
        | Some bs \<Rightarrow>
            ebind (lwma3_sum H T (int N) k (map (\<lambda>i. (bs ! (i - 1), bs ! i)) (rev [1..<Suc N])) base_uint_zero 0 0) (\<lambda>(sum_target, t).
              get_compact (cap_target limit (uint_mul (base_uint_64 (of_int t)) sum_target)))))"

definition GetNextWorkRequiredLWMA ::
  "block_store \<Rightarrow> nat \<Rightarrow> CBlockHeader \<Rightarrow> ConsensusParams \<Rightarrow> POW_TYPE \<Rightarrow> pow_error + 32 word" where
  "GetNextWorkRequiredLWMA H pindexLast pblock params powType =
     (if int (nHeight (H ! pindexLast)) < diffRetargetFix params then GetNextWorkRequiredLWMA1 H pindexLast pblock params powType
      else if int (nHeight (H ! pindexLast)) \<ge> diffRetargetFix params \<and> GetBlockTime (H ! pindexLast) < diffRetargetTake2 params
        then GetNextWorkRequiredLWMA2 H pindexLast pblock params powType
      else GetNextWorkRequiredLWMA3 H pindexLast pblock params powType)"

section \<open>Checking a proof of work\<close>

definition check_target :: "uint256 \<Rightarrow> 32 word \<Rightarrow> base_uint \<Rightarrow> bool" where
  "check_target hash nBits limit =
     (case SetCompact nBits of (bnTarget, fNegative, fOverflow) \<Rightarrow>
        if fNegative \<or> EqualTo bnTarget 0 \<or> fOverflow \<or> CompareTo bnTarget limit > 0 then False
        else if CompareTo (UintToArith256 hash) bnTarget > 0 then False
        else True)"

definition CheckProofOfWorkDualAlgo :: "uint256 \<Rightarrow> 32 word \<Rightarrow> ConsensusParams \<Rightarrow> POW_TYPE \<Rightarrow> pow_error + bool" where
  "CheckProofOfWorkDualAlgo hash nBits params powType =
     (case SetCompact nBits of (bnTarget, fNegative, fOverflow) \<Rightarrow>
        if fNegative \<or> EqualTo bnTarget 0 \<or> fOverflow then Inr False
        else ebind (pow_type_limit params powType) (\<lambda>limit. Inr (check_target hash nBits limit)))"

definition CheckProofOfWork_hash :: "uint256 \<Rightarrow> 32 word \<Rightarrow> ConsensusParams \<Rightarrow> bool" where
  "CheckProofOfWork_hash hash nBits params = check_target hash nBits (UintToArith256 (powLimit params))"

definition CheckProofOfWork ::
  "pow_env \<Rightarrow> bool \<Rightarrow> ConsensusParams \<Rightarrow> bool \<Rightarrow> CBlockHeader \<Rightarrow> CPowCache \<Rightarrow> (pow_error + bool) \<times> CPowCache" where
  "CheckProofOfWork P validate params cache h c =
     (case GetHash P validate cache h c of (hash, c) \<Rightarrow>
       (if header_time h > diffRetargetTake2 params
        then CheckProofOfWorkDualAlgo hash (h_nBits h) params (GetPoWType h)
        else Inr (CheckProofOfWork_hash hash (h_nBits h) params), c))"

section \<open>Every rule returns bits within the limit\<close>

text \<open>\<open>valid_bits L c\<close>: \<open>c\<close> encodes a target that is not negative, fits into 256 bits and is at most \<open>L\<close>.\<close>

definition valid_bits :: "nat \<Rightarrow> 32 word \<Rightarrow> bool" where
  "valid_bits L c = (case SetCompact c of (t, fNegative, fOverflow) \<Rightarrow> \<not> fNegative \<and> \<not> fOverflow \<and> limb_val t \<le> L)"

lemma index_target_valid: "is_uint256 (index_target H p)"
  by (simp add: index_target_def SetCompact_val)

lemma valid_bits_target: "valid_bits L (b_nBits (H ! p)) \<Longrightarrow> limb_val (index_target H p) \<le> L"
  by (auto simp: valid_bits_def index_target_def split: prod.splits)

lemma get_compact_returns:
  assumes "is_uint256 a" "limb_val a \<le> L"
  shows "returns (get_compact a) (\<lambda>c. GetCompact a False = Some c \<and> valid_bits L c)"
  using compact_decode [OF assms(1)] assms(2) by (auto simp: get_compact_def valid_bits_def)

lemma div64_returns:
  assumes "is_uint256 a" "0 < d" "d < 2 ^ 64"
  shows "returns (div64 a d) (\<lambda>q. is_uint256 q \<and> limb_val q = limb_val a div nat d)"
proof -
  have "unat (of_int d :: 64 word) = nat d" using assms(2,3) by (simp add: unsigned_of_int take_bit_int_eq_self)
  moreover from this assms(2) have "(of_int d :: 64 word) \<noteq> 0" by (metis nat_0_iff not_le unat_0)
  ultimately show ?thesis using au.quo64 [OF assms(1), of "of_int d"] by (auto simp: div64_def)
qed

lemma div64_valid: "is_uint256 a \<Longrightarrow> 0 < d \<Longrightarrow> d < 2 ^ 64 \<Longrightarrow> returns (div64 a d) is_uint256"
  by (rule returns_mono [OF div64_returns]) simp_all

lemma prev_assert_returns:
  assumes "block_tree H" "p < length H" "0 < nHeight (H ! p)"
  shows "returns (prev_assert H p) (\<lambda>q. pprev (H ! p) = Some q \<and> q < length H \<and> nHeight (H ! p) = Suc (nHeight (H ! q)))"
  using tree_prev [OF assms(1,2)] assms(3) by (cases "pprev (H ! p)") (auto simp: prev_assert_def)

lemma ancestor_returns:
  assumes "block_tree H" "p < length H" "0 \<le> h" "h \<le> int (nHeight (H ! p))"
  shows "returns (ancestor H p h) (\<lambda>q. \<exists>r < length H. q = Some r \<and> up H (nHeight (H ! p) - nat h) p = Some r \<and> nHeight (H ! r) = nat h)"
proof -
  obtain r where "r < length H" "up H (nHeight (H ! p) - nat h) p = Some r" "nHeight (H ! r) = nat h"
    using up_total [OF assms(1,2), of "nHeight (H ! p) - nat h"] assms(3,4) by auto
  then show ?thesis using GetAncestor_up [OF assms(1,2), of h] assms(3,4) by (auto simp: ancestor_def)
qed

lemma last_real_bits_returns:
  assumes "block_tree H" "\<forall>q < length H. valid_bits L (b_nBits (H ! q))"
  shows "p < length H \<Longrightarrow> nHeight (H ! p) < fuel \<Longrightarrow> returns (last_real_bits params H limit fuel p) (valid_bits L)"
proof (induction fuel arbitrary: p)
  case (Suc fuel)
  then show ?case using assms(2) tree_prev(2) [OF assms(1) Suc.prems(1)] by (auto split: option.splits)
qed simp

lemma dgw_loop_returns:
  assumes "block_tree H"
  shows "p < length H \<Longrightarrow> left \<le> Suc (nHeight (H ! p)) \<Longrightarrow> left \<le> nPastBlocks \<Longrightarrow> is_uint256 avg \<Longrightarrow>
    returns (dgw_loop H left p avg) (\<lambda>(a, q). is_uint256 a \<and> q < length H)"
proof (induction left arbitrary: p avg)
  case (Suc left)
  let ?n = "nPastBlocks - left"
  have v: "is_uint256 (uint_add (uint_mul32 avg (of_nat ?n)) (index_target H p))"
    using Suc.prems(4) index_target_valid [of H p] by simp
  have avg: "returns (if ?n = 1 then Inr (index_target H p)
      else div64 (uint_add (uint_mul32 avg (of_nat ?n)) (index_target H p)) (int ?n + 1)) is_uint256"
    using index_target_valid [of H p] div64_valid [OF v, of "int ?n + 1"] by (simp add: nPastBlocks_def)
  have prev: "returns (if ?n \<noteq> nPastBlocks then prev_assert H p else Inr p) (\<lambda>q. q < length H \<and> left \<le> Suc (nHeight (H ! q)))"
    using prev_assert_returns [OF assms Suc.prems(1)] Suc.prems(1-3) by (cases left) (auto elim: returns_mono)
  show ?case unfolding dgw_loop.simps Let_def
    by (rule returns_bind [OF avg], rule returns_bind [OF prev], rule Suc.IH) (use Suc.prems in auto)
qed simp

lemma cap_target_valid:
  assumes "is_uint256 a" "is_uint256 l"
  shows "is_uint256 (cap_target l a)" "limb_val (cap_target l a) = min (limb_val a) (limb_val l)"
  unfolding cap_target_def using au.clamp [OF assms] by simp_all

lemma capped_returns: "is_uint256 a \<Longrightarrow> is_uint256 l \<Longrightarrow> returns (get_compact (cap_target l a)) (valid_bits (limb_val l))"
  using cap_target_valid [of a l] get_compact_returns [of "cap_target l a" "limb_val l"] by (auto elim: returns_mono)

lemma limit_returns: "returns (get_compact (UintToArith256 u)) (valid_bits (unat u))"
  using get_compact_returns [of "UintToArith256 u" "unat u"] by (auto simp: UintToArith256_val elim: returns_mono)

lemma scaled_returns:
  assumes "is_uint256 a" "0 < d" "d < 2 ^ 64"
  shows "returns (ebind (div64 (uint_mul32 a n) d) (\<lambda>b. get_compact (cap_target (UintToArith256 u) b))) (valid_bits (unat u))"
proof (rule returns_bind [OF div64_returns])
  show "returns (get_compact (cap_target (UintToArith256 u) b)) (valid_bits (unat u))" if "is_uint256 b \<and> limb_val b = limb_val (uint_mul32 a n) div nat d" for b
    using capped_returns [of b "UintToArith256 u"] that by (simp add: UintToArith256_val)
qed (use assms in auto)

lemma DarkGravityWave_returns:
  assumes "block_tree H" "p < length H" "\<forall>q < length H. valid_bits (unat (powLimit params)) (b_nBits (H ! q))"
    and "0 < nPowTargetSpacing params" "int nPastBlocks * nPowTargetSpacing params < 2 ^ 64"
  shows "returns (DarkGravityWave H p pblock params) (valid_bits (unat (powLimit params)))"
proof -
  have zero: "is_uint256 base_uint_zero" by (simp add: base_uint_zero_def)
  have walk: "returns (last_real_bits params H limit (Suc (nHeight (H ! p))) p) (valid_bits (unat (powLimit params)))" for limit
    by (rule last_real_bits_returns [OF assms(1,3,2)]) simp
  have avg: "returns (ebind (dgw_loop H nPastBlocks p base_uint_zero) (\<lambda>(a, q). ebind (div64 (uint_mul32 a (n q)) (int nPastBlocks * nPowTargetSpacing params))
      (\<lambda>b. get_compact (cap_target (UintToArith256 (powLimit params)) b)))) (valid_bits (unat (powLimit params)))"
    if "nPastBlocks \<le> nHeight (H ! p)" for n
    using assms(4,5) that
    by (intro returns_bind [OF dgw_loop_returns [OF assms(1,2) _ _ zero]]) (auto intro!: scaled_returns simp: nPastBlocks_def)
  show ?thesis unfolding DarkGravityWave_def Let_def
    using limit_returns [of "powLimit params"] walk avg
    by (intro returns_bind [OF limit_returns]) (auto simp: not_less)
qed

lemma CalculateNextWorkRequired_returns:
  assumes "p < length H" "valid_bits (unat (powLimit params)) (b_nBits (H ! p))"
    and "0 < nPowTargetTimespan params" "nPowTargetTimespan params < 2 ^ 64"
  shows "returns (CalculateNextWorkRequired H p t params) (valid_bits (unat (powLimit params)))"
  using assms scaled_returns [OF index_target_valid, of "nPowTargetTimespan params"] by (simp add: CalculateNextWorkRequired_def Let_def)

lemma interval_pos:
  assumes "0 < nPowTargetSpacing params" "nPowTargetSpacing params \<le> nPowTargetTimespan params"
  shows "0 < DifficultyAdjustmentInterval params"
  using assms by (simp add: DifficultyAdjustmentInterval_def signed_divide_int_def sgn_if pos_imp_zdiv_pos_iff)

lemma GetNextWorkRequiredBTC_returns:
  assumes "block_tree H" "p < length H" "\<forall>q < length H. valid_bits (unat (powLimit params)) (b_nBits (H ! q))"
    and "0 < nPowTargetSpacing params" "nPowTargetSpacing params \<le> nPowTargetTimespan params" "nPowTargetTimespan params < 2 ^ 64"
  shows "returns (GetNextWorkRequiredBTC H p pblock params) (valid_bits (unat (powLimit params)))"
proof -
  let ?I = "DifficultyAdjustmentInterval params" and ?h = "int (nHeight (H ! p))"
  have I: "0 < ?I" by (rule interval_pos) (rule assms)+
  have walk: "returns (last_real_bits params H limit (Suc (nHeight (H ! p))) p) (valid_bits (unat (powLimit params)))" for limit
    by (rule last_real_bits_returns [OF assms(1,3,2)]) simp
  have first: "?I \<le> ?h + 1" if "(?h + 1) mod ?I = 0"
    using zdvd_imp_le [of ?I "?h + 1"] that by (simp add: mod_eq_0_iff_dvd)
  have calc: "returns (CalculateNextWorkRequired H p t params) (valid_bits (unat (powLimit params)))" for t
    using assms by (intro CalculateNextWorkRequired_returns) auto
  have anc: "returns (ancestor H p (?h - (?I - 1))) (\<lambda>q. \<exists>r. q = Some r)" if "(?h + 1) mod ?I = 0"
    using first [OF that] I by (intro returns_mono [OF ancestor_returns [OF assms(1,2)]]) auto
  show ?thesis unfolding GetNextWorkRequiredBTC_def Let_def
    using first walk assms(2,3) I
    by (intro returns_bind [OF limit_returns]) (auto intro!: returns_bind [OF anc] calc)
qed

text \<open>
  C28.  On every tree of headers whose targets are within the limit, the difficulty rule before the dual-algorithm
  fork (Dark Gravity Wave or the original rule) returns, without a failed assertion or a division by zero, and the bits
  it returns encode a target within the limit: a block that follows the rule keeps the tree within the limit.
\<close>

theorem GetNextWorkRequired_total:
  assumes "block_tree H" "p < length H" "\<forall>q < length H. valid_bits (unat (powLimit params)) (b_nBits (H ! q))"
    and "0 < nPowTargetSpacing params" "nPowTargetSpacing params \<le> nPowTargetTimespan params" "nPowTargetTimespan params < 2 ^ 64"
    and "180 * nPowTargetSpacing params < 2 ^ 64"
  shows "\<exists>c. GetNextWorkRequired H p pblock params = Inr c \<and> valid_bits (unat (powLimit params)) c"
proof -
  have "int nPastBlocks * nPowTargetSpacing params < 2 ^ 64" using assms(7) by (simp add: nPastBlocks_def)
  then have "returns (GetNextWorkRequired H p pblock params) (valid_bits (unat (powLimit params)))"
    unfolding GetNextWorkRequired_def using assms
    by (intro returns_bind [OF DarkGravityWave_returns] returns_bind [OF GetNextWorkRequiredBTC_returns]) auto
  then show ?thesis by (simp add: returns_def)
qed

section \<open>The current rule computes a weighted average\<close>

text \<open>\<open>past H p lo c\<close>: the ancestors of \<open>p\<close> at the heights from \<open>c\<close> down to \<open>lo\<close>.\<close>

definition past :: "block_store \<Rightarrow> nat \<Rightarrow> nat \<Rightarrow> nat \<Rightarrow> nat list" where
  "past H p lo c = map (\<lambda>i. the (up H (nHeight (H ! p) - i) p)) (rev [lo..<Suc c])"

lemma past_step: "lo \<le> c \<Longrightarrow> past H p lo c = the (up H (nHeight (H ! p) - c) p) # (if lo = c then [] else past H p lo (c - 1))"
  by (cases c) (auto simp: past_def)

lemma same_algo_past:
  assumes "block_tree H" "p < length H"
  shows "c \<le> nHeight (H ! p) \<Longrightarrow> length found \<le> Suc N \<Longrightarrow>
    same_algo H p powType N c found =
      Inr (let bs = found @ (if c < 100 then [] else filter (\<lambda>b. index_pow_type H b = powType) (past H p 100 c)) in
           if N < length bs then Some (take (Suc N) bs) else None)"
proof (induction c arbitrary: found rule: less_induct)
  case (less c)
  obtain b where b: "ancestor H p (int c) = Inr (Some b)" "up H (nHeight (H ! p) - c) p = Some b"
    using ancestor_returns [OF assms, of "int c"] less.prems(1) by (auto simp: returns_def)
  consider "N < length found" | "length found \<le> N" "c < 100" | "length found \<le> N" "100 \<le> c" by linarith
  then show ?case
  proof cases
    case 3
    let ?f = "if index_pow_type H b = powType then found @ [b] else found"
    let ?R = "if c - 1 < 100 then [] else filter (\<lambda>b. index_pow_type H b = powType) (past H p 100 (c - 1))"
    have "same_algo H p powType N c found = same_algo H p powType N (c - 1) ?f"
      using 3 b(1) by (subst same_algo.simps) (simp add: deref_def Let_def)
    also have "\<dots> = Inr (let bs = ?f @ ?R in if N < length bs then Some (take (Suc N) bs) else None)"
      using 3 less.prems by (intro less.IH) auto
    also have "?f @ ?R = found @ filter (\<lambda>b. index_pow_type H b = powType) (past H p 100 c)"
      using past_step [of 100 c H p] 3 b(2) by auto
    finally show ?thesis using 3 by simp
  qed (use b less.prems in \<open>auto simp: same_algo.simps [of _ _ _ _ c] deref_def Let_def\<close>)
qed

text \<open>The bounds of the loop, as sums over the window \<open>bs\<close> of \<open>N + 1\<close> blocks, newest first.\<close>

definition lwma_time :: "block_store \<Rightarrow> int \<Rightarrow> (nat \<times> nat) list \<Rightarrow> int \<Rightarrow> int" where
  "lwma_time H T ps j =
     (\<Sum>i < length ps. (j + int i + 1) * clamp 1 (6 * T) (GetBlockTime (H ! fst (ps ! i)) - GetBlockTime (H ! snd (ps ! i))))"

definition lwma_targets :: "block_store \<Rightarrow> nat \<Rightarrow> nat \<Rightarrow> (nat \<times> nat) list \<Rightarrow> nat" where
  "lwma_targets H N k ps = (\<Sum>(b, b') \<leftarrow> ps. limb_val (index_target H b) div N div k)"

lemma lwma_time_Cons:
  "lwma_time H T ((b, b') # ps) j = (j + 1) * clamp 1 (6 * T) (GetBlockTime (H ! b) - GetBlockTime (H ! b')) + lwma_time H T ps (j + 1)"
  unfolding lwma_time_def length_Cons sum.lessThan_Suc_shift by (simp add: add.commute add.left_commute)

lemma lwma_targets_Cons: "lwma_targets H N k ((b, b') # ps) = limb_val (index_target H b) div N div k + lwma_targets H N k ps"
  by (simp add: lwma_targets_def)

lemma add_target_returns:
  assumes "is_uint256 s" "0 < N" "0 < k" "int N < 2 ^ 64" "int k < 2 ^ 64" "limb_val s + limb_val (index_target H b) div N div k < 2 ^ 256"
  shows "returns (add_target s (index_target H b) (int N) (int k))
    (\<lambda>r. is_uint256 r \<and> limb_val r = limb_val s + limb_val (index_target H b) div N div k)"
  unfolding add_target_def
proof (rule returns_bind [OF div64_returns [OF index_target_valid]])
  fix a assume a: "is_uint256 a \<and> limb_val a = limb_val (index_target H b) div nat (int N)"
  show "returns (ebind (div64 a (int k)) (\<lambda>b. Inr (uint_add s b))) (\<lambda>r. is_uint256 r \<and> limb_val r = limb_val s + limb_val (index_target H b) div N div k)"
  proof (rule returns_bind [OF div64_returns])
    fix c assume "is_uint256 c \<and> limb_val c = limb_val a div nat (int k)"
    with au.add [OF assms(1), of c] assms(6) a
    show "returns (Inr (uint_add s c)) (\<lambda>r. is_uint256 r \<and> limb_val r = limb_val s + limb_val (index_target H b) div N div k)" by simp
  qed (use a assms in auto)
qed (use assms in auto)

lemma lwma3_sum_returns:
  assumes "0 < N" "0 < k" "int N < 2 ^ 64" "int k < 2 ^ 64" "1 \<le> 6 * T"
  shows "is_uint256 s \<Longrightarrow> limb_val s + lwma_targets H N k ps < 2 ^ 256 \<Longrightarrow>
    returns (lwma3_sum H T (int N) (int k) ps s t j)
      (\<lambda>(s', t'). is_uint256 s' \<and> limb_val s' = limb_val s + lwma_targets H N k ps \<and> t' = t + lwma_time H T ps j)"
proof (induction ps arbitrary: s t j)
  case (Cons pb ps)
  obtain b b' where pb: "pb = (b, b')" by (cases pb)
  have le: "limb_val s + limb_val (index_target H b) div N div k < 2 ^ 256" using Cons.prems(2) by (simp add: pb lwma_targets_Cons)
  have st: "(let x = min d (6 * T) in if x < 1 then 1 else x) = clamp 1 (6 * T) d" for d
    using assms(5) by (auto simp: clamp_def Let_def min_def)
  note st = st [unfolded Let_def]
  show ?case unfolding pb lwma3_sum.simps Let_def st
  proof (rule returns_bind [OF add_target_returns [OF Cons.prems(1) assms(1-4) le]])
    fix r assume r: "is_uint256 r \<and> limb_val r = limb_val s + limb_val (index_target H b) div N div k"
    then have "limb_val r + lwma_targets H N k ps < 2 ^ 256" using Cons.prems(2) by (simp add: pb lwma_targets_Cons)
    note IH = Cons.IH [OF conjunct1 [OF r] this]
    show "returns (lwma3_sum H T (int N) (int k) ps r (t + clamp 1 (6 * T) (GetBlockTime (H ! b) - GetBlockTime (H ! b')) * (j + 1)) (j + 1))
     (\<lambda>(s', t'). is_uint256 s' \<and> limb_val s' = limb_val s + lwma_targets H N k ((b, b') # ps) \<and> t' = t + lwma_time H T ((b, b') # ps) j)"
      by (rule returns_mono [OF IH]) (use r in \<open>auto simp: lwma_targets_Cons lwma_time_Cons mult.commute\<close>)
  qed
qed (simp add: lwma_targets_def lwma_time_def)

lemma past_in_store:
  assumes "block_tree H" "p < length H" "b \<in> set (past H p lo (nHeight (H ! p)))"
  shows "b < length H"
proof -
  obtain i where "i \<in> set [lo..<Suc (nHeight (H ! p))]" "b = the (up H (nHeight (H ! p) - i) p)"
    using assms(3) unfolding past_def set_map set_rev by blast
  with up_total [OF assms(1,2), of "nHeight (H ! p) - i"] show ?thesis by auto
qed

lemma clamp_bounds: "lo \<le> hi \<Longrightarrow> lo \<le> clamp lo hi x \<and> clamp lo hi x \<le> hi"
  by (auto simp: clamp_def Let_def)

lemma weights_sum: "(\<Sum>i < n. int i + 1) * 2 = int n * (int n + 1)"
  by (induction n) (auto simp: algebra_simps)

lemma lwma_time_bounds:
  assumes "1 \<le> 6 * T"
  shows "0 \<le> lwma_time H T ps 0" "2 * lwma_time H T ps 0 \<le> 6 * T * (int (length ps) * (int (length ps) + 1))"
proof -
  let ?c = "\<lambda>i. clamp 1 (6 * T) (GetBlockTime (H ! fst (ps ! i)) - GetBlockTime (H ! snd (ps ! i)))"
  have c: "1 \<le> ?c i" "?c i \<le> 6 * T" for i using clamp_bounds [OF assms] by auto
  have t: "lwma_time H T ps 0 = (\<Sum>i < length ps. (int i + 1) * ?c i)" by (simp add: lwma_time_def)
  show "0 \<le> lwma_time H T ps 0" unfolding t
  proof (rule sum_nonneg)
    show "0 \<le> (int i + 1) * ?c i" for i using c(1) [of i] by (intro mult_nonneg_nonneg) linarith+
  qed
  have "(\<Sum>i < length ps. (int i + 1) * ?c i) \<le> (\<Sum>i < length ps. (int i + 1) * (6 * T))"
    by (intro sum_mono mult_left_mono c(2)) simp
  also have "\<dots> = (\<Sum>i < length ps. int i + 1) * (6 * T)" by (rule sum_distrib_right [symmetric])
  finally have "lwma_time H T ps 0 \<le> (\<Sum>i < length ps. int i + 1) * (6 * T)" unfolding t .
  then show "2 * lwma_time H T ps 0 \<le> 6 * T * (int (length ps) * (int (length ps) + 1))"
    using mult_left_mono [of "lwma_time H T ps 0" "(\<Sum>i < length ps. int i + 1) * (6 * T)" 2]
    unfolding weights_sum [symmetric] by (simp only: ac_simps)
qed

lemma lwma_targets_le:
  assumes "\<And>b b'. (b, b') \<in> set ps \<Longrightarrow> limb_val (index_target H b) \<le> L"
  shows "lwma_targets H N k ps \<le> length ps * (L div N div k)"
  using assms
proof (induction ps)
  case (Cons pb ps)
  obtain b b' where pb: "pb = (b, b')" by (cases pb)
  have "limb_val (index_target H b) div N div k \<le> L div N div k" using Cons.prems pb by (intro div_le_mono) auto
  then show ?case using Cons.IH Cons.prems by (force simp: pb lwma_targets_Cons)
qed (simp add: lwma_targets_def)

lemma weighted_fits:
  assumes "length ps = 60" "1 \<le> T" "\<And>b b'. (b, b') \<in> set ps \<Longrightarrow> limb_val (index_target H b) \<le> L"
  shows "nat (lwma_time H T ps 0) * lwma_targets H 60 (nat (1830 * T)) ps \<le> 6 * L" "lwma_targets H 60 (nat (1830 * T)) ps \<le> L"
proof -
  let ?k = "nat (1830 * T)" let ?q = "L div 60 div ?k"
  have q: "lwma_targets H 60 ?k ps \<le> 60 * ?q" using lwma_targets_le [of ps H L 60 ?k, OF assms(3)] assms(1) by simp
  have L: "60 * (?k * ?q) \<le> L"
  proof -
    have "?k * ?q \<le> L div 60" "60 * (L div 60) \<le> L" by (rule times_div_less_eq_dividend)+
    then show ?thesis by linarith
  qed
  have t: "nat (lwma_time H T ps 0) \<le> 6 * ?k" using lwma_time_bounds [of T H ps] assms(1,2) by simp
  have "nat (lwma_time H T ps 0) * lwma_targets H 60 ?k ps \<le> (6 * ?k) * (60 * ?q)" by (rule mult_le_mono) (rule t q)+
  also have "\<dots> = 6 * (60 * (?k * ?q))" by simp
  also have "\<dots> \<le> 6 * L" using L by (intro mult_le_mono2)
  finally show "nat (lwma_time H T ps 0) * lwma_targets H 60 ?k ps \<le> 6 * L" .
  have "?q \<le> ?k * ?q" using assms(2) by (cases ?k) auto
  then show "lwma_targets H 60 ?k ps \<le> L" using q L by linarith
qed

lemma weighted_target_returns:
  assumes "length ps = 60" "1 \<le> T" "T < 2 ^ 40" "is_uint256 limit" "6 * limb_val limit < 2 ^ 256"
    and mem: "\<And>b b'. (b, b') \<in> set ps \<Longrightarrow> limb_val (index_target H b) \<le> limb_val limit"
  shows "returns (ebind (lwma3_sum H T (int 60) (int (nat (1830 * T))) ps base_uint_zero 0 0)
      (\<lambda>(sum_target, t). get_compact (cap_target limit (uint_mul (base_uint_64 (of_int t)) sum_target))))
    (\<lambda>c. \<exists>a. GetCompact a False = Some c \<and> is_uint256 a \<and> valid_bits (limb_val limit) c \<and>
      limb_val a = min (nat (lwma_time H T ps 0) * lwma_targets H 60 (nat (1830 * T)) ps) (limb_val limit))"
proof -
  let ?L = "limb_val limit" and ?S = "lwma_targets H 60 (nat (1830 * T)) ps" and ?t = "lwma_time H T ps 0"
  have fits: "nat ?t * ?S \<le> 6 * ?L" "?S \<le> ?L" by (rule weighted_fits [OF assms(1,2) mem], assumption)+
  then have "limb_val base_uint_zero + ?S < 2 ^ 256" using assms(5) by (simp add: base_uint_zero_def)
  from lwma3_sum_returns [of 60 "nat (1830 * T)" T base_uint_zero H ps 0 0, OF _ _ _ _ _ _ this] assms(2,3)
  obtain s where s: "lwma3_sum H T (int 60) (int (nat (1830 * T))) ps base_uint_zero 0 0 = Inr (s, ?t)" "is_uint256 s" "limb_val s = ?S"
    by (auto simp: returns_def base_uint_zero_def)
  have "unat (of_int ?t :: 64 word) = nat ?t"
    using lwma_time_bounds [of T H ps] assms(1-3) by (simp add: unsigned_of_int take_bit_int_eq_self)
  then have m: "is_uint256 (uint_mul (base_uint_64 (of_int ?t)) s)" "limb_val (uint_mul (base_uint_64 (of_int ?t)) s) = nat ?t * ?S"
    using au.mul [OF base_uint_64_val(2) s(2), of "of_int ?t"] fits(1) assms(5) s(3) by (simp_all add: base_uint_64_val)
  note cap = cap_target_valid [OF m(1) assms(4)]
  show ?thesis unfolding s(1) ebind_Inr prod.case
    by (rule returns_mono [OF get_compact_returns [OF cap(1), of ?L]]) (use cap m in auto)
qed


section \<open>The second version follows a null pointer\<close>

lemma lwma2_step_stay:
  assumes "block_tree H" "q < length H" "index_pow_type H q = powType" "l2_last st = q" "0 < i" "i \<le> int (nHeight (H ! q))" "0 < k * N * N" "k * N * N < 2 ^ 64"
  shows "returns (lwma2_step H powType N k i st) (\<lambda>st'. l2_last st' = q)"
proof -
  obtain b where b: "ancestor H q i = Inr (Some b)" "b < length H" "nHeight (H ! b) = nat i"
    using ancestor_returns [OF assms(1,2), of i] assms(5,6) by (auto simp: returns_def)
  then obtain b' where b': "ancestor H b (i - 1) = Inr (Some b')"
    using ancestor_returns [OF assms(1), of b "i - 1"] assms(5) by (auto simp: returns_def)
  show ?thesis unfolding lwma2_step_def Let_def using assms(3,4) b(1) b'
    by (auto simp: deref_def intro!: returns_bind [OF div64_valid [OF index_target_valid assms(7,8)]])
qed

lemma lwma2_loop_null:
  assumes "block_tree H" "q < length H" "index_pow_type H q = powType" "0 < k * N * N" "k * N * N < 2 ^ 64"
  shows "l2_last st = q \<Longrightarrow> 0 < i \<Longrightarrow> i \<le> int (nHeight (H ! q)) + 1 \<Longrightarrow>
    lwma2_loop H powType N k [i..int (nHeight (H ! q)) + 1] st = Inl NullPointer"
proof (induction "nat (int (nHeight (H ! q)) + 1 - i)" arbitrary: i st)
  case 0
  then have i: "i = int (nHeight (H ! q)) + 1" by simp
  have "ancestor H q i = Inr None" unfolding i ancestor_def by (simp add: GetAncestor_up [OF assms(1,2)])
  then show ?case using 0 assms(3) unfolding i by (simp add: lwma2_step_def deref_def Let_def)
next
  case (Suc n)
  then have le: "i \<le> int (nHeight (H ! q))" by linarith
  obtain st' where st': "lwma2_step H powType N k i st = Inr st'" "l2_last st' = q"
    using lwma2_step_stay [OF assms(1-3) Suc.prems(1,2) le assms(4,5)] by (auto simp: returns_def)
  have "lwma2_loop H powType N k [i + 1..int (nHeight (H ! q)) + 1] st' = Inl NullPointer"
    using Suc le st'(2) by (intro Suc.hyps) auto
  then show ?case using st'(1) le by (simp add: upto_rec1)
qed

text \<open>
  C30.  The second version of the dual-algorithm rule, in force between \<open>diffRetargetFix\<close> and \<open>diffRetargetTake2\<close>, follows a null pointer
  whenever the tip was mined with the other algorithm and its parent with the one asked for, whatever the rest of the
  tree: the first round steps back to the parent, and the last one asks the parent for the ancestor at the height of
  the tip and follows the result before it compares it with null.
\<close>

theorem GetNextWorkRequiredLWMA2_null:
  assumes "block_tree H" "p < length H" "pprev (H ! p) = Some q"
    and "index_pow_type H p \<noteq> powType" "index_pow_type H q = powType"
    and "2 \<le> lwmaAveragingWindow params" "lwmaAveragingWindow params \<le> int (nHeight (H ! p))" "lwmaAveragingWindow params < 2 ^ 24"
    and "\<not> fPowNoRetargeting params" "\<not> fPowAllowMinDifficultyBlocks params"
  shows "GetNextWorkRequiredLWMA2 H p pblock params powType = Inl NullPointer"
proof -
  let ?N = "lwmaAveragingWindow params" and ?h = "int (nHeight (H ! p))"
  let ?st = "\<lparr>l2_last = q, l2_sum = base_uint_zero, l2_t = 0, l2_j = 0, l2_found = 0\<rparr>"
  have q: "q < length H" "?h = int (nHeight (H ! q)) + 1" using tree_prev(2) [OF assms(1,2,3)] by auto
  have "?N * ?N \<le> 2 ^ 24 * 2 ^ 24" using assms(6,8) by (intro mult_mono) auto
  then have k: "0 < 1277 * ?N * ?N" "1277 * ?N * ?N < 2 ^ 64" using assms(6) by simp_all
  have "[?h + 1 - ?N..?h + 1 - 1] = (?h + 1 - ?N) # [?h + 2 - ?N..?h]" using assms(6) by (subst upto_rec1) (auto simp: algebra_simps)
  moreover have "lwma2_loop H powType ?N 1277 [?h + 2 - ?N..?h] ?st = Inl NullPointer"
    unfolding q(2) by (rule lwma2_loop_null [OF assms(1) q(1) assms(5) k]) (use assms(6,7) q(2) in auto)
  ultimately have "lwma2_loop H powType ?N 1277 [?h + 1 - ?N..?h + 1 - 1]
      \<lparr>l2_last = p, l2_sum = base_uint_zero, l2_t = 0, l2_j = 0, l2_found = 0\<rparr> = Inl NullPointer"
    using assms(3,4) by (simp add: lwma2_step_def prev_assert_def)
  then show ?thesis using assms(6,7,9,10) by (simp add: GetNextWorkRequiredLWMA2_def Let_def)
qed

section \<open>A proof of work\<close>

lemma check_target_iff:
  assumes "is_uint256 limit"
  shows "check_target hash nBits limit \<longleftrightarrow>
    valid_bits (limb_val limit) nBits \<and> 0 < limb_val (fst (SetCompact nBits)) \<and> unat hash \<le> limb_val (fst (SetCompact nBits))"
proof -
  obtain t neg ovf where s: "SetCompact nBits = (t, neg, ovf)" by (cases "SetCompact nBits")
  then have t: "is_uint256 t" using SetCompact_val(2) [of nBits] by simp
  have "EqualTo t 0 \<longleftrightarrow> limb_val t = 0" using EqualTo_val [of t 0] t by (simp add: WIDTH_def)
  then show ?thesis using au.cmp [OF t assms] au.cmp [OF UintToArith256_val(2) t, of hash]
    by (auto simp: check_target_def valid_bits_def s UintToArith256_val)
qed


section \<open>The main network, and an example chain\<close>

definition main_params :: ConsensusParams where
  "main_params =
     \<lparr>powLimit = 0x00000fffffffffffffffffffffffffffffffffffffffffffffffffffffffffff, fPowAllowMinDifficultyBlocks = False,
      fPowNoRetargeting = False, nPowTargetSpacing = 1 * 30, nPowTargetTimespan = 2016 * 30,
      powForkTime = 1638847407, diffRetargetFix = 275109, diffRetargetTake2 = 1639269000,
      lwmaAveragingWindow = 45,
      powTypeLimits = [0x00000fffffffffffffffffffffffffffffffffffffffffffffffffffffffffff,
                       0x000fffffffffffffffffffffffffffffffffffffffffffffffffffffffffffff],
      nDGWActivationBlock = 0\<rparr>"

text \<open>Three blocks in a row; the last was mined with the second algorithm.\<close>

definition example_chain :: block_store where
  "example_chain =
     (let g = CBlockIndex_new (CBlockHeader_null\<lparr>h_nTime := 1630067829, h_nBits := 0x1e00ffff, h_nVersion := 4\<rparr>) in
      [g, g\<lparr>phashBlock := 1, pprev := Some 0, nHeight := 1\<rparr>, g\<lparr>phashBlock := 2, pprev := Some 1, nHeight := 2, b_nVersion := 0x10004\<rparr>])"

lemma example_chain_tree: "block_tree example_chain" "length example_chain = 3"
  by (auto simp: block_tree_def example_chain_def block_ok_def Let_def CBlockIndex_new_def less_Suc_eq numeral_3_eq_3 numeral_2_eq_2)

lemma example_chain_bits: "p < 3 \<Longrightarrow> b_nBits (example_chain ! p) = 0x1e00ffff"
  by (auto simp: example_chain_def Let_def CBlockIndex_new_def less_Suc_eq numeral_3_eq_3 numeral_2_eq_2)

lemma example_target: "limb_val (fst (SetCompact 0x1e00ffff)) = 0xffff * 256 ^ 27"
  unfolding SetCompact_val(1) by simp

lemma example_bits_valid: "valid_bits (unat (powLimit main_params)) 0x1e00ffff"
proof -
  have "snd (SetCompact 0x1e00ffff) = (False, False)" by code_simp
  then show ?thesis using example_target by (cases "SetCompact 0x1e00ffff") (simp add: valid_bits_def main_params_def)
qed

theorem GetNextWorkRequired_total_witness:
  "\<exists>c. GetNextWorkRequired example_chain 2 CBlockHeader_null main_params = Inr c \<and> valid_bits (unat (powLimit main_params)) c"
  using GetNextWorkRequired_total [OF example_chain_tree(1), of 2 main_params CBlockHeader_null] example_chain_tree(2)
    example_bits_valid example_chain_bits by (simp add: main_params_def)


theorem GetNextWorkRequiredLWMA2_null_witness:
  "GetNextWorkRequiredLWMA2 example_chain 2 CBlockHeader_null (main_params\<lparr>lwmaAveragingWindow := 2\<rparr>) POW_TYPE_X16RT = Inl NullPointer"
proof (rule GetNextWorkRequiredLWMA2_null [where q = 1])
  show "index_pow_type example_chain 2 \<noteq> POW_TYPE_X16RT" "index_pow_type example_chain 1 = POW_TYPE_X16RT" by code_simp+
qed (simp_all add: example_chain_tree, simp_all add: example_chain_def main_params_def Let_def CBlockIndex_new_def)


end
