(* ===== verification/Headers.thy ===== *)
theory Headers
  imports Pow
begin

unbundle bit_operations_syntax

text \<open>
  Accepting block headers: \<open>CheckPoW\<close>, \<open>CheckBlockHeader\<close>, \<open>ContextualCheckBlockHeader\<close>, \<open>AcceptBlockHeader\<close> and
  \<open>ProcessNewBlockHeaders\<close> of \<^verbatim>\<open>src/validation.cpp\<close> over the block index, the proof-of-work cache and the difficulty rules.

  A call of \<open>CValidationState::DoS\<close> or \<open>Invalid\<close> is a \<open>Reject\<close> with the misbehaviour score and the reason; the other errors are
  the exceptions and failed assertions of the parts that are called.  What the checks read of the rest of the node
  (the clock, the peers, the active chain, the command line, the checkpoints) is the record \<open>node_context\<close>.
\<close>

section \<open>State and context\<close>

datatype header_error = Reject nat string | PowFault pow_error | IndexFault index_error | ChainFault chain_error | WalkFault | AssertFailedValid

record header_state =
  hs_index :: block_index
  hs_powCache :: CPowCache
  g_failed_blocks :: "nat list"
  fAssetsIsActive :: bool

record node_context =
  chainActive :: CChain
  nNodeCount :: "int option"
  now :: int
  nAdjustedTime :: int
  fInitialBlockDownload :: bool
  nMaxReorgDepth :: int
  nMinReorgPeers :: int
  nMinReorgAge :: int
  fCheckpointsEnabled :: bool
  mapCheckpoints :: "(int \<times> uint256) list"

record header_params =
  hp_consensus :: ConsensusParams
  hp_pow :: pow_env
  hp_validate :: bool
  hashGenesisBlock :: uint256
  nAssetsTimestamp :: "32 word"

section \<open>Checks\<close>

definition CheckPoW :: "header_params \<Rightarrow> CBlockHeader \<Rightarrow> CPowCache \<Rightarrow> (pow_error + bool) \<times> CPowCache" where
  "CheckPoW hp block c =
     (case CheckProofOfWork (hp_pow hp) (hp_validate hp) (hp_consensus hp) True block c of
        (Inl e, c) \<Rightarrow> (Inl e, c)
      | (Inr ok, c) \<Rightarrow>
          if \<not> ok then CheckProofOfWork (hp_pow hp) (hp_validate hp) (hp_consensus hp) False block c else (Inr True, c))"

definition CheckBlockHeader :: "header_params \<Rightarrow> bool \<Rightarrow> CBlockHeader \<Rightarrow> CPowCache \<Rightarrow> (header_error + unit) \<times> CPowCache" where
  "CheckBlockHeader hp fCheckPOW block c =
     (if fCheckPOW then
        (case CheckPoW hp block c of
           (Inl e, c) \<Rightarrow> (Inl (PowFault e), c)
         | (Inr ok, c) \<Rightarrow> (if \<not> ok then Inl (Reject 50 ''high-hash'') else Inr (), c))
      else (Inr (), c))"

text \<open>The newest checkpoint whose block is known; the map is sorted by height.\<close>

fun GetLastCheckpoint :: "(uint256 \<Rightarrow> nat option) \<Rightarrow> (int \<times> uint256) list \<Rightarrow> nat option" where
  "GetLastCheckpoint m [] = None"
| "GetLastCheckpoint m ((h, hash) # cs) =
     (case GetLastCheckpoint m cs of Some p \<Rightarrow> Some p | None \<Rightarrow> m hash)"

definition AreAssetsDeployed :: "32 word \<Rightarrow> block_store \<Rightarrow> CChain \<Rightarrow> bool \<Rightarrow> bool" where
  "AreAssetsDeployed nTimestamp H v active =
     (if active then True else (case chain_Tip v of None \<Rightarrow> False | Some p \<Rightarrow> b_nTime (H ! p) > nTimestamp))"

definition check_reorg :: "node_context \<Rightarrow> block_store \<Rightarrow> int \<Rightarrow> header_error + unit" where
  "check_reorg ctx H height =
     (case nNodeCount ctx of
        Some n \<Rightarrow>
          if chain_Height (chainActive ctx) - (height - 1) \<ge> nMaxReorgDepth ctx then
            (case chain_Tip (chainActive ctx) of
               None \<Rightarrow> Inl (PowFault NullPointer)
             | Some p \<Rightarrow>
                 if n \<ge> nMinReorgPeers ctx \<and> now ctx - GetBlockTime (H ! p) \<le> nMinReorgAge ctx
                 then Inl (Reject 1 ''bad-fork-prior-to-maxreorgdepth'') else Inr ())
          else Inr ()
      | None \<Rightarrow> Inr ())"

definition pow_fault :: "pow_error + 'a \<Rightarrow> header_error + 'a" where
  "pow_fault r = (case r of Inl e \<Rightarrow> Inl (PowFault e) | Inr a \<Rightarrow> Inr a)"

definition unknown_pow_type :: "CBlockHeader \<Rightarrow> bool" where
  "unknown_pow_type block = (case GetPoWType block of POW_TYPE_other _ \<Rightarrow> True | _ \<Rightarrow> False)"

definition check_work :: "ConsensusParams \<Rightarrow> block_store \<Rightarrow> nat \<Rightarrow> CBlockHeader \<Rightarrow> header_error + unit" where
  "check_work params H pindexPrev block =
     (if IsDualAlgoEnabled (powForkTime params) (Some (H ! pindexPrev)) then
        if unknown_pow_type block then Inl (Reject 100 ''bad-algo-id'')
        else ebind (pow_fault (GetNextWorkRequiredLWMA H pindexPrev block params (GetPoWType block))) (\<lambda>bits.
          if h_nBits block \<noteq> bits then Inl (Reject 100 ''bad-diff'') else Inr ())
      else ebind (pow_fault (GetNextWorkRequired H pindexPrev block params)) (\<lambda>bits.
        if h_nBits block \<noteq> bits then Inl (Reject 100 ''bad-diffbits'') else Inr ()))"

definition MAX_FUTURE_BLOCK_TIME :: int where "MAX_FUTURE_BLOCK_TIME = 2 * 60 * 60"

definition MAX_FUTURE_BLOCK_TIME_DGW :: int where "MAX_FUTURE_BLOCK_TIME_DGW = MAX_FUTURE_BLOCK_TIME div 10"

definition MAX_FUTURE_BLOCK_TIME_DUAL_ALGO :: int where "MAX_FUTURE_BLOCK_TIME_DUAL_ALGO = (90 * 5 * 60) div 20"

definition check_time :: "ConsensusParams \<Rightarrow> int \<Rightarrow> block_store \<Rightarrow> nat \<Rightarrow> CBlockHeader \<Rightarrow> header_error + unit" where
  "check_time params adjustedTime H pindexPrev block =
     (let dual = IsDualAlgoEnabled (powForkTime params) (Some (H ! pindexPrev)) in
      if header_time block \<le> GetMedianTimePast H pindexPrev then Inl (Reject 0 ''time-too-old'')
      else if IsDGWActive params (int (nHeight (H ! pindexPrev)) + 1) then
        if header_time block > adjustedTime + (if dual then MAX_FUTURE_BLOCK_TIME_DUAL_ALGO else MAX_FUTURE_BLOCK_TIME_DGW)
        then Inl (Reject 0 ''time-too-new'') else Inr ()
      else
        if header_time block > adjustedTime + (if dual then MAX_FUTURE_BLOCK_TIME_DUAL_ALGO else MAX_FUTURE_BLOCK_TIME)
        then Inl (Reject 0 ''time-too-new'') else Inr ())"

definition VERSIONBITS_TOP_BITS_ASSETS :: int where "VERSIONBITS_TOP_BITS_ASSETS = 0x30000000"

text \<open>The result, and the new value of \<open>fAssetsIsActive\<close>.\<close>

definition ContextualCheckBlockHeader ::
  "node_context \<Rightarrow> header_params \<Rightarrow> block_index \<Rightarrow> bool \<Rightarrow> nat \<Rightarrow> CBlockHeader \<Rightarrow> (header_error + unit) \<times> bool" where
  "ContextualCheckBlockHeader ctx hp S active pindexPrev block =
     (let H = blocks S; params = hp_consensus hp; height = int (nHeight (H ! pindexPrev)) + 1 in
      case ebind (check_reorg ctx H height) (\<lambda>_. ebind (check_work params H pindexPrev block) (\<lambda>_.
           ebind (case (if fCheckpointsEnabled ctx then GetLastCheckpoint (mapBlockIndex S) (mapCheckpoints ctx) else None) of
              None \<Rightarrow> Inr ()
            | Some p \<Rightarrow> if height < int (nHeight (H ! p)) then Inl (Reject 100 ''bad-fork-prior-to-checkpoint'') else Inr ()) (\<lambda>_.
           check_time params (nAdjustedTime ctx) H pindexPrev block))) of
        Inl e \<Rightarrow> (Inl e, active)
      | Inr _ \<Rightarrow>
          let active = AreAssetsDeployed (nAssetsTimestamp hp) H (chainActive ctx) active in
          (if active \<and> sint (h_nVersion block) < VERSIONBITS_TOP_BITS_ASSETS then Inl (Reject 0 ''bad-version'')
           else if IsDualAlgoEnabled (powForkTime params) (Some (H ! pindexPrev)) \<and> unknown_pow_type block
             then Inl (Reject 0 ''bad-blocktype'')
           else Inr (), active))"

section \<open>Descendants of failed blocks\<close>

text \<open>Marking the blocks from \<open>walk\<close> down to the failed one; the height of \<open>walk\<close> bounds the number of steps.\<close>

fun mark_failed :: "nat \<Rightarrow> nat \<Rightarrow> nat \<Rightarrow> block_index \<Rightarrow> header_error + block_index" where
  "mark_failed fuel walk failedit S =
     (if walk = failedit then Inr S
      else let b = blocks S ! walk;
               S' = S\<lparr>blocks := (blocks S)[walk := b\<lparr>nStatus := nStatus b OR BLOCK_FAILED_CHILD\<rparr>],
                      setDirtyBlockIndex := walk # setDirtyBlockIndex S\<rparr> in
        case (fuel, pprev b) of
          (Suc fuel, Some q) \<Rightarrow> mark_failed fuel q failedit S'
        | _ \<Rightarrow> Inl WalkFault)"

declare mark_failed.simps [simp del]

text \<open>The loop over the failed blocks; the state is returned with every result.\<close>

fun check_failed :: "nat \<Rightarrow> nat list \<Rightarrow> block_index \<Rightarrow> (header_error + unit) \<times> block_index" where
  "check_failed pindexPrev [] S = (Inr (), S)"
| "check_failed pindexPrev (failedit # fs) S =
     (case GetAncestor (blocks S) pindexPrev (int (nHeight (blocks S ! failedit))) of
        Inl e \<Rightarrow> (Inl (ChainFault e), S)
      | Inr q \<Rightarrow>
          if q = Some failedit then
            if nStatus (blocks S ! failedit) AND BLOCK_FAILED_VALID = 0 then (Inl AssertFailedValid, S)
            else (case mark_failed (nHeight (blocks S ! pindexPrev)) pindexPrev failedit S of
                    Inl e \<Rightarrow> (Inl e, S)
                  | Inr S' \<Rightarrow> (Inl (Reject 100 ''bad-prevblk''), S'))
          else check_failed pindexPrev fs S)"

section \<open>Accepting a header\<close>

definition accept_checks ::
  "node_context \<Rightarrow> header_params \<Rightarrow> CBlockHeader \<Rightarrow> header_state \<Rightarrow> (header_error + unit) \<times> header_state" where
  "accept_checks ctx hp block st =
     (case (if \<not> fInitialBlockDownload ctx then CheckBlockHeader hp True block (hs_powCache st) else (Inr (), hs_powCache st)) of
        (Inl e, c) \<Rightarrow> (Inl e, st\<lparr>hs_powCache := c\<rparr>)
      | (Inr _, c) \<Rightarrow>
          let st = st\<lparr>hs_powCache := c\<rparr>; S = hs_index st in
          case mapBlockIndex S (hashPrevBlock block) of
            None \<Rightarrow> (Inl (Reject 10 ''prev-blk-not-found''), st)
          | Some pindexPrev \<Rightarrow>
              if nStatus (blocks S ! pindexPrev) AND BLOCK_FAILED_MASK \<noteq> 0 then (Inl (Reject 100 ''bad-prevblk''), st)
              else
                (case ContextualCheckBlockHeader ctx hp S (fAssetsIsActive st) pindexPrev block of
                   (Inl e, active) \<Rightarrow> (Inl e, st\<lparr>fAssetsIsActive := active\<rparr>)
                 | (Inr _, active) \<Rightarrow>
                     let st = st\<lparr>fAssetsIsActive := active\<rparr> in
                     if \<not> IsValid BLOCK_VALID_SCRIPTS (blocks S ! pindexPrev) then
                       (case check_failed pindexPrev (g_failed_blocks st) S of (r, S') \<Rightarrow> (r, st\<lparr>hs_index := S'\<rparr>))
                     else (Inr (), st)))"

text \<open>\<open>AddToBlockIndex\<close> asks for the hash of the header once more.\<close>

definition accept_add :: "header_params \<Rightarrow> CBlockHeader \<Rightarrow> header_state \<Rightarrow> (header_error + nat) \<times> header_state" where
  "accept_add hp block st =
     (case GetHash (hp_pow hp) (hp_validate hp) True block (hs_powCache st) of (hash, c) \<Rightarrow>
      let st = st\<lparr>hs_powCache := c\<rparr> in
      case AddToBlockIndex hash block (hs_index st) of
        Inl e \<Rightarrow> (Inl (IndexFault e), st)
      | Inr (p, S) \<Rightarrow> (Inr p, st\<lparr>hs_index := S\<rparr>))"

definition AcceptBlockHeader ::
  "node_context \<Rightarrow> header_params \<Rightarrow> CBlockHeader \<Rightarrow> header_state \<Rightarrow> (header_error + nat) \<times> header_state" where
  "AcceptBlockHeader ctx hp block st =
     (case GetHash (hp_pow hp) (hp_validate hp) True block (hs_powCache st) of (hash, c) \<Rightarrow>
      let st = st\<lparr>hs_powCache := c\<rparr> in
      if hash \<noteq> hashGenesisBlock hp then
        (case mapBlockIndex (hs_index st) hash of
           Some p \<Rightarrow>
             if nStatus (blocks (hs_index st) ! p) AND BLOCK_FAILED_MASK \<noteq> 0 then (Inl (Reject 0 ''duplicate''), st) else (Inr p, st)
         | None \<Rightarrow>
             (case accept_checks ctx hp block st of
                (Inl e, st) \<Rightarrow> (Inl e, st)
              | (Inr _, st) \<Rightarrow> accept_add hp block st))
      else accept_add hp block st)"

text \<open>The headers of a message, until the first that is refused; the last accepted entry.\<close>

fun ProcessNewBlockHeaders ::
  "node_context \<Rightarrow> header_params \<Rightarrow> CBlockHeader list \<Rightarrow> nat option \<Rightarrow> header_state \<Rightarrow> (header_error \<times> CBlockHeader + nat option) \<times> header_state" where
  "ProcessNewBlockHeaders ctx hp [] pindex st = (Inr pindex, st)"
| "ProcessNewBlockHeaders ctx hp (block # hs) pindex st =
     (case AcceptBlockHeader ctx hp block st of
        (Inl e, st) \<Rightarrow> (Inl (e, block), st)
      | (Inr p, st) \<Rightarrow> ProcessNewBlockHeaders ctx hp hs (Some p) st)"

section \<open>Median times grow\<close>

lemma sorted_nth_ge:
  fixes m :: "'a::linorder"
  shows "sorted s \<Longrightarrow> i < length s \<Longrightarrow> m \<le> s ! i \<longleftrightarrow> length (filter (\<lambda>x. x < m) s) \<le> i"
proof (induction s arbitrary: i)
  case (Cons x s)
  show ?case
  proof (cases "x < m")
    case True
    then show ?thesis using Cons by (cases i) auto
  next
    case False
    then have "filter (\<lambda>x. x < m) s = []" using Cons.prems(1) by (auto simp: filter_empty_conv)
    moreover have "x \<le> (x # s) ! i" using Cons.prems by (cases i) auto
    ultimately show ?thesis using False by auto
  qed
qed simp

lemma length_filter_sort: "length (filter P (sort s)) = length (filter P s)"
  by (metis mset_filter mset_sort size_mset)

lemma median_grows:
  fixes xs :: "int list"
  assumes "xs \<noteq> []" "sort xs ! (length xs div 2) < t" "length xs \<le> Suc n"
  shows "sort xs ! (length xs div 2) \<le> sort (t # take n xs) ! (length (t # take n xs) div 2)"
proof -
  let ?m = "sort xs ! (length xs div 2)" and ?ys = "t # take n xs"
  have "length xs div 2 < length xs" using assms(1) by (cases xs) auto
  then have "length (filter (\<lambda>x. x < ?m) (sort xs)) \<le> length xs div 2" using sorted_nth_ge [of "sort xs" "length xs div 2" ?m] by simp
  then have x: "length (filter (\<lambda>x. x < ?m) xs) \<le> length xs div 2" by (simp add: length_filter_sort)
  have "length (filter (\<lambda>x. x < ?m) (take n xs)) \<le> length (filter (\<lambda>x. x < ?m) xs)"
    by (metis append_take_drop_id filter_append le_add1 length_append)
  then have "length (filter (\<lambda>x. x < ?m) ?ys) \<le> length xs div 2" using x assms(2) by simp
  also have "\<dots> \<le> length ?ys div 2" using assms(3) by (intro div_le_mono) simp
  finally have le: "length (filter (\<lambda>x. x < ?m) (sort ?ys)) \<le> length ?ys div 2" by (simp only: length_filter_sort)
  have "length ?ys div 2 < length (sort ?ys)" by simp
  then show ?thesis by (rule sorted_nth_ge [THEN iffD2, OF sorted_sort _ le])
qed

lemma times_back_take: "m \<le> n \<Longrightarrow> times_back H m p = take m (times_back H n p)"
proof (induction m arbitrary: n p)
  case (Suc m)
  then obtain n' where n: "n = Suc n'" "m \<le> n'" by (cases n) auto
  show ?case using Suc.IH [OF n(2)] by (cases p) (simp_all add: n(1))
qed simp

lemma length_times_back: "length (times_back H n p) \<le> n"
  by (induction H n p rule: times_back.induct) auto

lemma GetMedianTimePast_grows:
  assumes "pprev (H ! p) = Some q" "GetMedianTimePast H q < GetBlockTime (H ! p)"
  shows "GetMedianTimePast H q \<le> GetMedianTimePast H p"
proof -
  let ?xs = "times_back H nMedianTimeSpan (Some q)"
  have ys: "times_back H nMedianTimeSpan (Some p) = GetBlockTime (H ! p) # take 10 ?xs"
    using assms(1) times_back_take [of 10 nMedianTimeSpan H "Some q"] by (simp add: nMedianTimeSpan_def eval_nat_numeral)
  have rev: "sort (rev v) = sort v" for v :: "int list" by (rule properties_for_sort) simp_all
  have "?xs \<noteq> []" by (simp add: nMedianTimeSpan_def eval_nat_numeral)
  from median_grows [OF this, of "GetBlockTime (H ! p)" 10] assms(2) length_times_back [of H nMedianTimeSpan "Some q"]
  show ?thesis unfolding GetMedianTimePast_def Let_def ys rev by (simp add: nMedianTimeSpan_def)
qed

section \<open>Bits stay within the limits\<close>

text \<open>The greatest of the limits.\<close>

definition bits_cap :: "ConsensusParams \<Rightarrow> nat" where
  "bits_cap params = Max (set (map unat (powLimit params # powTypeLimits params)))"

lemma limit_le_cap: "unat (powLimit params) \<le> bits_cap params" "u \<in> set (powTypeLimits params) \<Longrightarrow> unat u \<le> bits_cap params"
  by (auto simp: bits_cap_def intro!: Max_ge)

lemma get_compact_valid: "get_compact a = Inr c \<Longrightarrow> is_uint256 a \<Longrightarrow> limb_val a \<le> L \<Longrightarrow> valid_bits L c"
  using get_compact_returns [of a L] by (auto simp: returns_def)

lemma limit_valid: "get_compact (UintToArith256 (powLimit params)) = Inr c \<Longrightarrow> valid_bits (bits_cap params) c"
  by (erule get_compact_valid) (simp_all add: UintToArith256_val limit_le_cap)

lemma capped_valid: "get_compact (cap_target l a) = Inr c \<Longrightarrow> is_uint256 a \<Longrightarrow> is_uint256 l \<Longrightarrow> limb_val l \<le> L \<Longrightarrow> valid_bits L c"
  by (erule get_compact_valid) (simp_all add: cap_target_valid)

lemma capped_limit_valid:
  "get_compact (cap_target (UintToArith256 (powLimit params)) a) = Inr c \<Longrightarrow> is_uint256 a \<Longrightarrow> valid_bits (bits_cap params) c"
  by (erule capped_valid) (simp_all add: UintToArith256_val limit_le_cap)

lemma div64_uint256:
  assumes "div64 a d = Inr q" "is_uint256 a"
  shows "is_uint256 q"
proof -
  have q: "uint_div a (base_uint_64 (of_int d)) = Some q" using assms(1) by (simp add: div64_def split: option.splits)
  then have "limb_val (base_uint_64 (of_int d)) \<noteq> 0" using uint_div_zero [of a "base_uint_64 (of_int d)"] by auto
  from au.quo [OF assms(2) au.of64(1) this] q show ?thesis by simp
qed

lemma add_target_uint256: "add_target s (index_target H b) N k = Inr r \<Longrightarrow> is_uint256 s \<Longrightarrow> is_uint256 r"
  using index_target_valid [of H b] by (auto simp: add_target_def ebind_eq_Inr dest!: div64_uint256)

lemma dgw_loop_uint256: "dgw_loop H left p avg = Inr (a, q) \<Longrightarrow> is_uint256 avg \<Longrightarrow> is_uint256 a"
proof (induction H left p avg rule: dgw_loop.induct)
  case (2 H left p avg)
  let ?n = "nPastBlocks - left"
  from 2(2) obtain avg' p' where s: "(if ?n = 1 then Inr (index_target H p)
      else div64 (uint_add (uint_mul32 avg (of_nat ?n)) (index_target H p)) (int ?n + 1)) = Inr avg'"
    "(if ?n \<noteq> nPastBlocks then prev_assert H p else Inr p) = Inr p'" "dgw_loop H left p' avg' = Inr (a, q)"
    by (auto simp: ebind_eq_Inr Let_def)
  have "is_uint256 avg'" using s(1) index_target_valid [of H p] 2(3) by (auto split: if_splits dest!: div64_uint256)
  then show ?case using 2(1) [OF refl refl s(1,2,3)] by simp
qed simp

lemma last_real_bits_valid:
  assumes "block_tree H" "\<forall>q < length H. valid_bits L (b_nBits (H ! q))"
  shows "last_real_bits params H limit fuel p = Inr c \<Longrightarrow> p < length H \<Longrightarrow> valid_bits L c"
proof (induction fuel arbitrary: p)
  case (Suc fuel)
  then show ?case using assms(2) tree_prev(2) [OF assms(1) Suc.prems(2)] by (auto split: option.splits if_splits)
qed simp

lemma DarkGravityWave_valid:
  assumes "block_tree H" "p < length H" "\<forall>q < length H. valid_bits (bits_cap params) (b_nBits (H ! q))" "DarkGravityWave H p b params = Inr c"
  shows "valid_bits (bits_cap params) c"
proof -
  have zero: "is_uint256 base_uint_zero" by (simp add: base_uint_zero_def)
  show ?thesis using assms(4) unfolding DarkGravityWave_def Let_def
    by (auto simp: ebind_eq_Inr UintToArith256_val simp del: last_real_bits.simps split: if_splits
        dest!: dgw_loop_uint256 [OF _ zero] div64_uint256
        intro: limit_valid last_real_bits_valid [OF assms(1,3) _ assms(2)] capped_limit_valid)
qed

lemma CalculateNextWorkRequired_valid:
  assumes "valid_bits (bits_cap params) (b_nBits (H ! p))" "CalculateNextWorkRequired H p t params = Inr c"
  shows "valid_bits (bits_cap params) c"
  using assms index_target_valid [of H p] unfolding CalculateNextWorkRequired_def Let_def
  by (auto simp: ebind_eq_Inr split: if_splits dest!: div64_uint256 intro: capped_limit_valid)

lemma GetNextWorkRequired_valid:
  assumes "block_tree H" "p < length H" "\<forall>q < length H. valid_bits (bits_cap params) (b_nBits (H ! q))" "GetNextWorkRequired H p b params = Inr c"
  shows "valid_bits (bits_cap params) c"
proof -
  have btc: "valid_bits (bits_cap params) c" if "GetNextWorkRequiredBTC H p b params = Inr c" for c
    using that assms(2,3) unfolding GetNextWorkRequiredBTC_def Let_def
    by (auto simp: ebind_eq_Inr simp del: last_real_bits.simps split: if_splits option.splits
        intro: limit_valid last_real_bits_valid [OF assms(1,3) _ assms(2)] CalculateNextWorkRequired_valid)
  show ?thesis using assms(4) DarkGravityWave_valid [OF assms(1-3)] btc by (auto simp: GetNextWorkRequired_def ebind_eq_Inr split: if_splits)
qed

lemma lwma1_sum_uint256: "lwma1_sum H powType T N k fuel p n st = Inr st' \<Longrightarrow> is_uint256 (l_avg st) \<Longrightarrow> is_uint256 (l_avg st')"
proof (induction fuel arbitrary: p n st)
  case (Suc fuel)
  show ?case
  proof (cases "n < N \<and> index_pow_type H p = powType")
    case True
    then obtain q s where "lwma1_sum H powType T N k fuel q (n + 1) s = Inr st'" "add_target (l_avg st) (index_target H p) N k = Inr (l_avg s)"
      using Suc.prems(1) by (force simp: ebind_eq_Inr Let_def simp del: lwma1_sum.simps(2) dest: lwma1_sum.simps(2) [THEN sym, THEN trans])
    then show ?thesis using Suc.IH Suc.prems(2) add_target_uint256 by blast
  next
    case False
    then show ?thesis using Suc by (auto simp: ebind_eq_Inr split: if_splits)
  qed
qed simp

lemma GetNextWorkRequiredLWMA1_valid:
  assumes "GetNextWorkRequiredLWMA1 H p b params powType = Inr c"
  shows "valid_bits (bits_cap params) c"
proof -
  have cap: "valid_bits (bits_cap params) c"
    if "get_compact a = Inr c" "\<not> CompareTo a (UintToArith256 (powLimit params)) > 0" "is_uint256 a" for a
    using that capped_limit_valid [of params a c] by (simp add: cap_target_def)
  have sum: "is_uint256 (uint_mul32 (l_avg st) n)"
    if "lwma1_sum H powType T N k f p m \<lparr>l_avg = base_uint_zero, l_sum = x, l_j = y, l_prev = z\<rparr> = Inr st" for T N k f m x y z st n
    using lwma1_sum_uint256 [OF that] by (simp add: base_uint_zero_def)
  show ?thesis using assms unfolding GetNextWorkRequiredLWMA1_def Let_def
    by (auto simp: ebind_eq_Inr simp del: lwma1_sum.simps lwma1_first.simps split: if_splits option.splits elim!: limit_valid elim: cap dest!: sum)
qed

lemma GetNextWorkRequiredLWMA2_valid:
  assumes "valid_bits (bits_cap params) (b_nBits (H ! p))" "GetNextWorkRequiredLWMA2 H p b params powType = Inr c"
  shows "valid_bits (bits_cap params) c"
proof -
  have m: "is_uint256 (uint_mul (base_uint_64 w) (l2_sum st))" for w st by (simp add: base_uint_64_val)
  show ?thesis using assms unfolding GetNextWorkRequiredLWMA2_def Let_def
    by (auto simp: ebind_eq_Inr split: if_splits intro: limit_valid capped_limit_valid [OF _ m])
qed

lemma GetNextWorkRequiredLWMA3_valid:
  assumes "GetNextWorkRequiredLWMA3 H p b params powType = Inr c"
  shows "valid_bits (bits_cap params) c"
proof -
  obtain limit where l: "pow_type_limit params powType = Inr limit" using assms by (auto simp: GetNextWorkRequiredLWMA3_def ebind_eq_Inr)
  then have lim: "is_uint256 limit" "limb_val limit \<le> bits_cap params"
    by (auto simp: pow_type_limit_def UintToArith256_val Let_def split: if_splits intro!: limit_le_cap(2))
  have m: "is_uint256 (uint_mul (base_uint_64 w) s)" for w s by (simp add: base_uint_64_val)
  show ?thesis using assms l unfolding GetNextWorkRequiredLWMA3_def Let_def
    by (auto simp: ebind_eq_Inr split: option.splits intro: get_compact_valid [OF _ lim] capped_valid [OF _ m lim])
qed

lemma check_work_valid:
  assumes "block_tree H" "p < length H" "\<forall>q < length H. valid_bits (bits_cap params) (b_nBits (H ! q))" "check_work params H p b = Inr ()"
  shows "valid_bits (bits_cap params) (h_nBits b)"
proof -
  have "valid_bits (bits_cap params) c" if "GetNextWorkRequiredLWMA H p b params t = Inr c" for c t
    using that assms(2,3) unfolding GetNextWorkRequiredLWMA_def
    by (auto split: if_splits intro: GetNextWorkRequiredLWMA1_valid GetNextWorkRequiredLWMA2_valid GetNextWorkRequiredLWMA3_valid)
  then show ?thesis using assms(4) GetNextWorkRequired_valid [OF assms(1-3)]
    by (auto simp: check_work_def pow_fault_def ebind_eq_Inr split: if_splits sum.splits)
qed

section \<open>What does not depend on the status of the blocks\<close>

definition strip_status :: "block_store \<Rightarrow> block_store" where
  "strip_status H = map (nStatus_update (\<lambda>_. 0)) H"

text \<open>The two indexes differ at most in the status of their blocks and in the list of blocks to be written.\<close>

definition status_step :: "block_index \<Rightarrow> block_index \<Rightarrow> bool" where
  "status_step S S' \<longleftrightarrow> strip_status (blocks S') = strip_status (blocks S) \<and> mapBlockIndex S' = mapBlockIndex S \<and>
     pindexBestHeader S' = pindexBestHeader S"

lemma status_step_refl [simp]: "status_step S S"
  by (simp add: status_step_def)

lemma status_step_trans: "status_step S S' \<Longrightarrow> status_step S' S'' \<Longrightarrow> status_step S S''"
  by (simp add: status_step_def)

lemma strip_length: "strip_status H' = strip_status H \<Longrightarrow> length H' = length H"
  by (metis length_map strip_status_def)

lemma strip_fields:
  assumes "strip_status H' = strip_status H" "p < length H"
  shows "pprev (H' ! p) = pprev (H ! p)" "pskip (H' ! p) = pskip (H ! p)" "nHeight (H' ! p) = nHeight (H ! p)"
    "phashBlock (H' ! p) = phashBlock (H ! p)" "nChainWork (H' ! p) = nChainWork (H ! p)" "nTimeMax (H' ! p) = nTimeMax (H ! p)"
    "b_nTime (H' ! p) = b_nTime (H ! p)" "b_nBits (H' ! p) = b_nBits (H ! p)"
proof -
  have "(H' ! p)\<lparr>nStatus := 0\<rparr> = (H ! p)\<lparr>nStatus := 0\<rparr>"
    using assms strip_length [OF assms(1)] unfolding strip_status_def by (metis nth_map)
  then show "pprev (H' ! p) = pprev (H ! p)" "pskip (H' ! p) = pskip (H ! p)" "nHeight (H' ! p) = nHeight (H ! p)"
    "phashBlock (H' ! p) = phashBlock (H ! p)" "nChainWork (H' ! p) = nChainWork (H ! p)" "nTimeMax (H' ! p) = nTimeMax (H ! p)"
    "b_nTime (H' ! p) = b_nTime (H ! p)" "b_nBits (H' ! p) = b_nBits (H ! p)"
    by (cases "H' ! p"; cases "H ! p"; simp)+
qed

lemma up_strip:
  assumes "block_tree H" "strip_status H' = strip_status H"
  shows "p < length H \<Longrightarrow> up H' k p = up H k p"
proof (induction k arbitrary: p)
  case (Suc k)
  then show ?case using tree_prev(2) [OF assms(1) Suc.prems] by (auto simp: strip_fields [OF assms(2)] split: option.splits)
qed simp

lemma times_back_strip:
  assumes "block_tree H" "strip_status H' = strip_status H"
  shows "p < length H \<Longrightarrow> times_back H' n (Some p) = times_back H n (Some p)"
proof (induction n arbitrary: p)
  case (Suc n)
  have "times_back H' n (pprev (H ! p)) = times_back H n (pprev (H ! p))"
    using Suc.IH tree_prev(2) [OF assms(1) Suc.prems] by (cases "pprev (H ! p)"; cases n) auto
  then show ?case using Suc.prems by (simp add: strip_fields [OF assms(2)] GetBlockTime_def)
qed simp

lemma index_inv_status:
  assumes "index_inv S" "status_step S S'"
  shows "index_inv S'"
proof -
  let ?H = "blocks S" and ?H' = "blocks S'"
  have e: "strip_status ?H' = strip_status ?H" "mapBlockIndex S' = mapBlockIndex S" "pindexBestHeader S' = pindexBestHeader S"
    using assms(2) by (simp_all add: status_step_def)
  note f = strip_fields [OF e(1)] and len = strip_length [OF e(1)]
  have tree: "block_tree ?H" using assms(1) by (simp add: index_inv_def)
  have "block_tree ?H'"
    using tree up_strip [OF tree e(1)] len by (auto simp: block_tree_def block_ok_def f split: option.splits)
  moreover have "times_ok ?H' p \<and> work_ok ?H' p" if "p < length ?H" "times_ok ?H p \<and> work_ok ?H p" for p
  proof -
    have "block_work (?H' ! p) = block_work (?H ! p)" using that(1) by (intro block_work_cong) (simp add: f)
    then show ?thesis using that tree_prev(2) [OF tree that(1)] by (auto simp: times_ok_def work_ok_def f split: option.splits)
  qed
  moreover have "best_ok ?H' (pindexBestHeader S')" using assms(1) len
    by (auto simp: index_inv_def best_ok_def e(3) f split: option.splits)
  ultimately show ?thesis using assms(1) len by (auto simp: index_inv_def e(2) f)
qed

lemma mark_failed_status: "mark_failed fuel walk f S = Inr S' \<Longrightarrow> status_step S S'"
proof (induction fuel arbitrary: walk S)
  case 0
  then show ?case by (auto simp: mark_failed.simps [of 0] Let_def split: if_splits)
next
  case (Suc fuel)
  let ?b = "blocks S ! walk"
  let ?S = "S\<lparr>blocks := (blocks S)[walk := ?b\<lparr>nStatus := nStatus ?b OR BLOCK_FAILED_CHILD\<rparr>],
             setDirtyBlockIndex := walk # setDirtyBlockIndex S\<rparr>"
  have "status_step S ?S" by (cases "walk < length (blocks S)") (simp_all add: status_step_def strip_status_def map_update list_update_same_conv list_update_beyond)
  then show ?case using Suc.IH Suc.prems status_step_trans
    by (auto simp: mark_failed.simps [of "Suc fuel"] Let_def split: if_splits option.splits)
qed

lemma check_failed_status:
  "check_failed q fs S = (r, S') \<Longrightarrow> status_step S S' \<and> (r = Inr () \<longrightarrow> S' = S)"
  by (induction q fs S rule: check_failed.induct) (auto split: sum.splits if_splits dest: mark_failed_status)

section \<open>Invariant\<close>

text \<open>What the checks establish of an entry: its bits are within the limits and its time is after the median time of its parent.\<close>

definition rules_ok :: "ConsensusParams \<Rightarrow> block_store \<Rightarrow> nat \<Rightarrow> bool" where
  "rules_ok params H p \<longleftrightarrow> valid_bits (bits_cap params) (b_nBits (H ! p)) \<and>
     (\<forall>q. pprev (H ! p) = Some q \<longrightarrow> GetMedianTimePast H q < GetBlockTime (H ! p))"

definition tree_rules :: "ConsensusParams \<Rightarrow> block_index \<Rightarrow> bool" where
  "tree_rules params S \<longleftrightarrow> index_inv S \<and> (\<forall>p < length (blocks S). rules_ok params (blocks S) p)"

lemma tree_rules_status:
  assumes "tree_rules params S" "status_step S S'"
  shows "tree_rules params S'"
proof -
  have e: "strip_status (blocks S') = strip_status (blocks S)" using assms(2) by (simp add: status_step_def)
  have tree: "block_tree (blocks S)" using assms(1) by (simp add: tree_rules_def index_inv_def)
  have "rules_ok params (blocks S') p" if p: "p < length (blocks S)" for p
    using assms(1) p times_back_strip [OF tree e] tree_prev(2) [OF tree p]
    by (auto simp: tree_rules_def rules_ok_def GetMedianTimePast_def GetBlockTime_def strip_fields [OF e] Let_def)
  then show ?thesis using assms index_inv_status [of S S'] strip_length [OF e] by (simp add: tree_rules_def)
qed

lemma times_back_append:
  assumes "block_tree H"
  shows "p < length H \<Longrightarrow> times_back (H @ bs) n (Some p) = times_back H n (Some p)"
proof (induction n arbitrary: p)
  case (Suc n)
  have "times_back (H @ bs) n (pprev (H ! p)) = times_back H n (pprev (H ! p))"
    using Suc.IH tree_prev(2) [OF assms Suc.prems] by (cases "pprev (H ! p)"; cases n) auto
  then show ?case using Suc.prems by (simp add: nth_append)
qed simp

lemma link_entry_pprev:
  "link_entry H m b = Inr b' \<Longrightarrow> pprev b' = (case m of None \<Rightarrow> pprev b | Some q \<Rightarrow> Some q) \<and> b_nBits b' = b_nBits b"
  by (auto simp: link_entry_def BuildSkip_def Let_def ebind_eq_Inr split: option.splits sum.splits)

lemma AddToBlockIndex_cases:
  assumes "AddToBlockIndex hash block S = Inr (p, S')" "hash \<noteq> hashPrevBlock block"
  shows "S' = S \<or> (mapBlockIndex S hash = None \<and> p = length (blocks S) \<and>
    (\<exists>b. blocks S' = blocks S @ [b] \<and> pprev b = mapBlockIndex S (hashPrevBlock block) \<and> b_nBits b = h_nBits block))"
proof (cases "mapBlockIndex S hash")
  case None
  let ?m = "mapBlockIndex S (hashPrevBlock block)"
  obtain b b' where l: "link_entry (blocks S) ?m ((CBlockIndex_new block)\<lparr>nSequenceId := 0, phashBlock := hash\<rparr>) = Inr b"
      "set_chain_work (blocks S) (set_time_max (blocks S) b) = Inr b'"
    and r: "p = length (blocks S)" "blocks S' = blocks S @ [fst (RaiseValidity BLOCK_VALID_TREE b')]"
    using assms None by (auto simp: AddToBlockIndex_def Let_def ebind_eq_Inr)
  have "pprev b = ?m" "b_nBits b = h_nBits block" using link_entry_pprev [OF l(1)] by (simp_all add: CBlockIndex_new_def split: option.splits)
  moreover have "pprev b' = pprev b" "b_nBits b' = b_nBits b" using l(2) by (auto simp: set_chain_work_def set_time_max_def split: option.splits)
  ultimately show ?thesis using None r by simp
qed (use assms in \<open>simp add: AddToBlockIndex_def\<close>)

lemma AddToBlockIndex_rules:
  assumes "tree_rules params S" "AddToBlockIndex hash block S = Inr (p, S')" "hash \<noteq> hashPrevBlock block"
    and "mapBlockIndex S hash = None \<Longrightarrow>
      \<exists>q. mapBlockIndex S (hashPrevBlock block) = Some q \<and> GetMedianTimePast (blocks S) q < header_time block \<and>
        valid_bits (bits_cap params) (h_nBits block)"
  shows "tree_rules params S'"
proof -
  let ?H = "blocks S"
  have inv: "index_inv S" "block_tree ?H" using assms(1) by (simp_all add: tree_rules_def index_inv_def)
  from AddToBlockIndex_inv [OF inv(1) assms(3)] assms(2) have inv': "index_inv S'"
    and hd: "mapBlockIndex S hash = None \<Longrightarrow> mapBlockIndex S (hashPrevBlock block) \<noteq> None \<Longrightarrow> index_GetBlockHeader (blocks S') (blocks S' ! p) = block"
    by auto
  from AddToBlockIndex_cases [OF assms(2,3)] show ?thesis
  proof (elim disjE conjE exE)
    fix b assume n: "mapBlockIndex S hash = None" "p = length ?H" "blocks S' = ?H @ [b]" "pprev b = mapBlockIndex S (hashPrevBlock block)" "b_nBits b = h_nBits block"
    from assms(4) [OF n(1)] obtain q where q: "mapBlockIndex S (hashPrevBlock block) = Some q" "GetMedianTimePast ?H q < header_time block"
      "valid_bits (bits_cap params) (h_nBits block)" by blast
    have "q < length ?H" using inv(1) q(1) by (auto simp: index_inv_def)
    then have mtp: "GetMedianTimePast (?H @ [b]) q = GetMedianTimePast ?H q" by (simp add: GetMedianTimePast_def times_back_append [OF inv(2)])
    have "b_nTime b = h_nTime block" using hd [OF n(1)] q(1) n(2,3) by (auto simp: index_GetBlockHeader_def)
    then have "rules_ok params (?H @ [b]) (length ?H)"
      using q mtp n(4,5) by (simp add: rules_ok_def GetBlockTime_def header_time_def)
    moreover have "rules_ok params (?H @ [b]) i" if "i < length ?H" for i
      using assms(1) that tree_prev(2) [OF inv(2) that]
      by (auto simp: tree_rules_def rules_ok_def nth_append GetMedianTimePast_def times_back_append [OF inv(2)])
    ultimately show ?thesis using inv' n(3) by (auto simp: tree_rules_def less_Suc_eq)
  qed (use assms(1) in simp)
qed

definition header_inv :: "header_params \<Rightarrow> header_state \<Rightarrow> bool" where
  "header_inv hp st \<longleftrightarrow> tree_rules (hp_consensus hp) (hs_index st) \<and> pow_cache_ok (hp_pow hp) (hs_powCache st) \<and>
     mapBlockIndex (hs_index st) (hashGenesisBlock hp) \<noteq> None"

text \<open>
  What is assumed of a header: no other header with the same SHA-256 hash has another proof-of-work hash, and the
  header does not name itself as its parent.
\<close>

definition pow_hash_ok :: "header_params \<Rightarrow> CBlockHeader \<Rightarrow> bool" where
  "pow_hash_ok hp block \<longleftrightarrow>
     (\<forall>h'. GetSHA256Hash h' = GetSHA256Hash block \<longrightarrow> ComputePoWHash (hp_pow hp) h' = ComputePoWHash (hp_pow hp) block) \<and>
     ComputePoWHash (hp_pow hp) block \<noteq> hashPrevBlock block"

lemma GetHash_cache:
  assumes "pow_cache_ok (hp_pow hp) c" "pow_hash_ok hp block" "GetHash (hp_pow hp) v r block c = (hash, c')"
  shows "hash = ComputePoWHash (hp_pow hp) block" "pow_cache_ok (hp_pow hp) c'"
proof -
  have "ComputePoWHash (hp_pow hp) h' = ComputePoWHash (hp_pow hp) block" if "GetSHA256Hash h' = GetSHA256Hash block" for h'
    using assms(2) that unfolding pow_hash_ok_def by blast
  from GetHash_transparent [OF assms(1) this, of v r] assms(3)
  show "hash = ComputePoWHash (hp_pow hp) block" "pow_cache_ok (hp_pow hp) c'" by simp_all
qed

lemma CheckBlockHeader_cache:
  assumes "pow_cache_ok (hp_pow hp) c" "pow_hash_ok hp block" "CheckBlockHeader hp f block c = (r, c')"
  shows "pow_cache_ok (hp_pow hp) c'"
proof -
  have "pow_cache_ok (hp_pow hp) c'" if "CheckProofOfWork (hp_pow hp) v params k block c = (r, c')" "pow_cache_ok (hp_pow hp) c" for v params k c r c'
    using that(1) GetHash_cache(2) [OF that(2) assms(2)] by (auto simp: CheckProofOfWork_def split: prod.splits)
  then show ?thesis using assms by (auto simp: CheckBlockHeader_def CheckPoW_def split: if_splits prod.splits sum.splits)
qed

lemma ContextualCheckBlockHeader_rules:
  assumes "tree_rules (hp_consensus hp) S" "q < length (blocks S)" "ContextualCheckBlockHeader ctx hp S a q block = (Inr u, a')"
  shows "GetMedianTimePast (blocks S) q < header_time block" "valid_bits (bits_cap (hp_consensus hp)) (h_nBits block)"
proof -
  have w: "check_work (hp_consensus hp) (blocks S) q block = Inr ()"
    "check_time (hp_consensus hp) (nAdjustedTime ctx) (blocks S) q block = Inr ()"
    using assms(3) by (auto simp: ContextualCheckBlockHeader_def Let_def ebind_eq_Inr split: sum.splits)
  show "GetMedianTimePast (blocks S) q < header_time block" using w(2) by (simp add: check_time_def Let_def split: if_splits)
  show "valid_bits (bits_cap (hp_consensus hp)) (h_nBits block)"
    by (rule check_work_valid [OF _ assms(2) _ w(1)]) (use assms(1) in \<open>auto simp: tree_rules_def index_inv_def rules_ok_def\<close>)
qed

lemma accept_checks_inv:
  assumes "header_inv hp st" "pow_hash_ok hp block" "accept_checks ctx hp block st = (r, st')"
  shows "header_inv hp st'"
    and "r = Inr () \<Longrightarrow> hs_index st' = hs_index st \<and> (\<exists>q. mapBlockIndex (hs_index st) (hashPrevBlock block) = Some q \<and>
      GetMedianTimePast (blocks (hs_index st)) q < header_time block \<and> valid_bits (bits_cap (hp_consensus hp)) (h_nBits block))"
proof -
  let ?S = "hs_index st"
  obtain r0 c where c: "(if \<not> fInitialBlockDownload ctx then CheckBlockHeader hp True block (hs_powCache st) else (Inr (), hs_powCache st)) = (r0, c)"
    by fastforce
  have ok: "pow_cache_ok (hp_pow hp) c" "tree_rules (hp_consensus hp) ?S" "mapBlockIndex ?S (hashGenesisBlock hp) \<noteq> None"
    using assms(1) c CheckBlockHeader_cache [OF _ assms(2)] by (auto simp: header_inv_def split: if_splits)
  have range: "q < length (blocks ?S)" if "mapBlockIndex ?S h = Some q" for q h using ok(2) that by (auto simp: tree_rules_def index_inv_def)
  have st: "header_inv hp (st\<lparr>hs_powCache := c, fAssetsIsActive := a, hs_index := S'\<rparr>)" if "status_step ?S S'" for a S'
    using ok tree_rules_status [OF ok(2) that] that by (simp add: header_inv_def status_step_def)
  note st' = st [OF status_step_refl, simplified]
  have st0: "header_inv hp (st\<lparr>hs_powCache := c\<rparr>)" using ok by (simp add: header_inv_def)
  show "header_inv hp st'" using assms(3) st' st0 unfolding accept_checks_def c
    by (auto simp: Let_def split: sum.splits option.splits if_splits prod.splits dest!: check_failed_status intro: st)
  assume "r = Inr ()"
  then show "hs_index st' = hs_index st \<and> (\<exists>q. mapBlockIndex (hs_index st) (hashPrevBlock block) = Some q \<and>
      GetMedianTimePast (blocks (hs_index st)) q < header_time block \<and> valid_bits (bits_cap (hp_consensus hp)) (h_nBits block))"
    using assms(3) ContextualCheckBlockHeader_rules [OF ok(2) range] unfolding accept_checks_def c
    by (auto simp: Let_def split: sum.splits option.splits if_splits prod.splits dest!: check_failed_status)
qed

lemma accept_add_inv:
  assumes "header_inv hp st" "pow_hash_ok hp block" "accept_add hp block st = (r, st')"
    and "mapBlockIndex (hs_index st) (ComputePoWHash (hp_pow hp) block) = None \<Longrightarrow>
      \<exists>q. mapBlockIndex (hs_index st) (hashPrevBlock block) = Some q \<and>
        GetMedianTimePast (blocks (hs_index st)) q < header_time block \<and> valid_bits (bits_cap (hp_consensus hp)) (h_nBits block)"
  shows "header_inv hp st'"
proof -
  let ?S = "hs_index st" and ?h = "ComputePoWHash (hp_pow hp) block"
  have inv: "tree_rules (hp_consensus hp) ?S" "pow_cache_ok (hp_pow hp) (hs_powCache st)" "mapBlockIndex ?S (hashGenesisBlock hp) \<noteq> None"
    using assms(1) by (simp_all add: header_inv_def)
  obtain c where c: "GetHash (hp_pow hp) (hp_validate hp) True block (hs_powCache st) = (?h, c)" "pow_cache_ok (hp_pow hp) c"
    using GetHash_cache [OF inv(2) assms(2)] by (cases "GetHash (hp_pow hp) (hp_validate hp) True block (hs_powCache st)") blast
  have ne: "?h \<noteq> hashPrevBlock block" using assms(2) unfolding pow_hash_ok_def by blast
  obtain p S' where a: "AddToBlockIndex ?h block ?S = Inr (p, S')" "\<exists>bs. blocks S' = blocks ?S @ bs" "index_inv S'"
    using AddToBlockIndex_inv [of ?S ?h block] inv(1) ne by (auto simp: tree_rules_def)
  have "tree_rules (hp_consensus hp) S'" by (rule AddToBlockIndex_rules [OF inv(1) a(1) ne assms(4)])
  moreover have "mapBlockIndex S' (hashGenesisBlock hp) \<noteq> None"
  proof -
    obtain g where "g < length (blocks ?S)" "phashBlock (blocks ?S ! g) = hashGenesisBlock hp"
      using inv(1,3) by (auto simp: tree_rules_def index_inv_def)
    then have "g < length (blocks S')" "phashBlock (blocks S' ! g) = hashGenesisBlock hp" using a(2) by (auto simp: nth_append)
    then have "mapBlockIndex S' (hashGenesisBlock hp) = Some g" using a(3) unfolding index_inv_def by blast
    then show ?thesis by simp
  qed
  ultimately show ?thesis using assms(3) c a(1) by (auto simp: accept_add_def header_inv_def)
qed

lemma AcceptBlockHeader_inv:
  assumes "header_inv hp st" "pow_hash_ok hp block" "AcceptBlockHeader ctx hp block st = (r, st')"
  shows "header_inv hp st'"
proof -
  let ?h = "ComputePoWHash (hp_pow hp) block"
  obtain c where c: "GetHash (hp_pow hp) (hp_validate hp) True block (hs_powCache st) = (?h, c)" "pow_cache_ok (hp_pow hp) c"
    using GetHash_cache [OF _ assms(2)] assms(1) by (cases "GetHash (hp_pow hp) (hp_validate hp) True block (hs_powCache st)") (auto simp: header_inv_def)
  let ?st = "st\<lparr>hs_powCache := c\<rparr>"
  have inv: "header_inv hp ?st" using assms(1) c(2) by (simp add: header_inv_def)
  have gen: "mapBlockIndex (hs_index ?st) ?h \<noteq> None" if "?h = hashGenesisBlock hp" using assms(1) that by (simp add: header_inv_def)
  have checked: "header_inv hp st2" if "accept_checks ctx hp block ?st = (Inr (), st1)" "accept_add hp block st1 = (r, st2)" for st1 st2 r
    using accept_checks_inv [OF inv assms(2) that(1)] accept_add_inv [OF _ assms(2) that(2)] by auto
  show ?thesis
    using assms(3) inv accept_checks_inv(1) [OF inv assms(2)] checked accept_add_inv [OF inv assms(2)] gen
    unfolding AcceptBlockHeader_def c(1)
    by (auto simp: Let_def split: if_splits option.splits prod.splits sum.splits)
qed

section \<open>Reachable states\<close>

text \<open>
  The index starts with the genesis block.  Then headers are offered, in any order and in any context, and in between
  other parts of the node may change the status of blocks and the set of failed blocks.
\<close>

inductive header_reach :: "header_params \<Rightarrow> header_state \<Rightarrow> bool" for hp :: header_params where
  genesis: "AddToBlockIndex (hashGenesisBlock hp) g empty_index = Inr (p, S) \<Longrightarrow> hashGenesisBlock hp \<noteq> hashPrevBlock g \<Longrightarrow>
    valid_bits (bits_cap (hp_consensus hp)) (h_nBits g) \<Longrightarrow> pow_cache_ok (hp_pow hp) c \<Longrightarrow>
    header_reach hp \<lparr>hs_index = S, hs_powCache = c, g_failed_blocks = [], fAssetsIsActive = False\<rparr>"
| accept: "header_reach hp st \<Longrightarrow> pow_hash_ok hp block \<Longrightarrow> AcceptBlockHeader ctx hp block st = (r, st') \<Longrightarrow> header_reach hp st'"
| status: "header_reach hp st \<Longrightarrow> status_step (hs_index st) S \<Longrightarrow> header_reach hp (st\<lparr>hs_index := S, g_failed_blocks := fs\<rparr>)"

lemma genesis_inv:
  assumes "AddToBlockIndex h g empty_index = Inr (p, S)" "h \<noteq> hashPrevBlock g" "valid_bits (bits_cap params) (h_nBits g)"
  shows "tree_rules params S \<and> mapBlockIndex S h = Some p"
proof -
  have e: "blocks empty_index = []" "mapBlockIndex empty_index = (\<lambda>_. None)" by (simp_all add: empty_index_def)
  from AddToBlockIndex_inv [OF index_inv_empty assms(2)] assms(1) have inv: "index_inv S" "mapBlockIndex S h = Some p" by auto
  have "mapBlockIndex empty_index h = None" "S \<noteq> empty_index" using inv(2) by (auto simp: e(2))
  with AddToBlockIndex_cases [OF assms(1,2)] obtain b where b: "blocks S = [b]" "pprev b = None" "b_nBits b = h_nBits g" by (auto simp: e)
  then show ?thesis using inv b assms(3) by (simp add: tree_rules_def rules_ok_def)
qed

lemma header_reach_inv: "header_reach hp st \<Longrightarrow> header_inv hp st"
proof (induction rule: header_reach.induct)
  case (genesis g p S c)
  then show ?case using genesis_inv by (simp add: header_inv_def)
next
  case (accept st block ctx r st')
  then show ?case using AcceptBlockHeader_inv by blast
next
  case (status st S fs)
  then show ?case using tree_rules_status by (auto simp: header_inv_def status_step_def)
qed

lemma median_of_ancestor:
  assumes "tree_rules params S"
  shows "p < length (blocks S) \<Longrightarrow> up (blocks S) k p = Some q \<Longrightarrow>
    GetMedianTimePast (blocks S) q \<le> GetMedianTimePast (blocks S) p \<and> (0 < k \<longrightarrow> GetMedianTimePast (blocks S) q < GetBlockTime (blocks S ! p))"
proof (induction k arbitrary: p)
  case (Suc k)
  have tree: "block_tree (blocks S)" using assms by (simp add: tree_rules_def index_inv_def)
  from Suc.prems obtain r where r: "pprev (blocks S ! p) = Some r" "up (blocks S) k r = Some q" by (auto split: option.splits)
  have "r < length (blocks S)" using tree_prev(2) [OF tree Suc.prems(1) r(1)] by simp
  with Suc.IH [OF _ r(2)] have "GetMedianTimePast (blocks S) q \<le> GetMedianTimePast (blocks S) r" by blast
  moreover have lt: "GetMedianTimePast (blocks S) r < GetBlockTime (blocks S ! p)" using assms Suc.prems(1) r(1) by (simp add: tree_rules_def rules_ok_def)
  ultimately show ?case using GetMedianTimePast_grows [OF r(1) lt] by simp
qed simp


definition example_hp :: header_params where
  "example_hp = \<lparr>hp_consensus = main_params, hp_pow = example_pow, hp_validate = False, hashGenesisBlock = 7, nAssetsTimestamp = 1666202400\<rparr>"


section \<open>What an accepted header satisfies\<close>

lemma check_time_bounds:
  assumes "check_time params t H q block = Inr ()"
  shows "GetMedianTimePast H q < header_time block" "header_time block \<le> t + MAX_FUTURE_BLOCK_TIME"
  using assms
  by (auto simp: check_time_def Let_def MAX_FUTURE_BLOCK_TIME_def MAX_FUTURE_BLOCK_TIME_DGW_def MAX_FUTURE_BLOCK_TIME_DUAL_ALGO_def split: if_splits)

lemma CheckPoW_target:
  assumes "pow_cache_ok (hp_pow hp) c" "pow_hash_ok hp block" "CheckBlockHeader hp True block c = (Inr u, c')"
  shows "unat (ComputePoWHash (hp_pow hp) block) \<le> limb_val (fst (SetCompact (h_nBits block)))"
proof -
  have cp: "pow_cache_ok (hp_pow hp) c' \<and> (r = Inr True \<longrightarrow> unat (ComputePoWHash (hp_pow hp) block) \<le> limb_val (fst (SetCompact (h_nBits block))))"
    if p: "CheckProofOfWork (hp_pow hp) v (hp_consensus hp) k block c = (r, c')" "pow_cache_ok (hp_pow hp) c" for v k c r c'
  proof -
    obtain c0 where g: "GetHash (hp_pow hp) v k block c = (ComputePoWHash (hp_pow hp) block, c0)" "pow_cache_ok (hp_pow hp) c0"
      using GetHash_cache [OF p(2) assms(2)] by (cases "GetHash (hp_pow hp) v k block c") blast
    have ct: "check_target x n l \<Longrightarrow> unat x \<le> limb_val (fst (SetCompact n))" for x n l
      using au.cmp [OF UintToArith256_val(2) SetCompact_val(2), of x n]
      by (auto simp: check_target_def UintToArith256_val split: prod.splits if_splits)
    show ?thesis using p(1) g
      by (auto simp: CheckProofOfWork_def CheckProofOfWork_hash_def CheckProofOfWorkDualAlgo_def ebind_eq_Inr dest!: ct split: if_splits prod.splits)
  qed
  show ?thesis using assms(3) cp [OF _ assms(1)] cp
    by (auto simp: CheckBlockHeader_def CheckPoW_def split: sum.splits prod.splits if_splits)
qed

lemma accept_checks_success:
  assumes "pow_cache_ok (hp_pow hp) (hs_powCache st)" "pow_hash_ok hp block" "accept_checks ctx hp block st = (Inr (), st1)"
  shows "\<exists>q. mapBlockIndex (hs_index st) (hashPrevBlock block) = Some q \<and> nStatus (blocks (hs_index st) ! q) AND BLOCK_FAILED_MASK = 0 \<and>
    check_work (hp_consensus hp) (blocks (hs_index st)) q block = Inr () \<and>
    check_time (hp_consensus hp) (nAdjustedTime ctx) (blocks (hs_index st)) q block = Inr () \<and>
    (\<not> fInitialBlockDownload ctx \<longrightarrow> unat (ComputePoWHash (hp_pow hp) block) \<le> limb_val (fst (SetCompact (h_nBits block))))"
proof -
  obtain r0 c where c: "(if \<not> fInitialBlockDownload ctx then CheckBlockHeader hp True block (hs_powCache st) else (Inr (), hs_powCache st)) = (r0, c)"
    by fastforce
  have cc: "check_work (hp_consensus hp) (blocks S) q block = Inr () \<and> check_time (hp_consensus hp) (nAdjustedTime ctx) (blocks S) q block = Inr ()"
    if "ContextualCheckBlockHeader ctx hp S a q block = (Inr u, a')" for S a q u a'
    using that by (auto simp: ContextualCheckBlockHeader_def Let_def ebind_eq_Inr split: sum.splits)
  obtain q a u a' where q: "r0 = Inr ()" "mapBlockIndex (hs_index st) (hashPrevBlock block) = Some q" "nStatus (blocks (hs_index st) ! q) AND BLOCK_FAILED_MASK = 0"
      "ContextualCheckBlockHeader ctx hp (hs_index st) a q block = (Inr u, a')"
    using assms(3) unfolding accept_checks_def c by (auto simp: Let_def split: sum.splits option.splits if_splits prod.splits)
  have "unat (ComputePoWHash (hp_pow hp) block) \<le> limb_val (fst (SetCompact (h_nBits block)))" if "\<not> fInitialBlockDownload ctx"
    using CheckPoW_target [OF assms(1,2)] c q(1) that by auto
  then show ?thesis using q(2,3) cc [OF q(4)] by blast
qed

lemma accept_add_new:
  assumes "pow_cache_ok (hp_pow hp) (hs_powCache st)" "index_inv (hs_index st)" "pow_hash_ok hp block" "accept_add hp block st = (Inr p, st')"
    and "mapBlockIndex (hs_index st) (ComputePoWHash (hp_pow hp) block) = None" "mapBlockIndex (hs_index st) (hashPrevBlock block) = Some q"
  defines "H \<equiv> blocks (hs_index st)" and "H' \<equiv> blocks (hs_index st')"
  shows "q < length H \<and> H' = H @ [H' ! p] \<and> index_GetBlockHeader H' (H' ! p) = block \<and> nHeight (H' ! p) = nHeight (H ! q) + 1 \<and>
    mapBlockIndex (hs_index st') (ComputePoWHash (hp_pow hp) block) = Some p"
proof -
  let ?h = "ComputePoWHash (hp_pow hp) block" and ?S = "hs_index st"
  obtain c where c: "GetHash (hp_pow hp) (hp_validate hp) True block (hs_powCache st) = (?h, c)"
    using GetHash_cache [OF assms(1,3)] by (cases "GetHash (hp_pow hp) (hp_validate hp) True block (hs_powCache st)") blast
  have ne: "?h \<noteq> hashPrevBlock block" using assms(3) unfolding pow_hash_ok_def by blast
  obtain S' where a: "AddToBlockIndex ?h block ?S = Inr (p, S')" "index_inv S'" "mapBlockIndex S' ?h = Some p" "index_GetBlockHeader (blocks S') (blocks S' ! p) = block"
      and st': "hs_index st' = S'"
    using AddToBlockIndex_inv [OF assms(2) ne] assms(4-6) by (auto simp: accept_add_def c)
  have "S' \<noteq> ?S" using a(3) assms(5) by auto
  with AddToBlockIndex_cases [OF a(1) ne] obtain b where b: "p = length H" "blocks S' = H @ [b]" "pprev b = Some q"
    using assms(6) by (auto simp: H_def)
  have q: "q < length H" using assms(2,6) by (auto simp: index_inv_def H_def)
  have "block_tree (blocks S')" "p < length (blocks S')" "pprev (blocks S' ! p) = Some q" using a(2) b by (auto simp: index_inv_def)
  from tree_prev(2) [OF this] have "nHeight (blocks S' ! p) = nHeight (H ! q) + 1" using b(2) q by (simp add: nth_append)
  then show ?thesis using a st' b q by (simp add: H'_def)
qed


definition example_ctx :: node_context where
  "example_ctx = \<lparr>chainActive = [], nNodeCount = None, now = 1630067900, nAdjustedTime = 1630067900, fInitialBlockDownload = True,
     nMaxReorgDepth = 60, nMinReorgPeers = 4, nMinReorgAge = 43200, fCheckpointsEnabled = False, mapCheckpoints = []\<rparr>"

definition example_genesis :: CBlockHeader where
  "example_genesis = CBlockHeader_null\<lparr>h_nTime := 1630067829, h_nBits := 0x1e00ffff, h_nVersion := 4\<rparr>"

definition example_block :: CBlockHeader where
  "example_block = CBlockHeader_null\<lparr>hashPrevBlock := 7, h_nTime := 1630067860, h_nBits := 0x1e0fffff, h_nVersion := 4\<rparr>"

lemma main_limit_compact: "get_compact (UintToArith256 (powLimit main_params)) = Inr 0x1e0fffff"
proof -
  let ?a = "UintToArith256 (powLimit main_params)"
  obtain c s where c: "GetCompact ?a False = Some c" "unat c = s * 2 ^ 24 + mantissa s (limb_val ?a)"
      "mantissa s (limb_val ?a) < 2 ^ 23" "limb_val ?a \<noteq> 0 \<longrightarrow> 2 ^ 15 \<le> mantissa s (limb_val ?a)"
    using GetCompact_fields [of ?a] UintToArith256_val(2) by blast
  have v: "limb_val ?a = 0x00000fffffffffffffffffffffffffffffffffffffffffffffffffffffffffff" by (simp add: UintToArith256_val main_params_def)
  then have m: "mantissa 30 (limb_val ?a) = 0xfffff" by (simp add: mantissa_def)
  have "s = 30" using mantissa_unique [of s "limb_val ?a" 30] c(3,4) m v by simp
  then have "unat c = unat (0x1e0fffff :: 32 word)" using c(2) m by simp
  then have "c = 0x1e0fffff" by (rule unsigned_word_eqI)
  then show ?thesis using c(1) by (simp add: get_compact_def)
qed

text \<open>The state with the genesis block alone accepts the example block.\<close>

lemma example_genesis_state:
  "\<exists>S b. AddToBlockIndex 7 example_genesis empty_index = Inr (0, S) \<and> blocks S = [b] \<and> mapBlockIndex S = [7 \<mapsto> 0] \<and>
     pprev b = None \<and> b_nTime b = 1630067829 \<and> b_nBits b = 0x1e00ffff \<and> nHeight b = 0 \<and> nStatus b = BLOCK_VALID_TREE"
proof -
  obtain w where "GetBlockProof (set_time_max [] ((CBlockIndex_new example_genesis)\<lparr>nSequenceId := 0, phashBlock := 7\<rparr>)) = Some w"
    using GetBlockProof_val by blast
  then show ?thesis
    by (auto simp: AddToBlockIndex_def empty_index_def link_entry_def set_chain_work_def Let_def set_time_max_def prev_field_def
        CBlockIndex_new_def example_genesis_def CBlockHeader_null_def RaiseValidity_def BLOCK_VALID_TREE_def BLOCK_VALID_MASK_def
        BLOCK_FAILED_MASK_def)
qed

lemma main_fields:
  "powForkTime main_params = 1638847407" "fPowAllowMinDifficultyBlocks main_params = False" "nDGWActivationBlock main_params = 0"
  "DifficultyAdjustmentInterval main_params = 2016"
  by (simp_all add: main_params_def DifficultyAdjustmentInterval_def signed_divide_int_def)

lemma example_accepts:
  assumes "blocks S = [b]" "pprev b = None" "b_nTime b = 1630067829" "b_nBits b = 0x1e00ffff" "nHeight b = 0"
  shows "ContextualCheckBlockHeader example_ctx example_hp S False 0 example_block = (Inr (), False)"
proof -
  have dual: "\<not> IsDualAlgoEnabled (powForkTime main_params) (Some b)" using assms(3) by (simp add: IsDualAlgoEnabled_def main_fields)
  have "DarkGravityWave [b] 0 example_block main_params = Inr 0x1e0fffff"
    unfolding DarkGravityWave_def Let_def main_limit_compact using assms(5) by (simp add: nPastBlocks_def)
  moreover have "GetNextWorkRequiredBTC [b] 0 example_block main_params = Inr 0x1e00ffff"
    unfolding GetNextWorkRequiredBTC_def Let_def main_limit_compact using assms(4,5) by (simp add: main_fields)
  ultimately have "check_work main_params [b] 0 example_block = Inr ()"
    using dual assms(5) by (simp add: check_work_def GetNextWorkRequired_def pow_fault_def IsDGWActive_def main_fields example_block_def)
  moreover have "check_time main_params 1630067900 [b] 0 example_block = Inr ()"
  proof -
    have none: "times_back H n None = []" for H n by (cases n) simp_all
    have span: "nMedianTimeSpan = Suc 10" by (simp add: nMedianTimeSpan_def)
    have "GetMedianTimePast [b] 0 = 1630067829" using assms(2,3) unfolding GetMedianTimePast_def span times_back.simps by (simp add: none GetBlockTime_def)
    then show ?thesis using dual assms(5)
      by (simp add: check_time_def IsDGWActive_def main_fields example_block_def header_time_def MAX_FUTURE_BLOCK_TIME_DGW_def MAX_FUTURE_BLOCK_TIME_def)
  qed
  ultimately show ?thesis using assms(1,5) dual
    by (simp add: ContextualCheckBlockHeader_def example_hp_def example_ctx_def check_reorg_def AreAssetsDeployed_def chain_Tip_def)
qed


end
