(* ===== verification/Asset_Names.thy ===== *)
theory Asset_Names
  imports Avian_Prelude "HOL-Library.Sublist"
begin

text \<open>
  Names of assets: the regular expressions and predicates at the head of \<^verbatim>\<open>src/assets/assets.cpp\<close>.  A \<open>std::string\<close> is its list of
  bytes.  A regular expression is a list of alternatives, each a list of items: one character of a class, or at least
  \<open>n\<close> characters of a class; \<open>regex_match\<close> matches the whole string, as in the library, and a dot matches any character
  but a line terminator.  The texts of error messages are left out.

  The second part gives the grammar the predicates implement, and shows the two equal.
\<close>

section \<open>Regular expressions\<close>

type_synonym std_string = "byte list"

definition str :: "string \<Rightarrow> std_string" where "str s = map of_char s"

datatype rx = Chr "byte \<Rightarrow> bool" | Rep nat "byte \<Rightarrow> bool"

fun rx_match :: "rx list \<Rightarrow> std_string \<Rightarrow> bool" where
  "rx_match [] s \<longleftrightarrow> s = []"
| "rx_match (Chr C # r) s \<longleftrightarrow> (case s of [] \<Rightarrow> False | c # s' \<Rightarrow> C c \<and> rx_match r s')"
| "rx_match (Rep n C # r) s \<longleftrightarrow> list_ex (\<lambda>k. list_all C (take k s) \<and> rx_match r (drop k s)) [n..<Suc (length s)]"

definition any_of :: "string \<Rightarrow> byte \<Rightarrow> bool" where "any_of cs b = list_ex (\<lambda>c. of_char c = b) cs"

definition range_az :: "byte \<Rightarrow> bool" where "range_az b = (0x61 \<le> b \<and> b \<le> 0x7A)"

definition range_AZ :: "byte \<Rightarrow> bool" where "range_AZ b = (0x41 \<le> b \<and> b \<le> 0x5A)"

definition range_09 :: "byte \<Rightarrow> bool" where "range_09 b = (0x30 \<le> b \<and> b \<le> 0x39)"

text \<open>The classes \<open>[A-Z0-9._]\<close>, \<open>[._]\<close> and the dot.\<close>

definition name_char :: "byte \<Rightarrow> bool" where "name_char b = (range_AZ b \<or> range_09 b \<or> any_of ''._'' b)"

definition punct :: "byte \<Rightarrow> bool" where "punct b = any_of ''._'' b"

definition dot :: "byte \<Rightarrow> bool" where "dot b = (b \<noteq> 10 \<and> b \<noteq> 13)"

datatype regex =
    ROOT_NAME_CHARACTERS | SUB_NAME_CHARACTERS | UNIQUE_TAG_CHARACTERS | MSG_CHANNEL_TAG_CHARACTERS | VOTE_TAG_CHARACTERS
  | QUALIFIER_NAME_CHARACTERS | SUB_QUALIFIER_NAME_CHARACTERS | RESTRICTED_NAME_CHARACTERS
  | DOUBLE_PUNCTUATION | LEADING_PUNCTUATION | TRAILING_PUNCTUATION | QUALIFIER_LEADING_PUNCTUATION
  | UNIQUE_INDICATOR | MSG_CHANNEL_INDICATOR | OWNER_INDICATOR | VOTE_INDICATOR
  | QUALIFIER_INDICATOR | SUB_QUALIFIER_INDICATOR | RESTRICTED_INDICATOR | AVIAN_NAMES

definition lit :: "string \<Rightarrow> rx list" where "lit s = map (\<lambda>c. Chr (any_of [c])) s"

fun regex_items :: "regex \<Rightarrow> rx list list" where
  "regex_items ROOT_NAME_CHARACTERS = [[Rep 3 name_char]]"
| "regex_items SUB_NAME_CHARACTERS = [[Rep 1 name_char]]"
| "regex_items UNIQUE_TAG_CHARACTERS = [[Rep 1 (\<lambda>b. range_AZ b \<or> range_az b \<or> range_09 b \<or> any_of ''-@$%&*()[]{}_.?:'' b)]]"
| "regex_items MSG_CHANNEL_TAG_CHARACTERS = [[Rep 1 (\<lambda>b. range_AZ b \<or> range_az b \<or> range_09 b \<or> any_of ''_'' b)]]"
| "regex_items VOTE_TAG_CHARACTERS = [[Rep 1 name_char]]"
| "regex_items QUALIFIER_NAME_CHARACTERS = [lit ''#'' @ [Rep 3 name_char]]"
| "regex_items SUB_QUALIFIER_NAME_CHARACTERS = [lit ''#'' @ [Rep 1 name_char]]"
| "regex_items RESTRICTED_NAME_CHARACTERS = [lit ''$'' @ [Rep 3 name_char]]"
| "regex_items DOUBLE_PUNCTUATION = [[Rep 0 dot, Rep 2 punct, Rep 0 dot]]"
| "regex_items LEADING_PUNCTUATION = [[Chr punct, Rep 0 dot]]"
| "regex_items TRAILING_PUNCTUATION = [[Rep 0 dot, Chr punct]]"
| "regex_items QUALIFIER_LEADING_PUNCTUATION = [[Chr (any_of ''#$''), Chr punct, Rep 0 dot]]"
| "regex_items UNIQUE_INDICATOR = [[Rep 1 (\<lambda>b. \<not> any_of ''^~#!'' b)] @ lit ''#'' @ [Rep 1 (\<lambda>b. \<not> any_of ''~#!/'' b)]]"
| "regex_items MSG_CHANNEL_INDICATOR = [[Rep 1 (\<lambda>b. \<not> any_of ''^~#!'' b)] @ lit ''~'' @ [Rep 1 (\<lambda>b. \<not> any_of ''~#!/'' b)]]"
| "regex_items OWNER_INDICATOR = [[Rep 1 (\<lambda>b. \<not> any_of ''^~#!'' b)] @ lit ''!'']"
| "regex_items VOTE_INDICATOR = [[Rep 1 (\<lambda>b. \<not> any_of ''^~#!'' b)] @ lit ''^'' @ [Rep 1 (\<lambda>b. \<not> any_of ''~#!/'' b)]]"
| "regex_items QUALIFIER_INDICATOR = [lit ''#'' @ [Rep 3 name_char]]"
| "regex_items SUB_QUALIFIER_INDICATOR = [lit ''#'' @ [Rep 1 name_char] @ lit ''/#'' @ [Rep 1 name_char]]"
| "regex_items RESTRICTED_INDICATOR = [lit ''$'' @ [Rep 3 name_char]]"
| "regex_items AVIAN_NAMES = map lit [''RVN'', ''AVN'', ''AVIAN'', ''AVIAN'', ''#AVN'', ''#AVIAN'', ''#AVIAN'']"

definition regex_match :: "std_string \<Rightarrow> regex \<Rightarrow> bool" where
  "regex_match s r = list_ex (\<lambda>items. rx_match items s) (regex_items r)"

section \<open>Predicates on names\<close>

definition MAX_NAME_LENGTH :: nat where "MAX_NAME_LENGTH = 31"

definition MAX_CHANNEL_NAME_LENGTH :: nat where "MAX_CHANNEL_NAME_LENGTH = 12"

definition MIN_ASSET_LENGTH :: nat where "MIN_ASSET_LENGTH = 3"

datatype AssetType = ROOT | SUB | UNIQUE | MSGCHANNEL | QUALIFIER | SUB_QUALIFIER | RESTRICTED | VOTE | REISSUE | OWNER | NULL_ADD_QUALIFIER | INVALID

definition IsRootNameValid :: "std_string \<Rightarrow> bool" where
  "IsRootNameValid name \<longleftrightarrow> regex_match name ROOT_NAME_CHARACTERS \<and> \<not> regex_match name DOUBLE_PUNCTUATION \<and>
     \<not> regex_match name LEADING_PUNCTUATION \<and> \<not> regex_match name TRAILING_PUNCTUATION \<and> \<not> regex_match name AVIAN_NAMES"

definition IsQualifierNameValid :: "std_string \<Rightarrow> bool" where
  "IsQualifierNameValid name \<longleftrightarrow> regex_match name QUALIFIER_NAME_CHARACTERS \<and> \<not> regex_match name DOUBLE_PUNCTUATION \<and>
     \<not> regex_match name QUALIFIER_LEADING_PUNCTUATION \<and> \<not> regex_match name TRAILING_PUNCTUATION \<and> \<not> regex_match name AVIAN_NAMES"

definition IsRestrictedNameValid :: "std_string \<Rightarrow> bool" where
  "IsRestrictedNameValid name \<longleftrightarrow> regex_match name RESTRICTED_NAME_CHARACTERS \<and> \<not> regex_match name DOUBLE_PUNCTUATION \<and>
     \<not> regex_match name LEADING_PUNCTUATION \<and> \<not> regex_match name TRAILING_PUNCTUATION \<and> \<not> regex_match name AVIAN_NAMES"

definition IsSubQualifierNameValid :: "std_string \<Rightarrow> bool" where
  "IsSubQualifierNameValid name \<longleftrightarrow> regex_match name SUB_QUALIFIER_NAME_CHARACTERS \<and> \<not> regex_match name DOUBLE_PUNCTUATION \<and>
     \<not> regex_match name LEADING_PUNCTUATION \<and> \<not> regex_match name TRAILING_PUNCTUATION"

definition IsSubNameValid :: "std_string \<Rightarrow> bool" where
  "IsSubNameValid name \<longleftrightarrow> regex_match name SUB_NAME_CHARACTERS \<and> \<not> regex_match name DOUBLE_PUNCTUATION \<and>
     \<not> regex_match name LEADING_PUNCTUATION \<and> \<not> regex_match name TRAILING_PUNCTUATION"

definition IsUniqueTagValid :: "std_string \<Rightarrow> bool" where
  "IsUniqueTagValid tag \<longleftrightarrow> regex_match tag UNIQUE_TAG_CHARACTERS"

definition IsVoteTagValid :: "std_string \<Rightarrow> bool" where
  "IsVoteTagValid tag \<longleftrightarrow> regex_match tag VOTE_TAG_CHARACTERS"

definition IsMsgChannelTagValid :: "std_string \<Rightarrow> bool" where
  "IsMsgChannelTagValid tag \<longleftrightarrow> regex_match tag MSG_CHANNEL_TAG_CHARACTERS \<and> \<not> regex_match tag DOUBLE_PUNCTUATION \<and>
     \<not> regex_match tag LEADING_PUNCTUATION \<and> \<not> regex_match tag TRAILING_PUNCTUATION"

text \<open>\<open>boost::split\<close> at a character: the parts between the delimiters, empty ones included.\<close>

fun split :: "byte \<Rightarrow> std_string \<Rightarrow> std_string list" where
  "split d [] = [[]]"
| "split d (c # s) = (if c = d then [] # split d s else (case split d s of p # ps \<Rightarrow> (c # p) # ps | [] \<Rightarrow> [[c]]))"

abbreviation "SUB_NAME_DELIMITER \<equiv> (0x2F :: byte)"
abbreviation "UNIQUE_TAG_DELIMITER \<equiv> (0x23 :: byte)"
abbreviation "MSG_CHANNEL_TAG_DELIMITER \<equiv> (0x7E :: byte)"
abbreviation "VOTE_TAG_DELIMITER \<equiv> (0x5E :: byte)"
abbreviation "OWNER_TAG \<equiv> (0x21 :: byte)"
abbreviation "RESTRICTED_CHAR \<equiv> (0x24 :: byte)"

definition IsNameValidBeforeTag :: "std_string \<Rightarrow> bool" where
  "IsNameValidBeforeTag name =
     (let parts = split SUB_NAME_DELIMITER name in IsRootNameValid (hd parts) \<and> list_all IsSubNameValid (tl parts))"

definition IsQualifierNameValidBeforeTag :: "std_string \<Rightarrow> bool" where
  "IsQualifierNameValidBeforeTag name =
     (let parts = split SUB_NAME_DELIMITER name in
      if \<not> IsQualifierNameValid (hd parts) then False
      else if length parts > 2 then False
      else list_all IsSubQualifierNameValid (tl parts))"

definition IsAssetNameASubasset :: "std_string \<Rightarrow> bool" where
  "IsAssetNameASubasset name =
     (let parts = split SUB_NAME_DELIMITER name in if \<not> IsRootNameValid (hd parts) then False else length parts > 1)"

definition IsAssetNameASubQualifier :: "std_string \<Rightarrow> bool" where
  "IsAssetNameASubQualifier name =
     (let parts = split SUB_NAME_DELIMITER name in if \<not> IsQualifierNameValid (hd parts) then False else length parts > 1)"

definition IsTypeCheckNameValid :: "AssetType \<Rightarrow> std_string \<Rightarrow> bool" where
  "IsTypeCheckNameValid type name =
     (if type = UNIQUE then
        if length name > MAX_NAME_LENGTH then False
        else let parts = split UNIQUE_TAG_DELIMITER name in IsNameValidBeforeTag (hd parts) \<and> IsUniqueTagValid (last parts)
      else if type = MSGCHANNEL then
        if length name > MAX_NAME_LENGTH then False
        else let parts = split MSG_CHANNEL_TAG_DELIMITER name;
                 valid = (IsNameValidBeforeTag (hd parts) \<and> IsMsgChannelTagValid (last parts)) in
          if length (last parts) > MAX_CHANNEL_NAME_LENGTH then False else valid
      else if type = OWNER then
        if length name > MAX_NAME_LENGTH then False else IsNameValidBeforeTag (take (length name - 1) name)
      else if type = VOTE then
        if length name > MAX_NAME_LENGTH then False
        else let parts = split VOTE_TAG_DELIMITER name in IsNameValidBeforeTag (hd parts) \<and> IsVoteTagValid (last parts)
      else if type = QUALIFIER \<or> type = SUB_QUALIFIER then
        if length name > MAX_NAME_LENGTH then False else IsQualifierNameValidBeforeTag name
      else if type = RESTRICTED then
        if length name > MAX_NAME_LENGTH then False else IsRestrictedNameValid name
      else
        if length name > MAX_NAME_LENGTH - 1 then False
        else if \<not> IsAssetNameASubasset name \<and> length name < MIN_ASSET_LENGTH then False
        else IsNameValidBeforeTag name)"

text \<open>The answer, and the type found; for names longer than 40 the code leaves the type unset.\<close>

definition IsAssetNameValid :: "std_string \<Rightarrow> bool \<times> AssetType" where
  "IsAssetNameValid name =
     (let check = (\<lambda>type. let ret = IsTypeCheckNameValid type name in (ret, if ret then type else INVALID)) in
      if length name > 40 then (False, INVALID)
      else if regex_match name UNIQUE_INDICATOR then check UNIQUE
      else if regex_match name MSG_CHANNEL_INDICATOR then check MSGCHANNEL
      else if regex_match name OWNER_INDICATOR then check OWNER
      else if regex_match name VOTE_INDICATOR then check VOTE
      else if regex_match name QUALIFIER_INDICATOR then
        let ret = IsTypeCheckNameValid QUALIFIER name in
        (ret, if ret then if IsAssetNameASubQualifier name then SUB_QUALIFIER else QUALIFIER else INVALID)
      else if regex_match name SUB_QUALIFIER_INDICATOR then
        let ret = IsTypeCheckNameValid SUB_QUALIFIER name in
        (ret, if ret then if IsAssetNameASubQualifier name then SUB_QUALIFIER else INVALID else INVALID)
      else if regex_match name RESTRICTED_INDICATOR then check RESTRICTED
      else check (if IsAssetNameASubasset name then SUB else ROOT))"

definition IsAssetNameAnOwner :: "std_string \<Rightarrow> bool" where
  "IsAssetNameAnOwner name \<longleftrightarrow> fst (IsAssetNameValid name) \<and> regex_match name OWNER_INDICATOR"

definition IsAssetNameAnRestricted :: "std_string \<Rightarrow> bool" where
  "IsAssetNameAnRestricted name \<longleftrightarrow> fst (IsAssetNameValid name) \<and> regex_match name RESTRICTED_INDICATOR"

definition IsAssetNameAQualifier :: "std_string \<Rightarrow> bool \<Rightarrow> bool" where
  "IsAssetNameAQualifier name fOnlyQualifiers \<longleftrightarrow>
     fst (IsAssetNameValid name) \<and> (regex_match name QUALIFIER_INDICATOR \<or> \<not> fOnlyQualifiers \<and> regex_match name SUB_QUALIFIER_INDICATOR)"

definition IsAssetNameAnMsgChannel :: "std_string \<Rightarrow> bool" where
  "IsAssetNameAnMsgChannel name \<longleftrightarrow> fst (IsAssetNameValid name) \<and> regex_match name MSG_CHANNEL_INDICATOR"

definition RestrictedNameToOwnerName :: "std_string \<Rightarrow> std_string" where
  "RestrictedNameToOwnerName name = (if \<not> IsAssetNameAnRestricted name then [] else tl name @ [OWNER_TAG])"

text \<open>The part before the last occurrence of a character, or the whole string if there is none.\<close>

definition before_last :: "byte \<Rightarrow> std_string \<Rightarrow> std_string" where
  "before_last d name = (if d \<in> set name then rev (tl (dropWhile (\<lambda>c. c \<noteq> d) (rev name))) else name)"

definition GetParentName :: "std_string \<Rightarrow> std_string" where
  "GetParentName name =
     (case IsAssetNameValid name of (valid, type) \<Rightarrow>
        if \<not> valid then []
        else if type = SUB then before_last SUB_NAME_DELIMITER name
        else if type = UNIQUE then before_last UNIQUE_TAG_DELIMITER name
        else if type = MSGCHANNEL then before_last MSG_CHANNEL_TAG_DELIMITER name
        else if type = VOTE then before_last VOTE_TAG_DELIMITER name
        else if type = SUB_QUALIFIER then before_last SUB_NAME_DELIMITER name
        else name)"

definition GetUniqueAssetName :: "std_string \<Rightarrow> std_string \<Rightarrow> std_string" where
  "GetUniqueAssetName parent tag =
     (let unique = parent @ [UNIQUE_TAG_DELIMITER] @ tag in
      case IsAssetNameValid unique of (valid, type) \<Rightarrow> if \<not> valid then [] else if type \<noteq> UNIQUE then [] else unique)"

section \<open>Matching\<close>

lemma rx_Rep: "rx_match (Rep n C # r) s \<longleftrightarrow> (\<exists>a b. s = a @ b \<and> n \<le> length a \<and> list_all C a \<and> rx_match r b)"
proof
  assume "rx_match (Rep n C # r) s"
  then obtain k where "n \<le> k" "k \<le> length s" "list_all C (take k s)" "rx_match r (drop k s)" by (auto simp: list_ex_iff less_Suc_eq_le)
  then show "\<exists>a b. s = a @ b \<and> n \<le> length a \<and> list_all C a \<and> rx_match r b" by (intro exI [of _ "take k s"] exI [of _ "drop k s"]) simp
next
  assume "\<exists>a b. s = a @ b \<and> n \<le> length a \<and> list_all C a \<and> rx_match r b"
  then obtain a b where "s = a @ b" "n \<le> length a" "list_all C a" "rx_match r b" by blast
  then have "length a \<in> set [n..<Suc (length s)] \<and> list_all C (take (length a) s) \<and> rx_match r (drop (length a) s)" by simp
  then show "rx_match (Rep n C # r) s" unfolding rx_match.simps list_ex_iff by blast
qed

lemma rx_Rep_I: "n \<le> length a \<Longrightarrow> list_all C a \<Longrightarrow> rx_match r b \<Longrightarrow> rx_match (Rep n C # r) (a @ b)"
  unfolding rx_Rep by blast

lemma rx_Rep_last: "rx_match [Rep n C] s \<longleftrightarrow> n \<le> length s \<and> list_all C s"
  unfolding rx_Rep by auto

lemma rx_Chr: "rx_match (Chr C # r) s \<longleftrightarrow> (\<exists>c b. s = c # b \<and> C c \<and> rx_match r b)"
  by (auto split: list.splits)

lemma rx_lit: "rx_match (lit t @ r) s \<longleftrightarrow> (\<exists>b. s = str t @ b \<and> rx_match r b)"
proof (induction t arbitrary: s)
  case (Cons c t)
  show ?case using Cons by (cases s) (auto simp: lit_def str_def any_of_def)
qed (simp add: lit_def str_def)

lemma rx_lit_only: "rx_match (lit t) s \<longleftrightarrow> s = str t"
  using rx_lit [of t "[]" s] by auto

declare rx_match.simps(2,3) [simp del]

lemmas rx_simps = regex_match_def rx_Rep rx_Rep_last rx_Chr rx_lit rx_lit_only

lemma any_of_iff: "any_of cs b \<longleftrightarrow> b \<in> of_char ` set cs"
  by (auto simp: any_of_def list_ex_iff)

text \<open>The classes as sets of codes.\<close>

lemma classes:
  "any_of ''^~#!'' b \<longleftrightarrow> b = 0x5E \<or> b = 0x7E \<or> b = 0x23 \<or> b = 0x21" "any_of ''~#!/'' b \<longleftrightarrow> b = 0x7E \<or> b = 0x23 \<or> b = 0x21 \<or> b = 0x2F"
  "punct b \<longleftrightarrow> b = 0x2E \<or> b = 0x5F" "any_of ''#$'' b \<longleftrightarrow> b = 0x23 \<or> b = 0x24" "any_of ''_'' b \<longleftrightarrow> b = 0x5F"
  by (auto simp: any_of_iff punct_def)

lemma name_char_not:
  assumes "name_char b"
  shows "b \<noteq> 0x21" "b \<noteq> 0x23" "b \<noteq> 0x24" "b \<noteq> 0x2F" "b \<noteq> 0x5E" "b \<noteq> 0x7E" "dot b"
  using assms by (auto simp: name_char_def range_AZ_def range_09_def any_of_iff dot_def word_le_nat_alt)

section \<open>Splitting\<close>

lemma split_not_Nil [simp]: "split d s \<noteq> []"
  by (induction s) (auto split: list.splits)

lemma split_none: "d \<notin> set s \<Longrightarrow> split d s = [s]"
  by (induction s) auto

lemma split_append: "d \<notin> set a \<Longrightarrow> split d (a @ d # b) = a # split d b"
  by (induction a) auto

lemma split_snoc: "d \<notin> set b \<Longrightarrow> split d (a @ d # b) = split d a @ [b]"
proof (induction a)
  case (Cons c a)
  then show ?case by (cases "split d a") (auto split: list.splits)
qed (simp add: split_none)

lemma split_parts: "p \<in> set (split d s) \<Longrightarrow> d \<notin> set p"
proof (induction s arbitrary: p)
  case (Cons c s)
  then show ?case by (cases "split d s") (auto split: if_splits)
qed simp

text \<open>A string is one part, or a string, the delimiter and the last part.\<close>

lemma split_last_cases:
  obtains "d \<notin> set s" "split d s = [s]" | a b where "s = a @ d # b" "d \<notin> set b" "split d s = split d a @ [b]"
proof (cases "d \<in> set s")
  case True
  then obtain a b where "s = a @ d # b" "d \<notin> set b" by (metis split_list_last)
  then show ?thesis using that(2) split_snoc by blast
qed (use that(1) split_none in blast)

section \<open>Words\<close>

text \<open>No two adjacent punctuation characters.\<close>

fun no_double :: "std_string \<Rightarrow> bool" where
  "no_double (a # b # s) \<longleftrightarrow> \<not> (punct a \<and> punct b) \<and> no_double (b # s)"
| "no_double s \<longleftrightarrow> True"

definition name_word :: "std_string \<Rightarrow> bool" where
  "name_word w \<longleftrightarrow> w \<noteq> [] \<and> list_all name_char w \<and> no_double w \<and> \<not> punct (last w)"

lemma no_double_append: "no_double (a @ b) \<Longrightarrow> no_double b"
  by (induction a rule: no_double.induct) (auto elim: no_double.elims)

lemma no_double_iff: "no_double s \<longleftrightarrow> (\<forall>a b x y. s = a @ x # y # b \<longrightarrow> \<not> (punct x \<and> punct y))"
proof
  show "no_double s \<Longrightarrow> \<forall>a b x y. s = a @ x # y # b \<longrightarrow> \<not> (punct x \<and> punct y)" using no_double_append by fastforce
  show "\<forall>a b x y. s = a @ x # y # b \<longrightarrow> \<not> (punct x \<and> punct y) \<Longrightarrow> no_double s"
  proof (induction s rule: no_double.induct)
    case (1 x y s)
    have "\<not> (punct x \<and> punct y)" using 1(2) by (metis append_Nil)
    moreover have "no_double (y # s)" using 1(2) by (intro 1(1)) (metis append_Cons)
    ultimately show ?case by simp
  qed auto
qed

lemma double_punct: "list_all dot s \<Longrightarrow> regex_match s DOUBLE_PUNCTUATION \<longleftrightarrow> \<not> no_double s"
proof
  assume "regex_match s DOUBLE_PUNCTUATION"
  then obtain a p c where s: "s = a @ p @ c" "2 \<le> length p" "list_all punct p" by (auto simp: rx_simps)
  then obtain x y q where "p = x # y # q" by (metis Suc_le_length_iff numeral_2_eq_2)
  then show "\<not> no_double s" using s unfolding no_double_iff by auto
next
  assume "\<not> no_double s" "list_all dot s"
  then obtain a b x y where "s = a @ [x, y] @ b" "punct x" "punct y" unfolding no_double_iff by auto
  moreover from this have "list_all punct [x, y]" and d: "list_all dot a" "list_all dot b" using \<open>list_all dot s\<close> by auto
  moreover have "rx_match [Rep 0 dot] b" using d by (simp add: rx_Rep_last)
  ultimately have "rx_match [Rep 2 punct, Rep 0 dot] ([x, y] @ b)" by (intro rx_Rep_I) auto
  then have "rx_match [Rep 0 dot, Rep 2 punct, Rep 0 dot] (a @ [x, y] @ b)" using d rx_Rep_I [of 0 a dot] by simp
  then show "regex_match s DOUBLE_PUNCTUATION" using \<open>s = _\<close> by (simp add: regex_match_def)
qed

lemma leading_punct: "list_all dot s \<Longrightarrow> regex_match s LEADING_PUNCTUATION \<longleftrightarrow> s \<noteq> [] \<and> punct (hd s)"
  by (cases s) (auto simp: rx_simps)

lemma qualifier_leading_punct:
  "list_all dot s \<Longrightarrow> regex_match (c # s) QUALIFIER_LEADING_PUNCTUATION \<longleftrightarrow> (c = 0x23 \<or> c = 0x24) \<and> s \<noteq> [] \<and> punct (hd s)"
  by (cases s) (auto simp: rx_simps classes)

lemma trailing_punct: "list_all dot s \<Longrightarrow> regex_match s TRAILING_PUNCTUATION \<longleftrightarrow> s \<noteq> [] \<and> punct (last s)"
  by (cases s rule: rev_cases) (auto simp: rx_simps)

lemma avian_names:
  "regex_match s AVIAN_NAMES \<longleftrightarrow> s \<in> {str ''RVN'', str ''AVN'', str ''AVIAN'', 0x23 # str ''AVN'', 0x23 # str ''AVIAN''}"
  by (auto simp: rx_simps str_def)

lemmas punct_simps = double_punct leading_punct qualifier_leading_punct trailing_punct avian_names

lemma name_characters:
  "regex_match s ROOT_NAME_CHARACTERS \<longleftrightarrow> 3 \<le> length s \<and> list_all name_char s"
  "regex_match s SUB_NAME_CHARACTERS \<longleftrightarrow> s \<noteq> [] \<and> list_all name_char s"
  "regex_match s VOTE_TAG_CHARACTERS \<longleftrightarrow> s \<noteq> [] \<and> list_all name_char s"
  "regex_match s QUALIFIER_NAME_CHARACTERS \<longleftrightarrow> (\<exists>w. s = 0x23 # w \<and> 3 \<le> length w \<and> list_all name_char w)"
  "regex_match s SUB_QUALIFIER_NAME_CHARACTERS \<longleftrightarrow> (\<exists>w. s = 0x23 # w \<and> w \<noteq> [] \<and> list_all name_char w)"
  "regex_match s RESTRICTED_NAME_CHARACTERS \<longleftrightarrow> (\<exists>w. s = 0x24 # w \<and> 3 \<le> length w \<and> list_all name_char w)"
  by (simp_all add: rx_simps str_def Suc_le_eq)

lemma name_chars_dot: "list_all name_char s \<Longrightarrow> list_all dot s"
  using name_char_not(7) by (auto simp: list_all_iff)

lemma dot_marks: "dot 0x23" "dot 0x24" "\<not> punct 0x23" "\<not> punct 0x24" by (auto simp: dot_def classes)

lemma no_double_mark: "\<not> punct c \<Longrightarrow> no_double (c # s) \<longleftrightarrow> no_double s"
  by (cases s) auto

text \<open>The predicates on the parts of a name, as conditions on words.\<close>

lemma IsSubNameValid_iff: "IsSubNameValid w \<longleftrightarrow> name_word w \<and> \<not> punct (hd w)"
proof (cases "list_all name_char w")
  case True
  then show ?thesis using name_chars_dot [OF True] by (auto simp: IsSubNameValid_def name_word_def punct_simps name_characters Suc_le_eq)
qed (simp add: IsSubNameValid_def name_word_def name_characters)

lemma IsRootNameValid_iff:
  "IsRootNameValid w \<longleftrightarrow> name_word w \<and> \<not> punct (hd w) \<and> 3 \<le> length w \<and> w \<notin> {str ''RVN'', str ''AVN'', str ''AVIAN''}"
proof (cases "list_all name_char w")
  case True
  then have "0x23 \<notin> set w" using name_char_not(2) by (auto simp: list_all_iff)
  then have "w \<noteq> 0x23 # v" for v by auto
  then show ?thesis using True name_chars_dot [OF True] by (auto simp: IsRootNameValid_def name_word_def punct_simps name_characters)
qed (simp add: IsRootNameValid_def name_word_def name_characters)

lemma IsRestrictedNameValid_iff: "IsRestrictedNameValid s \<longleftrightarrow> (\<exists>w. s = 0x24 # w \<and> name_word w \<and> 3 \<le> length w)"
proof -
  have "IsRestrictedNameValid (0x24 # w) \<longleftrightarrow> name_word w \<and> 3 \<le> length w" for w
  proof (cases "list_all name_char w")
    case True
    then have "list_all dot (0x24 # w)" using name_chars_dot dot_marks by simp
    then show ?thesis using True by (auto simp: IsRestrictedNameValid_def name_word_def punct_simps name_characters str_def dot_marks no_double_mark)
  qed (simp add: IsRestrictedNameValid_def name_word_def name_characters str_def)
  moreover have "IsRestrictedNameValid s \<Longrightarrow> \<exists>w. s = 0x24 # w" by (auto simp: IsRestrictedNameValid_def name_characters)
  ultimately show ?thesis by auto
qed

lemma IsQualifierNameValid_iff:
  "IsQualifierNameValid s \<longleftrightarrow> (\<exists>w. s = 0x23 # w \<and> name_word w \<and> \<not> punct (hd w) \<and> 3 \<le> length w \<and> w \<notin> {str ''AVN'', str ''AVIAN''})"
proof -
  have "IsQualifierNameValid (0x23 # w) \<longleftrightarrow> name_word w \<and> \<not> punct (hd w) \<and> 3 \<le> length w \<and> w \<notin> {str ''AVN'', str ''AVIAN''}" for w
  proof (cases "list_all name_char w")
    case True
    then have "list_all dot (0x23 # w)" "list_all dot w" using name_chars_dot dot_marks by simp_all
    then show ?thesis using True by (auto simp: IsQualifierNameValid_def name_word_def punct_simps name_characters str_def dot_marks no_double_mark)
  qed (simp add: IsQualifierNameValid_def name_word_def name_characters str_def)
  moreover have "IsQualifierNameValid s \<Longrightarrow> \<exists>w. s = 0x23 # w" by (auto simp: IsQualifierNameValid_def name_characters)
  ultimately show ?thesis by auto
qed

lemma IsSubQualifierNameValid_iff: "IsSubQualifierNameValid s \<longleftrightarrow> (\<exists>w. s = 0x23 # w \<and> name_word w)"
proof -
  have "IsSubQualifierNameValid (0x23 # w) \<longleftrightarrow> name_word w" for w
  proof (cases "list_all name_char w")
    case True
    then have "list_all dot (0x23 # w)" using name_chars_dot dot_marks by simp
    then show ?thesis using True by (auto simp: IsSubQualifierNameValid_def name_word_def punct_simps name_characters str_def dot_marks no_double_mark Suc_le_eq)
  qed (simp add: IsSubQualifierNameValid_def name_word_def name_characters str_def)
  moreover have "IsSubQualifierNameValid s \<Longrightarrow> \<exists>w. s = 0x23 # w" by (auto simp: IsSubQualifierNameValid_def name_characters)
  ultimately show ?thesis by auto
qed

section \<open>The grammar\<close>

definition root_word :: "std_string \<Rightarrow> bool" where
  "root_word w \<longleftrightarrow> name_word w \<and> \<not> punct (hd w) \<and> 3 \<le> length w \<and> w \<noteq> str ''RVN'' \<and> w \<noteq> str ''AVN'' \<and> w \<noteq> str ''AVIAN''"

definition sub_word :: "std_string \<Rightarrow> bool" where
  "sub_word w \<longleftrightarrow> name_word w \<and> \<not> punct (hd w)"

inductive asset_path :: "std_string \<Rightarrow> bool" where
  Root: "root_word w \<Longrightarrow> asset_path w"
| Sub: "asset_path n \<Longrightarrow> sub_word w \<Longrightarrow> asset_path (n @ 0x2F # w)"

definition unique_char :: "byte \<Rightarrow> bool" where
  "unique_char b \<longleftrightarrow> range_AZ b \<or> range_az b \<or> range_09 b \<or> any_of ''-@$%&*()[]{}_.?:'' b"

definition channel_tag :: "std_string \<Rightarrow> bool" where
  "channel_tag t \<longleftrightarrow> t \<noteq> [] \<and> length t \<le> 12 \<and> list_all (\<lambda>b. range_AZ b \<or> range_az b \<or> range_09 b \<or> b = 0x5F) t \<and>
     no_double t \<and> hd t \<noteq> 0x5F \<and> last t \<noteq> 0x5F"

text \<open>
  One rule per type.  The tag of a vote name may be preceded by anything that ends in a caret, which the code does not look at; the
  word of a restricted asset and of a sub-qualifier may start with punctuation.
\<close>

inductive asset_name :: "AssetType \<Rightarrow> std_string \<Rightarrow> bool" where
  Name_Root: "root_word w \<Longrightarrow> length w \<le> 30 \<Longrightarrow> asset_name ROOT w"
| Name_Sub: "asset_path n \<Longrightarrow> sub_word w \<Longrightarrow> length n + length w \<le> 29 \<Longrightarrow> asset_name SUB (n @ 0x2F # w)"
| Name_Owner: "asset_path n \<Longrightarrow> length n \<le> 30 \<Longrightarrow> asset_name OWNER (n @ [0x21])"
| Name_Unique: "asset_path n \<Longrightarrow> t \<noteq> [] \<Longrightarrow> list_all unique_char t \<Longrightarrow> length n + length t \<le> 30 \<Longrightarrow> asset_name UNIQUE (n @ 0x23 # t)"
| Name_Channel: "asset_path n \<Longrightarrow> channel_tag t \<Longrightarrow> length n + length t \<le> 30 \<Longrightarrow> asset_name MSGCHANNEL (n @ 0x7E # t)"
| Name_Vote: "asset_path n \<Longrightarrow> m = [] \<or> last m = 0x5E \<Longrightarrow> list_all (\<lambda>b. b \<noteq> 0x7E \<and> b \<noteq> 0x23 \<and> b \<noteq> 0x21 \<and> b \<noteq> 0x2F) m \<Longrightarrow>
    t \<noteq> [] \<Longrightarrow> list_all name_char t \<Longrightarrow> length n + length m + length t \<le> 30 \<Longrightarrow> asset_name VOTE (n @ 0x5E # m @ t)"
| Name_Qualifier: "sub_word w \<Longrightarrow> 3 \<le> length w \<Longrightarrow> w \<noteq> str ''AVN'' \<and> w \<noteq> str ''AVIAN'' \<Longrightarrow> length w \<le> 30 \<Longrightarrow> asset_name QUALIFIER (0x23 # w)"
| Name_Sub_Qualifier: "sub_word w \<Longrightarrow> 3 \<le> length w \<Longrightarrow> w \<noteq> str ''AVN'' \<and> w \<noteq> str ''AVIAN'' \<Longrightarrow> name_word v \<Longrightarrow>
    length w + length v \<le> 28 \<Longrightarrow> asset_name SUB_QUALIFIER (0x23 # w @ 0x2F # 0x23 # v)"
| Name_Restricted: "name_word w \<Longrightarrow> 3 \<le> length w \<Longrightarrow> length w \<le> 30 \<Longrightarrow> asset_name RESTRICTED (0x24 # w)"

text \<open>What the words and paths are made of.\<close>

definition mark :: "byte \<Rightarrow> bool" where "mark b \<longleftrightarrow> b \<in> {0x21, 0x23, 0x24, 0x5E, 0x7E}"

lemma words_chars:
  "name_word w \<Longrightarrow> list_all name_char w" "sub_word w \<Longrightarrow> list_all name_char w" "root_word w \<Longrightarrow> list_all name_char w"
  "name_word w \<Longrightarrow> w \<noteq> []" "sub_word w \<Longrightarrow> w \<noteq> []" "root_word w \<Longrightarrow> w \<noteq> []" "root_word w \<Longrightarrow> sub_word w"
  by (auto simp: name_word_def sub_word_def root_word_def)

lemma name_char_mark: "name_char b \<Longrightarrow> \<not> mark b"
  using name_char_not [of b] by (simp add: mark_def)

lemma name_chars_marks: "list_all name_char w \<Longrightarrow> list_all (\<lambda>b. \<not> mark b) w" "list_all name_char w \<Longrightarrow> 0x2F \<notin> set w"
  using name_char_mark name_char_not(4) [of "0x2F"] by (auto simp: list_all_iff)

lemma path_marks: "asset_path n \<Longrightarrow> n \<noteq> [] \<and> list_all (\<lambda>b. \<not> mark b) n"
proof (induction rule: asset_path.induct)
  case (Root w)
  then show ?case using words_chars name_chars_marks by blast
next
  case (Sub n w)
  moreover have "\<not> mark 0x2F" by (simp add: mark_def)
  ultimately show ?case using words_chars name_chars_marks by auto
qed

lemma path_not: "asset_path n \<Longrightarrow> mark b \<Longrightarrow> b \<notin> set n"
  using path_marks by (auto simp: list_all_iff)

lemma IsRootNameValid_word: "IsRootNameValid w \<longleftrightarrow> root_word w"
  by (simp add: IsRootNameValid_iff root_word_def)

lemma IsSubNameValid_word: "IsSubNameValid w \<longleftrightarrow> sub_word w"
  by (simp only: IsSubNameValid_iff sub_word_def)

text \<open>The check of the name before the tag accepts exactly the paths.\<close>

lemma IsNameValidBeforeTag_path: "IsNameValidBeforeTag n \<longleftrightarrow> asset_path n"
proof
  show "asset_path n \<Longrightarrow> IsNameValidBeforeTag n"
  proof (induction rule: asset_path.induct)
    case (Root w)
    then show ?case using words_chars(3) name_chars_marks(2) by (simp add: IsNameValidBeforeTag_def split_none IsRootNameValid_word)
  next
    case (Sub n w)
    then have "split 0x2F (n @ 0x2F # w) = split 0x2F n @ [w]" using words_chars(2) name_chars_marks(2) by (intro split_snoc) blast
    then show ?case using Sub by (simp add: IsNameValidBeforeTag_def Let_def IsSubNameValid_word)
  qed
  show "IsNameValidBeforeTag n \<Longrightarrow> asset_path n"
  proof (induction "length n" arbitrary: n rule: less_induct)
    case less
    show ?case
    proof (cases rule: split_last_cases [of "0x2F" n])
      case 1
      then show ?thesis using less(2) by (auto simp: IsNameValidBeforeTag_def IsRootNameValid_word intro: asset_path.Root)
    next
      case (2 a b)
      then have "IsNameValidBeforeTag a" "sub_word b" using less(2) by (auto simp: IsNameValidBeforeTag_def IsSubNameValid_word)
      then show ?thesis using less(1) [of a] 2 by (auto intro: asset_path.Sub)
    qed
  qed
qed

lemma IsAssetNameASubasset_path: "asset_path n \<Longrightarrow> IsAssetNameASubasset n \<longleftrightarrow> 0x2F \<in> set n"
proof (cases rule: split_last_cases [of "0x2F" n])
  assume n: "asset_path n"
  then have "IsRootNameValid (hd (split 0x2F n))" by (simp add: IsNameValidBeforeTag_path [symmetric] IsNameValidBeforeTag_def Let_def)
  then show "0x2F \<notin> set n \<Longrightarrow> split 0x2F n = [n] \<Longrightarrow> ?thesis" "n = a @ 0x2F # b \<Longrightarrow> split 0x2F n = split 0x2F a @ [b] \<Longrightarrow> ?thesis" for a b
    by (auto simp: IsAssetNameASubasset_def Let_def)
qed

section \<open>The check of a name accepts exactly the grammar\<close>

lemma tag_indicator:
  assumes "regex_items R = [[Rep 1 (\<lambda>b. \<not> any_of ''^~#!'' b)] @ lit [c] @ [Rep 1 (\<lambda>b. \<not> any_of ''~#!/'' b)]]"
  shows "regex_match s R \<longleftrightarrow> (\<exists>a b. s = a @ of_char c # b \<and> a \<noteq> [] \<and> b \<noteq> [] \<and>
    set a \<inter> {0x5E, 0x7E, 0x23, 0x21} = {} \<and> set b \<inter> {0x7E, 0x23, 0x21, 0x2F} = {})"
proof -
  have "list_all (\<lambda>b. \<not> any_of ''^~#!'' b) a \<longleftrightarrow> set a \<inter> {0x5E, 0x7E, 0x23, 0x21} = {}"
    "list_all (\<lambda>b. \<not> any_of ''~#!/'' b) a \<longleftrightarrow> set a \<inter> {0x7E, 0x23, 0x21, 0x2F} = {}" for a
    by (auto simp: list_all_iff classes)
  moreover have "rx_match ([Rep 1 C] @ lit [c] @ [Rep 1 D]) s \<longleftrightarrow>
      (\<exists>a b. s = a @ of_char c # b \<and> a \<noteq> [] \<and> b \<noteq> [] \<and> list_all C a \<and> list_all D b)" for C D
    by (auto simp: rx_Rep rx_Rep_last rx_lit str_def Suc_le_eq)
  ultimately show ?thesis unfolding regex_match_def assms by simp
qed

lemma indicators:
  "regex_match s UNIQUE_INDICATOR \<longleftrightarrow> (\<exists>a b. s = a @ 0x23 # b \<and> a \<noteq> [] \<and> b \<noteq> [] \<and>
     set a \<inter> {0x5E, 0x7E, 0x23, 0x21} = {} \<and> set b \<inter> {0x7E, 0x23, 0x21, 0x2F} = {})"
  "regex_match s MSG_CHANNEL_INDICATOR \<longleftrightarrow> (\<exists>a b. s = a @ 0x7E # b \<and> a \<noteq> [] \<and> b \<noteq> [] \<and>
     set a \<inter> {0x5E, 0x7E, 0x23, 0x21} = {} \<and> set b \<inter> {0x7E, 0x23, 0x21, 0x2F} = {})"
  "regex_match s VOTE_INDICATOR \<longleftrightarrow> (\<exists>a b. s = a @ 0x5E # b \<and> a \<noteq> [] \<and> b \<noteq> [] \<and>
     set a \<inter> {0x5E, 0x7E, 0x23, 0x21} = {} \<and> set b \<inter> {0x7E, 0x23, 0x21, 0x2F} = {})"
  using tag_indicator [of UNIQUE_INDICATOR "CHR ''#''" s] tag_indicator [of MSG_CHANNEL_INDICATOR "CHR ''~''" s]
    tag_indicator [of VOTE_INDICATOR "CHR ''^''" s] by simp_all

lemma owner_indicator:
  "regex_match s OWNER_INDICATOR \<longleftrightarrow> (\<exists>a. s = a @ [0x21] \<and> a \<noteq> [] \<and> set a \<inter> {0x5E, 0x7E, 0x23, 0x21} = {})"
proof -
  have "list_all (\<lambda>b. \<not> any_of ''^~#!'' b) a \<longleftrightarrow> set a \<inter> {0x5E, 0x7E, 0x23, 0x21} = {}" for a
    by (auto simp: list_all_iff classes)
  then show ?thesis by (auto simp: regex_match_def rx_Rep rx_lit_only str_def Suc_le_eq)
qed

lemma special_indicators:
  "regex_match s QUALIFIER_INDICATOR \<longleftrightarrow> (\<exists>w. s = 0x23 # w \<and> 3 \<le> length w \<and> list_all name_char w)"
  "regex_match s SUB_QUALIFIER_INDICATOR \<longleftrightarrow>
     (\<exists>w v. s = 0x23 # w @ 0x2F # 0x23 # v \<and> w \<noteq> [] \<and> v \<noteq> [] \<and> list_all name_char w \<and> list_all name_char v)"
  "regex_match s RESTRICTED_INDICATOR \<longleftrightarrow> (\<exists>w. s = 0x24 # w \<and> 3 \<le> length w \<and> list_all name_char w)"
  by (auto simp: regex_match_def rx_Rep rx_Rep_last rx_lit str_def Suc_le_eq)

lemma name_chars_not:
  assumes "list_all name_char w"
  shows "0x23 \<notin> set w" "0x24 \<notin> set w" "0x7E \<notin> set w" "0x21 \<notin> set w" "0x5E \<notin> set w" "0x2F \<notin> set w"
  using name_chars_marks [OF assms] by (auto simp: list_all_iff mark_def)

text \<open>At most one indicator matches a string; each is recognised by the marks it contains.\<close>

lemma indicator_marks:
  "regex_match s UNIQUE_INDICATOR \<Longrightarrow> 0x23 \<in> set s \<and> hd s \<noteq> 0x23 \<and> set s \<inter> {0x7E, 0x21} = {}"
  "regex_match s MSG_CHANNEL_INDICATOR \<Longrightarrow> 0x7E \<in> set s \<and> set s \<inter> {0x23, 0x21} = {}"
  "regex_match s OWNER_INDICATOR \<Longrightarrow> 0x21 \<in> set s \<and> set s \<inter> {0x23, 0x7E, 0x5E} = {}"
  "regex_match s VOTE_INDICATOR \<Longrightarrow> 0x5E \<in> set s \<and> set s \<inter> {0x23, 0x7E, 0x21} = {}"
  unfolding indicators owner_indicator using hd_in_set by (force simp: hd_append)+

lemma special_marks:
  "regex_match s QUALIFIER_INDICATOR \<Longrightarrow> hd s = 0x23 \<and> s \<noteq> [] \<and> set s \<inter> {0x7E, 0x21, 0x5E, 0x2F} = {}"
  "regex_match s SUB_QUALIFIER_INDICATOR \<Longrightarrow> hd s = 0x23 \<and> 0x2F \<in> set s \<and> set s \<inter> {0x7E, 0x21, 0x5E} = {}"
  "regex_match s RESTRICTED_INDICATOR \<Longrightarrow> hd s = 0x24 \<and> s \<noteq> [] \<and> set s \<inter> {0x23, 0x7E, 0x21, 0x5E} = {}"
  unfolding special_indicators by (auto simp: name_chars_not)

inductive_simps asset_name_simps:
  "asset_name ROOT s" "asset_name SUB s" "asset_name OWNER s" "asset_name UNIQUE s" "asset_name MSGCHANNEL s" "asset_name VOTE s"
  "asset_name QUALIFIER s" "asset_name SUB_QUALIFIER s" "asset_name RESTRICTED s"
  "asset_name REISSUE s" "asset_name NULL_ADD_QUALIFIER s" "asset_name INVALID s"

inductive_cases asset_voteE: "asset_name VOTE s"

inductive_cases asset_sub_qualifierE: "asset_name SUB_QUALIFIER s"

lemma path_disjoint: "asset_path n \<Longrightarrow> n \<noteq> [] \<and> set n \<inter> {0x5E, 0x7E, 0x23, 0x21} = {}"
  using path_marks [of n] by (auto simp: list_all_iff mark_def)

lemma split_tag: "d \<notin> set a \<Longrightarrow> d \<notin> set b \<Longrightarrow> split d (a @ d # b) = [a, b]"
  by (simp add: split_append split_none)

lemma unique_chars_not: "list_all unique_char t \<Longrightarrow> set t \<inter> {0x7E, 0x23, 0x21, 0x2F} = {}"
  by (auto simp: list_all_iff unique_char_def range_AZ_def range_az_def range_09_def any_of_iff word_le_nat_alt)

lemma IsUniqueTagValid_iff: "IsUniqueTagValid t \<longleftrightarrow> t \<noteq> [] \<and> list_all unique_char t"
  by (auto simp: IsUniqueTagValid_def regex_match_def rx_Rep_last Suc_le_eq unique_char_def list_all_iff)

lemma unique_names: "regex_match s UNIQUE_INDICATOR \<and> IsTypeCheckNameValid UNIQUE s \<longleftrightarrow> asset_name UNIQUE s" (is "?L = ?R")
proof
  assume L: ?L
  then obtain a b where s: "s = a @ 0x23 # b" "0x23 \<notin> set a" "0x23 \<notin> set b" unfolding indicators by blast
  then have "asset_path a" "b \<noteq> []" "list_all unique_char b" "length a + length b \<le> 30" using L split_tag [OF s(2,3)]
    by (auto simp: IsTypeCheckNameValid_def MAX_NAME_LENGTH_def IsNameValidBeforeTag_path IsUniqueTagValid_iff split: if_splits)
  then show ?R using s(1) unfolding asset_name_simps by blast
next
  assume ?R
  then obtain n t where s: "s = n @ 0x23 # t" "asset_path n" "t \<noteq> []" "list_all unique_char t" "length n + length t \<le> 30" unfolding asset_name_simps by blast
  have "0x23 \<notin> set n" "0x23 \<notin> set t" using path_disjoint [OF s(2)] unique_chars_not [OF s(4)] by blast+
  then have "IsTypeCheckNameValid UNIQUE s"
    using s split_tag by (simp add: IsTypeCheckNameValid_def MAX_NAME_LENGTH_def IsNameValidBeforeTag_path IsUniqueTagValid_iff)
  moreover have "regex_match s UNIQUE_INDICATOR" unfolding indicators using s path_disjoint [OF s(2)] unique_chars_not [OF s(4)] by blast
  ultimately show ?L by simp
qed

lemma channel_chars_not: "list_all (\<lambda>b. range_AZ b \<or> range_az b \<or> range_09 b \<or> b = 0x5F) t \<Longrightarrow> set t \<inter> {0x7E, 0x23, 0x21, 0x2F} = {} \<and> list_all dot t"
  by (auto simp: list_all_iff dot_def range_AZ_def range_az_def range_09_def word_le_nat_alt)

lemma channel_punct:
  assumes "list_all (\<lambda>b. range_AZ b \<or> range_az b \<or> range_09 b \<or> b = 0x5F) t" "x \<in> set t"
  shows "punct x \<longleftrightarrow> x = 0x5F"
  using assms by (auto simp: list_all_iff classes range_AZ_def range_az_def range_09_def word_le_nat_alt)

lemma IsMsgChannelTagValid_iff: "length t \<le> 12 \<and> IsMsgChannelTagValid t \<longleftrightarrow> channel_tag t"
proof (cases "list_all (\<lambda>b. range_AZ b \<or> range_az b \<or> range_09 b \<or> b = 0x5F) t")
  case True
  then have "regex_match t MSG_CHANNEL_TAG_CHARACTERS \<longleftrightarrow> t \<noteq> []" by (auto simp: regex_match_def rx_Rep_last Suc_le_eq classes list_all_iff)
  moreover have "list_all dot t" using channel_chars_not True by blast
  moreover have "t \<noteq> [] \<Longrightarrow> (punct (hd t) \<longleftrightarrow> hd t = 0x5F) \<and> (punct (last t) \<longleftrightarrow> last t = 0x5F)" using channel_punct [OF True] by simp
  ultimately show ?thesis using True by (auto simp: IsMsgChannelTagValid_def channel_tag_def punct_simps)
qed (auto simp: IsMsgChannelTagValid_def channel_tag_def regex_match_def rx_Rep_last classes)

lemma channel_names: "regex_match s MSG_CHANNEL_INDICATOR \<and> IsTypeCheckNameValid MSGCHANNEL s \<longleftrightarrow> asset_name MSGCHANNEL s" (is "?L = ?R")
proof
  assume L: ?L
  then obtain a b where s: "s = a @ 0x7E # b" "0x7E \<notin> set a" "0x7E \<notin> set b" unfolding indicators by blast
  then have "asset_path a" "length b \<le> 12 \<and> IsMsgChannelTagValid b" "length a + length b \<le> 30" using L split_tag [OF s(2,3)]
    by (auto simp: IsTypeCheckNameValid_def MAX_NAME_LENGTH_def MAX_CHANNEL_NAME_LENGTH_def IsNameValidBeforeTag_path Let_def split: if_splits)
  then show ?R using s(1) unfolding IsMsgChannelTagValid_iff asset_name_simps by blast
next
  assume ?R
  then obtain n t where s: "s = n @ 0x7E # t" "asset_path n" "channel_tag t" "length n + length t \<le> 30" unfolding asset_name_simps by blast
  then have t: "t \<noteq> []" "set t \<inter> {0x7E, 0x23, 0x21, 0x2F} = {}" "length t \<le> 12 \<and> IsMsgChannelTagValid t"
    using channel_chars_not [of t] unfolding IsMsgChannelTagValid_iff by (auto simp: channel_tag_def)
  have "0x7E \<notin> set n" "0x7E \<notin> set t" using path_disjoint [OF s(2)] t(2) by blast+
  then have "IsTypeCheckNameValid MSGCHANNEL s"
    using s t(3) split_tag by (simp add: IsTypeCheckNameValid_def MAX_NAME_LENGTH_def MAX_CHANNEL_NAME_LENGTH_def IsNameValidBeforeTag_path Let_def)
  moreover have "regex_match s MSG_CHANNEL_INDICATOR" unfolding indicators using s path_disjoint [OF s(2)] t by blast
  ultimately show ?L by simp
qed

lemma owner_names: "regex_match s OWNER_INDICATOR \<and> IsTypeCheckNameValid OWNER s \<longleftrightarrow> asset_name OWNER s" (is "?L = ?R")
proof -
  have "IsTypeCheckNameValid OWNER (a @ [0x21]) \<longleftrightarrow> length a \<le> 30 \<and> asset_path a" for a
    by (auto simp: IsTypeCheckNameValid_def MAX_NAME_LENGTH_def IsNameValidBeforeTag_path)
  then show ?thesis unfolding owner_indicator asset_name_simps using path_disjoint by (auto 4 3)
qed

text \<open>The last part of a vote name, and what is between it and the first caret.\<close>

lemma vote_tag: "d \<notin> set (last (split d b)) \<and> (\<exists>m. b = m @ last (split d b) \<and> (m = [] \<or> last m = d))"
proof (cases rule: split_last_cases [of d b])
  case (2 a c)
  then show ?thesis by (intro conjI exI [of _ "a @ [d]"]) auto
qed auto

lemma vote_check: "IsTypeCheckNameValid VOTE s \<longleftrightarrow> length s \<le> 31 \<and> asset_path (hd (split 0x5E s)) \<and>
    last (split 0x5E s) \<noteq> [] \<and> list_all name_char (last (split 0x5E s))"
  by (auto simp: IsTypeCheckNameValid_def MAX_NAME_LENGTH_def IsNameValidBeforeTag_path IsVoteTagValid_def name_characters Let_def)

lemma vote_names: "regex_match s VOTE_INDICATOR \<and> IsTypeCheckNameValid VOTE s \<longleftrightarrow> asset_name VOTE s" (is "?L = ?R")
proof
  assume L: ?L
  then obtain a b where s: "s = a @ 0x5E # b" "0x5E \<notin> set a" "set b \<inter> {0x7E, 0x23, 0x21, 0x2F} = {}" unfolding indicators by blast
  define t where "t = last (split 0x5E b)"
  obtain m where m: "b = m @ t" "m = [] \<or> last m = 0x5E" unfolding t_def using vote_tag [of "0x5E" b] by blast
  then have "list_all (\<lambda>b. b \<noteq> 0x7E \<and> b \<noteq> 0x23 \<and> b \<noteq> 0x21 \<and> b \<noteq> 0x2F) m" using s(3) by (auto simp: list_all_iff)
  moreover have "split 0x5E s = a # split 0x5E b" unfolding s(1) by (rule split_append [OF s(2)])
  then have "asset_path a" "t \<noteq> []" "list_all name_char t" "length s \<le> 31" using L unfolding vote_check t_def by simp_all
  moreover have "length s = Suc (length a + length m + length t)" by (simp add: s(1) m(1))
  ultimately show ?R using s(1) m Name_Vote [of a m t] by simp
next
  assume ?R
  then obtain n m t where s: "s = n @ 0x5E # m @ t" "asset_path n" "m = [] \<or> last m = 0x5E" "list_all (\<lambda>b. b \<noteq> 0x7E \<and> b \<noteq> 0x23 \<and> b \<noteq> 0x21 \<and> b \<noteq> 0x2F) m"
    "t \<noteq> []" "list_all name_char t" "length n + length m + length t \<le> 30" by (rule asset_voteE)
  have "last (split 0x5E (m @ t)) = t"
  proof (cases "m = []")
    case False
    then obtain m' where "m = m' @ [0x5E]" using s(3) by (metis append_butlast_last_id)
    then show ?thesis using name_chars_not(5) [OF s(6)] by (simp add: split_snoc)
  qed (simp add: split_none name_chars_not(5) [OF s(6)])
  moreover have n: "0x5E \<notin> set n" using path_disjoint [OF s(2)] by blast
  ultimately have "IsTypeCheckNameValid VOTE s" using s split_append [OF n, of "m @ t"] by (simp add: vote_check)
  moreover have "set (m @ t) \<inter> {0x7E, 0x23, 0x21, 0x2F} = {}" using s(4) name_chars_not [OF s(6)] by (auto simp: list_all_iff)
  then have "regex_match s VOTE_INDICATOR" unfolding indicators using s(1,5) path_disjoint [OF s(2)] by blast
  ultimately show ?L by simp
qed

lemma restricted_names: "regex_match s RESTRICTED_INDICATOR \<and> IsTypeCheckNameValid RESTRICTED s \<longleftrightarrow> asset_name RESTRICTED s"
  by (auto simp: IsTypeCheckNameValid_def MAX_NAME_LENGTH_def special_indicators IsRestrictedNameValid_iff asset_name_simps words_chars)

lemma IsQualifierNameValid_word: "IsQualifierNameValid s \<longleftrightarrow> (\<exists>w. s = 0x23 # w \<and> sub_word w \<and> 3 \<le> length w \<and> w \<noteq> str ''AVN'' \<and> w \<noteq> str ''AVIAN'')"
  by (auto simp: IsQualifierNameValid_iff sub_word_def)

lemma qualifier_names:
  assumes "regex_match s QUALIFIER_INDICATOR"
  shows "IsTypeCheckNameValid QUALIFIER s \<longleftrightarrow> asset_name QUALIFIER s" "\<not> IsAssetNameASubQualifier s"
proof -
  obtain w where w: "s = 0x23 # w" "list_all name_char w" using assms unfolding special_indicators by blast
  then have "0x2F \<notin> set s" using name_chars_not(6) by simp
  then have "split 0x2F s = [s]" by (rule split_none)
  then show "IsTypeCheckNameValid QUALIFIER s \<longleftrightarrow> asset_name QUALIFIER s" "\<not> IsAssetNameASubQualifier s"
    by (auto simp: IsTypeCheckNameValid_def MAX_NAME_LENGTH_def IsQualifierNameValidBeforeTag_def IsQualifierNameValid_word
        asset_name_simps IsAssetNameASubQualifier_def)
qed

lemma sub_qualifier_names:
  assumes "regex_match s SUB_QUALIFIER_INDICATOR"
  shows "IsTypeCheckNameValid SUB_QUALIFIER s \<longleftrightarrow> asset_name SUB_QUALIFIER s" "asset_name SUB_QUALIFIER s \<Longrightarrow> IsAssetNameASubQualifier s"
proof -
  obtain w v where s: "s = 0x23 # w @ 0x2F # 0x23 # v" "list_all name_char w" "list_all name_char v"
    using assms unfolding special_indicators by blast
  have sp: "split 0x2F s = [0x23 # w, 0x23 # v]"
    using split_tag [of "0x2F" "0x23 # w" "0x23 # v"] s name_chars_not(6) by simp
  have "asset_name SUB_QUALIFIER s \<longleftrightarrow> sub_word w \<and> 3 \<le> length w \<and> w \<noteq> str ''AVN'' \<and> w \<noteq> str ''AVIAN'' \<and> name_word v \<and> length w + length v \<le> 28"
  proof
    assume "asset_name SUB_QUALIFIER s"
    then obtain x y where y: "s = 0x23 # x @ 0x2F # 0x23 # y" "sub_word x" "3 \<le> length x" "x \<noteq> str ''AVN'' \<and> x \<noteq> str ''AVIAN''" "name_word y" "length x + length y \<le> 28"
      by (rule asset_sub_qualifierE) simp
    then have "split 0x2F s = [0x23 # x, 0x23 # y]"
      using split_tag [of "0x2F" "0x23 # x" "0x23 # y"] words_chars name_chars_not(6) by simp
    then show "sub_word w \<and> 3 \<le> length w \<and> w \<noteq> str ''AVN'' \<and> w \<noteq> str ''AVIAN'' \<and> name_word v \<and> length w + length v \<le> 28" using sp y by simp
  qed (use s(1) in \<open>unfold asset_name_simps, blast\<close>)
  then show "IsTypeCheckNameValid SUB_QUALIFIER s \<longleftrightarrow> asset_name SUB_QUALIFIER s" "asset_name SUB_QUALIFIER s \<Longrightarrow> IsAssetNameASubQualifier s"
    using sp s(1) by (auto simp: IsTypeCheckNameValid_def MAX_NAME_LENGTH_def IsQualifierNameValidBeforeTag_def IsQualifierNameValid_word
        IsSubQualifierNameValid_iff IsAssetNameASubQualifier_def)
qed

lemma sub_qualifier_indicated: "asset_name SUB_QUALIFIER s \<Longrightarrow> regex_match s SUB_QUALIFIER_INDICATOR"
  unfolding asset_name_simps special_indicators using words_chars by blast

lemma qualifier_indicated: "asset_name QUALIFIER s \<Longrightarrow> regex_match s QUALIFIER_INDICATOR"
  unfolding asset_name_simps special_indicators using words_chars by blast

text \<open>Names without a mark.\<close>

lemma plain_names:
  "IsTypeCheckNameValid (if IsAssetNameASubasset s then SUB else ROOT) s \<longleftrightarrow> asset_name (if IsAssetNameASubasset s then SUB else ROOT) s"
proof -
  have root: "asset_path s \<Longrightarrow> 0x2F \<notin> set s \<Longrightarrow> root_word s" by (auto elim: asset_path.cases)
  have sub: "asset_path s \<Longrightarrow> 0x2F \<in> set s \<Longrightarrow> \<exists>n w. s = n @ 0x2F # w \<and> asset_path n \<and> sub_word w"
    by (erule asset_path.cases) (use words_chars(3) name_chars_not(6) in blast)+
  have "IsTypeCheckNameValid (if IsAssetNameASubasset s then SUB else ROOT) s \<longleftrightarrow> length s \<le> 30 \<and> asset_path s"
    using root IsAssetNameASubasset_path [of s]
    by (auto simp: IsTypeCheckNameValid_def MAX_NAME_LENGTH_def MIN_ASSET_LENGTH_def IsNameValidBeforeTag_path root_word_def)
  moreover have "asset_name (if IsAssetNameASubasset s then SUB else ROOT) s \<longleftrightarrow> length s \<le> 30 \<and> asset_path s"
  proof (cases "IsAssetNameASubasset s")
    case True
    have "length s \<le> 30 \<and> asset_path s" if "asset_name SUB s" using that by (auto simp: asset_name_simps intro: asset_path.intros)
    moreover have "asset_name SUB s" if s: "length s \<le> 30" "asset_path s"
    proof -
      obtain n w where "s = n @ 0x2F # w" "asset_path n" "sub_word w" using sub IsAssetNameASubasset_path True s(2) by blast
      then show ?thesis using s(1) Name_Sub [of n w] by simp
    qed
    ultimately show ?thesis using True by auto
  next
    case False
    then show ?thesis using root IsAssetNameASubasset_path [of s] by (auto simp: asset_name_simps intro: asset_path.intros)
  qed
  ultimately show ?thesis by simp
qed

lemma plain_unmarked:
  assumes "asset_path s"
  shows "\<not> regex_match s UNIQUE_INDICATOR" "\<not> regex_match s MSG_CHANNEL_INDICATOR" "\<not> regex_match s OWNER_INDICATOR" "\<not> regex_match s VOTE_INDICATOR"
    "\<not> regex_match s QUALIFIER_INDICATOR" "\<not> regex_match s SUB_QUALIFIER_INDICATOR" "\<not> regex_match s RESTRICTED_INDICATOR"
proof -
  have "0x23 \<notin> set s" "0x7E \<notin> set s" "0x21 \<notin> set s" "0x5E \<notin> set s" "0x24 \<notin> set s" using path_not [OF assms] by (simp_all add: mark_def)
  then show "\<not> regex_match s UNIQUE_INDICATOR" "\<not> regex_match s MSG_CHANNEL_INDICATOR" "\<not> regex_match s OWNER_INDICATOR" "\<not> regex_match s VOTE_INDICATOR"
    "\<not> regex_match s QUALIFIER_INDICATOR" "\<not> regex_match s SUB_QUALIFIER_INDICATOR" "\<not> regex_match s RESTRICTED_INDICATOR"
    using indicator_marks [of s] by (auto simp: special_indicators)
qed

lemma asset_name_length: "asset_name t s \<Longrightarrow> length s \<le> 31"
  by (induction rule: asset_name.induct) auto

lemma valid_sound:
  assumes "fst (IsAssetNameValid s)"
  shows "asset_name (snd (IsAssetNameValid s)) s"
proof -
  have l: "length s \<le> 40" using assms by (rule contrapos_pp) (simp add: IsAssetNameValid_def Let_def)
  consider "regex_match s UNIQUE_INDICATOR"
    | "\<not> regex_match s UNIQUE_INDICATOR" "regex_match s MSG_CHANNEL_INDICATOR"
    | "\<not> regex_match s UNIQUE_INDICATOR" "\<not> regex_match s MSG_CHANNEL_INDICATOR" "regex_match s OWNER_INDICATOR"
    | "\<not> regex_match s UNIQUE_INDICATOR" "\<not> regex_match s MSG_CHANNEL_INDICATOR" "\<not> regex_match s OWNER_INDICATOR" "regex_match s VOTE_INDICATOR"
    | "\<not> regex_match s UNIQUE_INDICATOR" "\<not> regex_match s MSG_CHANNEL_INDICATOR" "\<not> regex_match s OWNER_INDICATOR" "\<not> regex_match s VOTE_INDICATOR" "regex_match s QUALIFIER_INDICATOR"
    | "\<not> regex_match s UNIQUE_INDICATOR" "\<not> regex_match s MSG_CHANNEL_INDICATOR" "\<not> regex_match s OWNER_INDICATOR" "\<not> regex_match s VOTE_INDICATOR" "\<not> regex_match s QUALIFIER_INDICATOR" "regex_match s SUB_QUALIFIER_INDICATOR"
    | "\<not> regex_match s UNIQUE_INDICATOR" "\<not> regex_match s MSG_CHANNEL_INDICATOR" "\<not> regex_match s OWNER_INDICATOR" "\<not> regex_match s VOTE_INDICATOR" "\<not> regex_match s QUALIFIER_INDICATOR" "\<not> regex_match s SUB_QUALIFIER_INDICATOR" "regex_match s RESTRICTED_INDICATOR"
    | "\<not> regex_match s UNIQUE_INDICATOR" "\<not> regex_match s MSG_CHANNEL_INDICATOR" "\<not> regex_match s OWNER_INDICATOR" "\<not> regex_match s VOTE_INDICATOR" "\<not> regex_match s QUALIFIER_INDICATOR" "\<not> regex_match s SUB_QUALIFIER_INDICATOR" "\<not> regex_match s RESTRICTED_INDICATOR"
    by blast
  then show ?thesis
  proof cases
    case 1
    then show ?thesis using assms l unique_names [of s] by (simp add: IsAssetNameValid_def Let_def split: if_splits)
  next
    case 2
    then show ?thesis using assms l channel_names [of s] by (simp add: IsAssetNameValid_def Let_def split: if_splits)
  next
    case 3
    then show ?thesis using assms l owner_names [of s] by (simp add: IsAssetNameValid_def Let_def split: if_splits)
  next
    case 4
    then show ?thesis using assms l vote_names [of s] by (simp add: IsAssetNameValid_def Let_def split: if_splits)
  next
    case 5
    then show ?thesis using assms l qualifier_names [of s] by (simp add: IsAssetNameValid_def Let_def split: if_splits)
  next
    case 6
    then show ?thesis using assms l sub_qualifier_names [of s] by (simp add: IsAssetNameValid_def Let_def split: if_splits)
  next
    case 7
    then show ?thesis using assms l restricted_names [of s] by (simp add: IsAssetNameValid_def Let_def split: if_splits)
  next
    case 8
    then show ?thesis using assms l plain_names [of s] by (simp add: IsAssetNameValid_def Let_def split: if_splits)
  qed
qed

lemma invalid_type: "fst (IsAssetNameValid s) \<or> snd (IsAssetNameValid s) = INVALID"
  by (simp add: IsAssetNameValid_def Let_def)

lemma valid_plain:
  assumes "asset_path s" "length s \<le> 30" "t = (if IsAssetNameASubasset s then SUB else ROOT)" "asset_name t s"
  shows "IsAssetNameValid s = (True, t)"
  using plain_unmarked [OF assms(1)] plain_names [of s] assms(2-) by (simp add: IsAssetNameValid_def Let_def split: if_splits)

lemma valid_complete:
  assumes "asset_name t s"
  shows "IsAssetNameValid s = (True, t)"
proof (cases t)
  case ROOT
  then have "root_word s" "length s \<le> 30" using assms by (auto simp: asset_name_simps)
  moreover from this have "\<not> IsAssetNameASubasset s" using IsAssetNameASubasset_path [OF asset_path.Root] words_chars(3) name_chars_not(6) by blast
  ultimately show ?thesis using valid_plain asset_path.Root assms ROOT by simp
next
  case SUB
  then obtain n w where s: "s = n @ 0x2F # w" "asset_path n" "sub_word w" "length n + length w \<le> 29" using assms by (auto simp: asset_name_simps)
  then have p: "asset_path s" by (simp add: asset_path.Sub)
  then have "IsAssetNameASubasset s" using IsAssetNameASubasset_path s(1) by simp
  then show ?thesis using valid_plain [OF p] s assms SUB by simp
next
  case UNIQUE
  then have "regex_match s UNIQUE_INDICATOR" "IsTypeCheckNameValid UNIQUE s" using assms unique_names [of s] by simp_all
  then show ?thesis using asset_name_length [OF assms] UNIQUE by (simp add: IsAssetNameValid_def Let_def)
next
  case MSGCHANNEL
  then have "regex_match s MSG_CHANNEL_INDICATOR" "IsTypeCheckNameValid MSGCHANNEL s" using assms channel_names [of s] by simp_all
  then show ?thesis using asset_name_length [OF assms] MSGCHANNEL indicator_marks [of s] by (simp add: IsAssetNameValid_def Let_def) blast
next
  case OWNER
  then have "regex_match s OWNER_INDICATOR" "IsTypeCheckNameValid OWNER s" using assms owner_names [of s] by simp_all
  then show ?thesis using asset_name_length [OF assms] OWNER indicator_marks [of s] by (simp add: IsAssetNameValid_def Let_def) blast
next
  case VOTE
  then have "regex_match s VOTE_INDICATOR" "IsTypeCheckNameValid VOTE s" using assms vote_names [of s] by simp_all
  then show ?thesis using asset_name_length [OF assms] VOTE indicator_marks [of s] by (simp add: IsAssetNameValid_def Let_def) blast
next
  case QUALIFIER
  then have "regex_match s QUALIFIER_INDICATOR" using assms qualifier_indicated by simp
  then show ?thesis using asset_name_length [OF assms] QUALIFIER indicator_marks [of s] special_marks [of s] qualifier_names [of s] assms
    by (simp add: IsAssetNameValid_def Let_def) blast
next
  case SUB_QUALIFIER
  then have "regex_match s SUB_QUALIFIER_INDICATOR" using assms sub_qualifier_indicated by simp
  then show ?thesis using asset_name_length [OF assms] SUB_QUALIFIER indicator_marks [of s] special_marks [of s] sub_qualifier_names [of s] assms
    by (simp add: IsAssetNameValid_def Let_def) blast
next
  case RESTRICTED
  then have "regex_match s RESTRICTED_INDICATOR" "IsTypeCheckNameValid RESTRICTED s" using assms restricted_names [of s] by simp_all
  then show ?thesis using asset_name_length [OF assms] RESTRICTED indicator_marks [of s] special_marks [of s]
    by (simp add: IsAssetNameValid_def Let_def) (metis list.set_intros(1) list.collapse numeral_eq_iff)
qed (use assms in \<open>simp_all add: asset_name_simps\<close>)


section \<open>Parents and owners\<close>

lemma before_last_append: "d \<notin> set b \<Longrightarrow> before_last d (a @ d # b) = a"
proof -
  assume "d \<notin> set b"
  then have "dropWhile (\<lambda>c. c \<noteq> d) (rev b @ d # rev a) = d # rev a" by (subst dropWhile_append2) auto
  then show ?thesis by (simp add: before_last_def)
qed

lemma path_name: "asset_path n \<Longrightarrow> length n \<le> 30 \<Longrightarrow> asset_name ROOT n \<or> asset_name SUB n"
  by (erule asset_path.cases) (auto simp: asset_name_simps)

lemma path_valid: "asset_path n \<Longrightarrow> length n \<le> 30 \<Longrightarrow>
    (IsAssetNameValid n = (True, ROOT) \<or> IsAssetNameValid n = (True, SUB)) \<and> IsAssetNameValid (n @ [OWNER_TAG]) = (True, OWNER)"
  using path_name [of n] valid_complete Name_Owner by blast

text \<open>The parent of a name with a parent: the path before its last delimiter.\<close>

lemma parent_path:
  assumes "asset_name t s" "t = SUB \<or> t = UNIQUE \<or> t = MSGCHANNEL"
  shows "asset_path (GetParentName s) \<and> strict_prefix (GetParentName s) s \<and> length (GetParentName s) \<le> 30"
proof -
  have "\<exists>n d w. s = n @ d # w \<and> asset_path n \<and> GetParentName s = n"
    using assms(1)
  proof cases
    case (Name_Sub n w)
    then have "GetParentName s = n" using valid_complete [OF assms(1)] words_chars name_chars_not(6) by (simp add: GetParentName_def before_last_append)
    then show ?thesis using Name_Sub by blast
  next
    case (Name_Unique n w)
    then have "0x23 \<notin> set w" using unique_chars_not by blast
    then have "GetParentName s = n" using valid_complete [OF assms(1)] Name_Unique by (simp add: GetParentName_def before_last_append)
    then show ?thesis using Name_Unique by blast
  next
    case (Name_Channel n w)
    then have "0x7E \<notin> set w" using channel_chars_not [of w] by (auto simp: channel_tag_def)
    then have "GetParentName s = n" using valid_complete [OF assms(1)] Name_Channel by (simp add: GetParentName_def before_last_append)
    then show ?thesis using Name_Channel by blast
  qed (use assms(2) in auto)
  then obtain n d w where "s = n @ d # w" "asset_path n" "GetParentName s = n" by blast
  then show ?thesis using asset_name_length [OF assms(1)] by (simp add: strict_prefix_def)
qed

lemma root_parent: "asset_name ROOT s \<Longrightarrow> GetParentName s = s"
  using valid_complete by (simp add: GetParentName_def)

lemma root_ancestor: "asset_name t s \<Longrightarrow> t = ROOT \<or> t = SUB \<or> t = UNIQUE \<or> t = MSGCHANNEL \<Longrightarrow> \<exists>k. asset_name ROOT ((GetParentName ^^ k) s)"
proof (induction "length s" arbitrary: s t rule: less_induct)
  case less
  show ?case
  proof (cases "t = ROOT")
    case True
    then show ?thesis using less(2) by (intro exI [of _ 0]) simp
  next
    case False
    then have p: "asset_path (GetParentName s)" "strict_prefix (GetParentName s) s" "length (GetParentName s) \<le> 30"
      using parent_path [OF less(2)] less(3) by blast+
    have "length (GetParentName s) < length s" using p(2) by (rule prefix_length_less)
    then obtain k where "asset_name ROOT ((GetParentName ^^ k) (GetParentName s))" using less(1) path_name [OF p(1,3)] by blast
    then show ?thesis by (intro exI [of _ "Suc k"]) (simp add: funpow_Suc_right del: funpow.simps)
  qed
qed

lemma sub_qualifier_parent:
  assumes "asset_name SUB_QUALIFIER s"
  shows "asset_name QUALIFIER (GetParentName s)"
proof -
  obtain w v where s: "s = 0x23 # w @ 0x2F # 0x23 # v" "sub_word w" "3 \<le> length w" "w \<noteq> str ''AVN'' \<and> w \<noteq> str ''AVIAN''"
    "name_word v" "length w + length v \<le> 28" using assms by (rule asset_sub_qualifierE) simp
  then have "0x2F \<notin> set (0x23 # v)" using words_chars(1) name_chars_not(6) by simp
  then have "GetParentName s = 0x23 # w" using valid_complete [OF assms] before_last_append [of "0x2F" "0x23 # v" "0x23 # w"] s(1) by (simp add: GetParentName_def)
  then show ?thesis using s by (auto simp: asset_name_simps)
qed



lemma GetUniqueAssetName_spec:
  "GetUniqueAssetName p t =
     (if asset_path p \<and> t \<noteq> [] \<and> list_all unique_char t \<and> length p + length t \<le> 30 then p @ [0x23] @ t else [])"
proof (cases "asset_name UNIQUE (p @ 0x23 # t)")
  case True
  then obtain n w where n: "p @ 0x23 # t = n @ 0x23 # w" "asset_path n" "w \<noteq> []" "list_all unique_char w" "length n + length w \<le> 30"
    unfolding asset_name_simps by blast
  have "p = n \<and> t = w"
  proof -
    have "split 0x23 (n @ 0x23 # w) = [n, w]" using path_disjoint [OF n(2)] unique_chars_not [OF n(4)] by (intro split_tag) auto
    then have s: "split 0x23 (p @ 0x23 # t) = [n, w]" using n(1) by simp
    have "0x23 \<notin> set t"
    proof
      assume "0x23 \<in> set t"
      then obtain a b where "t = a @ 0x23 # b" "0x23 \<notin> set b" by (metis split_list_last)
      then have "split 0x23 (p @ 0x23 # t) = split 0x23 (p @ 0x23 # a) @ [b]" using split_snoc [of "0x23" b "p @ 0x23 # a"] by simp
      moreover obtain u v where "p @ 0x23 # a = u @ 0x23 # v" "0x23 \<notin> set v" by (metis in_set_conv_decomp_last set_append list.set_intros(1) Un_iff)
      ultimately show False using s split_snoc [of "0x23" v u] by (cases "split 0x23 u") auto
    qed
    then have "split 0x23 p @ [t] = [n, w]" using s split_snoc [of "0x23" t p] by simp
    then have "split 0x23 p = [n]" "t = w" by auto
    then show ?thesis using n(1) by simp
  qed
  then show ?thesis using n valid_complete [OF True] by (simp add: GetUniqueAssetName_def)
next
  case False
  then have "\<not> (asset_path p \<and> t \<noteq> [] \<and> list_all unique_char t \<and> length p + length t \<le> 30)" using Name_Unique by blast
  then show ?thesis using valid_sound [of "p @ 0x23 # t"] False by (auto simp: GetUniqueAssetName_def Let_def split: prod.splits)
qed

text \<open>The tag of a unique name is removed again by \<open>GetParentName\<close>.\<close>

lemma GetUniqueAssetName_parent: "GetUniqueAssetName p t \<noteq> [] \<Longrightarrow> GetParentName (GetUniqueAssetName p t) = p"
proof -
  assume "GetUniqueAssetName p t \<noteq> []"
  then have p: "asset_path p" "t \<noteq> []" "list_all unique_char t" "length p + length t \<le> 30" and u: "GetUniqueAssetName p t = p @ 0x23 # t"
    unfolding GetUniqueAssetName_spec by (auto split: if_splits)
  have "0x23 \<notin> set t" using unique_chars_not [OF p(3)] by blast
  then show ?thesis unfolding u using valid_complete [OF Name_Unique [OF p]] by (simp add: GetParentName_def before_last_append)
qed

lemma restricted_owner_name:
  assumes v: "IsAssetNameValid s = (True, RESTRICTED)"
  shows "RestrictedNameToOwnerName s = tl s @ [OWNER_TAG]"
    "IsAssetNameValid (RestrictedNameToOwnerName s) = (True, OWNER) \<longleftrightarrow> IsRootNameValid (tl s)"
proof -
  have a: "asset_name RESTRICTED s" using v valid_sound [of s] by simp
  then obtain w where w: "s = 0x24 # w" "name_word w" "length w \<le> 30" unfolding asset_name_simps by blast
  have "regex_match s RESTRICTED_INDICATOR" using a restricted_names [of s] by simp
  then show r: "RestrictedNameToOwnerName s = tl s @ [OWNER_TAG]" using v by (simp add: RestrictedNameToOwnerName_def IsAssetNameAnRestricted_def)
  have "0x2F \<notin> set w" using words_chars(1) [OF w(2)] name_chars_not(6) by blast
  then have "asset_path w \<longleftrightarrow> root_word w" by (auto elim: asset_path.cases intro: asset_path.Root)
  then have "asset_name OWNER (w @ [0x21]) \<longleftrightarrow> root_word w" using w(3) by (simp add: asset_name_simps)
  moreover have "IsAssetNameValid (w @ [0x21]) = (True, OWNER) \<longleftrightarrow> asset_name OWNER (w @ [0x21])"
    using valid_sound [of "w @ [0x21]"] valid_complete by fastforce
  ultimately show "IsAssetNameValid (RestrictedNameToOwnerName s) = (True, OWNER) \<longleftrightarrow> IsRootNameValid (tl s)"
    using r w(1) by (simp add: IsRootNameValid_word)
qed

text \<open>
  C36.  The owner name of a restricted asset.  The restricted asset \<open>$w\<close> is controlled by the owner token \<open>w!\<close>, and the name
  \<open>RestrictedNameToOwnerName\<close> gives is a valid owner name exactly when \<open>w\<close> is the name of a root asset.  The check of restricted names
  accepts more: a leading punctuation character, or the reserved names, so \<open>$.AB\<close> and \<open>$AVN\<close> are valid restricted names whose owner
  token cannot exist.
\<close>

theorem restricted_owner:
  "(IsAssetNameValid s = (True, RESTRICTED) \<longrightarrow>
     RestrictedNameToOwnerName s = tl s @ [OWNER_TAG] \<and>
     (IsAssetNameValid (RestrictedNameToOwnerName s) = (True, OWNER) \<longleftrightarrow> IsRootNameValid (tl s))) \<and>
   IsAssetNameValid (str ''$.AB'') = (True, RESTRICTED) \<and> \<not> fst (IsAssetNameValid (RestrictedNameToOwnerName (str ''$.AB''))) \<and>
   IsAssetNameValid (str ''$AVN'') = (True, RESTRICTED) \<and> \<not> fst (IsAssetNameValid (RestrictedNameToOwnerName (str ''$AVN'')))"
  using restricted_owner_name by (intro conjI impI) (assumption | code_simp)+

theorem restricted_owner_witness:
  "IsAssetNameValid (str ''$GOLD'') = (True, RESTRICTED) \<and> RestrictedNameToOwnerName (str ''$GOLD'') = str ''GOLD!'' \<and>
   IsAssetNameValid (str ''GOLD!'') = (True, OWNER)"
proof -
  have v: "IsAssetNameValid (str ''$GOLD'') = (True, RESTRICTED)" "IsRootNameValid (tl (str ''$GOLD''))" "str ''GOLD!'' = tl (str ''$GOLD'') @ [OWNER_TAG]"
    by code_simp+
  show ?thesis using restricted_owner [of "str ''$GOLD''"] v by metis
qed

end
