(* ===== verification/Base58.thy ===== *)
theory Base58
  imports Hash Asset_Names
begin

text \<open>
  Base-58 text: \<^verbatim>\<open>src/base58.cpp\<close>.  The two conversions work on a buffer whose size is an estimate of the number of digits, and
  assert that no carry is left over; the buffer is kept here in the order of the reverse iterators.  A C string ends at its
  first zero byte.

  The lemmas show that the estimates are enough, so that the assertions hold on every input, and that decoding is the inverse of
  encoding and accepts nothing but encodings surrounded by white space.
\<close>

section \<open>Conversion\<close>

definition pszBase58 :: std_string where
  "pszBase58 = str ''123456789ABCDEFGHJKLMNPQRSTUVWXYZabcdefghijkmnopqrstuvwxyz''"

datatype base58_error = Base58_Invalid | Base58_Assert

definition c_str :: "std_string \<Rightarrow> std_string" where "c_str s = takeWhile (\<lambda>b. b \<noteq> 0) s"

definition isspace :: "byte \<Rightarrow> bool" where "isspace b \<longleftrightarrow> b = 32 \<or> (9 \<le> b \<and> b \<le> 13)"

text \<open>The inner loop: multiply the number by \<open>m\<close> and add the carry, in base \<open>base\<close>.  It returns the buffer, \<open>i\<close> and the carry.\<close>

fun carry_loop :: "nat \<Rightarrow> nat \<Rightarrow> nat \<Rightarrow> nat \<Rightarrow> nat \<Rightarrow> byte list \<Rightarrow> byte list \<times> nat \<times> nat" where
  "carry_loop base m len i carry [] = ([], i, carry)"
| "carry_loop base m len i carry (d # ds) =
     (if carry \<noteq> 0 \<or> i < len then
        let c = carry + m * unat d in
        case carry_loop base m len (i + 1) (c div base) ds of (ds', i', c') \<Rightarrow> (of_nat (c mod base) # ds', i', c')
      else (d # ds, i, carry))"

definition step58 :: "nat \<Rightarrow> nat \<Rightarrow> nat \<Rightarrow> byte list \<times> nat \<Rightarrow> base58_error + (byte list \<times> nat)" where
  "step58 base m carry st =
     (case carry_loop base m (snd st) 0 carry (fst st) of (ds, i, c) \<Rightarrow> if c \<noteq> 0 then Inl Base58_Assert else Inr (ds, i))"

text \<open>\<open>strchr\<close> in the alphabet.\<close>

fun index_of :: "byte \<Rightarrow> byte list \<Rightarrow> nat option" where
  "index_of c [] = None"
| "index_of c (d # ds) = (if d = c then Some 0 else map_option Suc (index_of c ds))"

fun decode_loop :: "std_string \<Rightarrow> byte list \<times> nat \<Rightarrow> base58_error + ((byte list \<times> nat) \<times> std_string)" where
  "decode_loop [] st = Inr (st, [])"
| "decode_loop (c # s) st =
     (if isspace c then Inr (st, c # s)
      else case index_of c pszBase58 of
        None \<Rightarrow> Inl Base58_Invalid
      | Some k \<Rightarrow> ebind (step58 256 58 k st) (decode_loop s))"

definition DecodeBase58 :: "std_string \<Rightarrow> base58_error + byte list" where
  "DecodeBase58 str_in =
     (let psz = dropWhile isspace (c_str str_in);
          zeroes = length (takeWhile (\<lambda>c. c = 0x31) psz);
          psz = dropWhile (\<lambda>c. c = 0x31) psz;
          size = length psz * 733 div 1000 + 1 in
      ebind (decode_loop psz (replicate size 0, 0)) (\<lambda>((b256, len), psz).
        if dropWhile isspace psz \<noteq> [] then Inl Base58_Invalid
        else Inr (replicate zeroes 0 @ dropWhile (\<lambda>b. b = 0) (drop (size - len) (rev b256)))))"

fun encode_loop :: "byte list \<Rightarrow> byte list \<times> nat \<Rightarrow> base58_error + (byte list \<times> nat)" where
  "encode_loop [] st = Inr st"
| "encode_loop (b # bs) st = ebind (step58 58 256 (unat b) st) (encode_loop bs)"

definition EncodeBase58 :: "byte list \<Rightarrow> base58_error + std_string" where
  "EncodeBase58 vch =
     (let zeroes = length (takeWhile (\<lambda>b. b = 0) vch);
          vch = dropWhile (\<lambda>b. b = 0) vch;
          size = length vch * 138 div 100 + 1 in
      ebind (encode_loop vch (replicate size 0, 0)) (\<lambda>(b58, len).
        Inr (replicate zeroes 0x31 @ map (\<lambda>b. pszBase58 ! unat b) (dropWhile (\<lambda>b. b = 0) (drop (size - len) (rev b58))))))"

section \<open>Numbers in a base\<close>

fun digits_val :: "nat \<Rightarrow> byte list \<Rightarrow> nat" where
  "digits_val base [] = 0"
| "digits_val base (d # ds) = unat d + base * digits_val base ds"

definition digits_ok :: "nat \<Rightarrow> byte list \<Rightarrow> bool" where "digits_ok base ds \<longleftrightarrow> list_all (\<lambda>d. unat d < base) ds"

lemma digits_ok_simps [simp]: "digits_ok base []" "digits_ok base (d # ds) \<longleftrightarrow> unat d < base \<and> digits_ok base ds"
  "digits_ok base (a @ b) \<longleftrightarrow> digits_ok base a \<and> digits_ok base b" "digits_ok base (rev a) \<longleftrightarrow> digits_ok base a"
  "0 < base \<Longrightarrow> digits_ok base (replicate n 0)" "digits_ok 256 ds"
  using byte_unat_less by (auto simp: digits_ok_def list_all_iff)

lemma digits_val_append: "digits_val base (a @ b) = digits_val base a + base ^ length a * digits_val base b"
  by (induction a) (auto simp: algebra_simps)

lemma digits_val_zero: "digits_val base (replicate n 0) = 0"
  by (induction n) auto

lemma digits_val_less: "digits_ok base ds \<Longrightarrow> digits_val base ds < base ^ length ds"
proof (induction ds)
  case (Cons d ds)
  then have "digits_val base ds + 1 \<le> base ^ length ds" by simp
  then have "base * (digits_val base ds + 1) \<le> base * base ^ length ds" by (rule mult_le_mono2)
  then show ?case using Cons by simp
qed simp

text \<open>Digits are determined by their number and the value.\<close>

lemma digits_val_inj: "digits_ok base a \<Longrightarrow> digits_ok base b \<Longrightarrow> length a = length b \<Longrightarrow> digits_val base a = digits_val base b \<Longrightarrow> a = b"
proof (induction a b rule: list_induct2')
  case (4 x xs y ys)
  then have b: "unat x < base" "unat y < base" by auto
  have v: "unat x + base * digits_val base xs = unat y + base * digits_val base ys" using 4 by simp
  have "unat x = (unat x + base * digits_val base xs) mod base" using b by simp
  also have "\<dots> = unat y" unfolding v using b by simp
  finally have "unat x = unat y" .
  then show ?case using 4 v b by (auto simp: word_unat_eq_iff)
qed auto

text \<open>Without a leading zero they are determined by the value alone.  Lists here have the least significant digit first.\<close>

lemma digits_val_length:
  assumes "digits_ok base a" "a \<noteq> []" "last a \<noteq> 0" "digits_val base a < base ^ n"
  shows "length a \<le> n"
proof (rule ccontr)
  assume "\<not> length a \<le> n"
  then have l: "n \<le> length a - 1" by simp
  have a: "a = butlast a @ [last a]" using assms(2) by simp
  have "0 < base" using assms(1,2) by (cases a) auto
  have "digits_val base a = digits_val base (butlast a) + base ^ (length a - 1) * unat (last a)"
    by (subst a) (simp add: digits_val_append)
  moreover have "1 \<le> unat (last a)" using assms(3) by (simp add: unat_gt_0 Suc_le_eq)
  ultimately have "base ^ (length a - 1) \<le> digits_val base a" by (simp add: trans_le_add2)
  moreover have "base ^ n \<le> base ^ (length a - 1)" using l \<open>0 < base\<close> by (simp add: power_increasing)
  ultimately show False using assms(4) by simp
qed

lemma digits_val_unique:
  assumes "digits_ok base a" "digits_ok base b" "a = [] \<or> last a \<noteq> 0" "b = [] \<or> last b \<noteq> 0" "digits_val base a = digits_val base b"
  shows "a = b"
proof -
  have "length a \<le> length b" if "digits_ok base a" "digits_ok base b" "a = [] \<or> last a \<noteq> 0" "digits_val base a = digits_val base b" for a b
    using that digits_val_length [of base a "length b"] digits_val_less [of base b] by (cases "a = []") auto
  then have "length a = length b" using assms by (metis le_antisym)
  then show ?thesis using digits_val_inj assms by blast
qed

section \<open>The loops\<close>

definition zeros :: "byte list \<Rightarrow> bool" where "zeros ds \<longleftrightarrow> list_all (\<lambda>d. d = 0) ds"

lemma zeros_simps [simp]: "zeros []" "zeros (d # ds) \<longleftrightarrow> d = 0 \<and> zeros ds" "zeros (a @ b) \<longleftrightarrow> zeros a \<and> zeros b"
  "zeros (rev a) \<longleftrightarrow> zeros a" "zeros (replicate n 0)"
  by (auto simp: zeros_def list_all_iff)

lemma zeros_val: "zeros ds \<Longrightarrow> digits_val base ds = 0"
  by (induction ds) auto

lemma zeros_drop: "zeros (drop (Suc n) (d # ds)) \<longleftrightarrow> zeros (drop n ds)" by simp

lemma carry_loop_spec:
  assumes "0 < base" "base \<le> 256" "digits_ok base ds" "zeros (drop (len - i) ds)" "carry_loop base m len i carry ds = (ds', i', c')"
  shows "length ds' = length ds \<and> digits_ok base ds' \<and> zeros (drop (i' - i) ds') \<and> i \<le> i' \<and> i' \<le> i + length ds \<and>
    digits_val base ds' + base ^ length ds * c' = m * digits_val base ds + carry"
  using assms(3-)
proof (induction ds arbitrary: i carry ds' i' c')
  case (Cons d ds)
  let ?c = "carry + m * unat d"
  show ?case
  proof (cases "carry \<noteq> 0 \<or> i < len")
    case True
    obtain es where e: "carry_loop base m len (i + 1) (?c div base) ds = (es, i', c')" "ds' = of_nat (?c mod base) # es"
      using Cons.prems(3) True by (auto simp: Let_def split: prod.splits)
    have "zeros (drop (len - (i + 1)) ds)"
    proof (cases "len - i")
      case 0
      then show ?thesis using Cons.prems(2) by simp
    next
      case (Suc k)
      then have "len - (i + 1) = k" by simp
      then show ?thesis using Cons.prems(2) Suc by simp
    qed
    then have IH: "length es = length ds" "digits_ok base es" "zeros (drop (i' - (i + 1)) es)" "i + 1 \<le> i'" "i' \<le> i + 1 + length ds"
      "digits_val base es + base ^ length ds * c' = m * digits_val base ds + ?c div base"
      using Cons.IH [OF _ _ e(1)] Cons.prems(1) by simp_all
    have u: "unat (of_nat (?c mod base) :: byte) = ?c mod base"
    proof -
      have "?c mod base < 256" using assms(1,2) mod_less_divisor [of base ?c] by linarith
      then show ?thesis by (simp add: unat_of_nat)
    qed
    have "?c mod base + base * (digits_val base es + base ^ length ds * c') = ?c + base * (m * digits_val base ds)"
      unfolding IH(6) by (simp add: distrib_left)
    then have "digits_val base ds' + base ^ length (d # ds) * c' = m * digits_val base (d # ds) + carry"
      using e(2) u by (simp add: algebra_simps)
    moreover have "i' - i = Suc (i' - (i + 1))" using IH(4) by simp
    ultimately show ?thesis using IH(1-5) e(2) u assms(1) by simp
  next
    case False
    then have "zeros (d # ds)" using Cons.prems(2) by simp
    then show ?thesis using Cons.prems False zeros_val [of "d # ds" base] by auto
  qed
qed auto

text \<open>The buffer holds a number.\<close>

definition buffer_ok :: "nat \<Rightarrow> nat \<Rightarrow> nat \<Rightarrow> byte list \<times> nat \<Rightarrow> bool" where
  "buffer_ok base sz v st \<longleftrightarrow> length (fst st) = sz \<and> digits_ok base (fst st) \<and> zeros (drop (snd st) (fst st)) \<and>
     snd st \<le> sz \<and> digits_val base (fst st) = v"

lemma step58_ok:
  assumes "0 < base" "base \<le> 256" "buffer_ok base sz v st" "m * v + carry < base ^ sz"
  shows "\<exists>st'. step58 base m carry st = Inr st' \<and> buffer_ok base sz (m * v + carry) st'"
proof -
  obtain ds' i' c' where l: "carry_loop base m (snd st) 0 carry (fst st) = (ds', i', c')" by (metis prod_cases3)
  have s: "length ds' = sz" "digits_ok base ds'" "zeros (drop i' ds')" "i' \<le> sz" "digits_val base ds' + base ^ sz * c' = m * v + carry"
    using carry_loop_spec [OF assms(1,2) _ _ l] assms(3) by (auto simp: buffer_ok_def)
  have "base ^ sz * c' < base ^ sz * 1" using s(5) assms(4) by linarith
  then have "c' = 0" by (simp only: mult_less_cancel1) simp
  then show ?thesis using l s by (auto simp: step58_def buffer_ok_def)
qed

lemma buffer_new: "0 < base \<Longrightarrow> buffer_ok base sz 0 (replicate sz 0, 0)"
  by (simp add: buffer_ok_def digits_val_zero)

text \<open>The number read digit by digit, and its relation to the value of the digits.\<close>

definition read_val :: "nat \<Rightarrow> nat \<Rightarrow> nat list \<Rightarrow> nat" where "read_val m v ks = foldl (\<lambda>a k. m * a + k) v ks"

lemma read_val_simps [simp]: "read_val m v [] = v" "read_val m v (k # ks) = read_val m (m * v + k) ks"
  by (simp_all add: read_val_def)

lemma read_val_ge: "0 < m \<Longrightarrow> v \<le> read_val m v ks"
proof (induction ks arbitrary: v)
  case (Cons k ks)
  have "v \<le> m * v + k" using \<open>0 < m\<close> by (simp add: trans_le_add1)
  then show ?case using Cons(1) [OF \<open>0 < m\<close>, of "m * v + k"] by simp
qed simp

lemma read_val_digits: "read_val m v (map unat ds) = m ^ length ds * v + digits_val m (rev ds)"
  by (induction ds arbitrary: v) (auto simp: digits_val_append algebra_simps)

lemma encode_loop_ok:
  assumes "buffer_ok 58 sz v st" "read_val 256 v (map unat bs) < 58 ^ sz"
  shows "\<exists>st'. encode_loop bs st = Inr st' \<and> buffer_ok 58 sz (read_val 256 v (map unat bs)) st'"
  using assms
proof (induction bs arbitrary: v st)
  case (Cons b bs)
  have "256 * v + unat b \<le> read_val 256 (256 * v + unat b) (map unat bs)" by (rule read_val_ge) simp
  then have "256 * v + unat b < 58 ^ sz" using Cons.prems(2) by simp
  then obtain st' where "step58 58 256 (unat b) st = Inr st'" "buffer_ok 58 sz (256 * v + unat b) st'"
    using step58_ok [of 58 sz v st 256 "unat b"] Cons.prems(1) by auto
  then show ?case using Cons.IH [of "256 * v + unat b" st'] Cons.prems(2) by simp
qed auto

text \<open>Removing the leading zeros of the buffer.\<close>

definition stripped :: "nat \<Rightarrow> byte list \<times> nat \<Rightarrow> byte list" where
  "stripped sz st = dropWhile (\<lambda>b. b = 0) (drop (sz - snd st) (rev (fst st)))"

lemma dropWhile_zeros_val: "digits_val base (rev (dropWhile (\<lambda>b. b = 0) ds)) = digits_val base (rev ds)"
  by (induction ds) (auto simp: digits_val_append)

lemma dropWhile_zeros_hd: "dropWhile (\<lambda>b. b = (0 :: byte)) ds = [] \<or> hd (dropWhile (\<lambda>b. b = 0) ds) \<noteq> 0"
  by (induction ds) auto

lemma dropWhile_ok: "digits_ok base ds \<Longrightarrow> digits_ok base (dropWhile P ds)"
  by (auto simp: digits_ok_def list_all_iff dest: set_dropWhileD)

lemma stripped_spec:
  assumes "buffer_ok base sz v st"
  shows "digits_ok base (stripped sz st)" "digits_val base (rev (stripped sz st)) = v" "stripped sz st = [] \<or> hd (stripped sz st) \<noteq> 0"
proof -
  obtain ds len where st: "st = (ds, len)" by (cases st)
  have s: "length ds = sz" "digits_ok base ds" "zeros (drop len ds)" "len \<le> sz" "digits_val base ds = v" using assms by (auto simp: buffer_ok_def st)
  have r: "drop (sz - len) (rev ds) = rev (take len ds)" using s(1,4) by (simp add: rev_take)
  have t: "digits_ok base (take len ds)" using s(2) by (auto simp: digits_ok_def list_all_iff dest: in_set_takeD)
  have "digits_val base (take len ds @ drop len ds) = digits_val base (take len ds)" unfolding digits_val_append using zeros_val [OF s(3)] by simp
  then have "digits_val base (take len ds) = v" using s(5) by simp
  then show "digits_val base (rev (stripped sz st)) = v" unfolding stripped_def st by (simp add: r dropWhile_zeros_val)
  show "digits_ok base (stripped sz st)" unfolding stripped_def st using t by (simp add: r dropWhile_ok)
  show "stripped sz st = [] \<or> hd (stripped sz st) \<noteq> 0" unfolding stripped_def by (rule dropWhile_zeros_hd)
qed

section \<open>The buffers are large enough\<close>

lemma power_estimate:
  fixes a b p q n k :: nat
  assumes "a ^ p \<le> b ^ q" "q * n \<le> p * k" "0 < p" "0 < b"
  shows "a ^ n \<le> b ^ k"
proof -
  have "(a ^ n) ^ p = (a ^ p) ^ n" by (simp add: power_mult [symmetric] mult.commute)
  also have "\<dots> \<le> (b ^ q) ^ n" using assms(1) by (rule power_mono) simp
  also have "\<dots> = b ^ (q * n)" by (simp add: power_mult)
  also have "\<dots> \<le> b ^ (p * k)" using assms(2,4) by (intro power_increasing) auto
  also have "\<dots> = (b ^ k) ^ p" by (simp add: power_mult [symmetric] mult.commute)
  finally show ?thesis using assms(3) by (simp add: power_mono_iff)
qed

lemma encode_size: "256 ^ n \<le> (58 :: nat) ^ (n * 138 div 100 + 1)"
proof (rule power_estimate [of 256 8 58 11])
  have "n * 138 < 100 * (n * 138 div 100 + 1)" using dividend_less_times_div [of 100 "n * 138"] by simp
  then show "11 * n \<le> 8 * (n * 138 div 100 + 1)" by linarith
qed simp_all

lemma decode_size: "58 ^ n \<le> (256 :: nat) ^ (n * 733 div 1000 + 1)"
proof (rule power_estimate [of 58 71 256 52])
  have "n * 733 < 1000 * (n * 733 div 1000 + 1)" using dividend_less_times_div [of 1000 "n * 733"] by simp
  then show "52 * n \<le> 71 * (n * 733 div 1000 + 1)" by linarith
qed simp_all

section \<open>The alphabet\<close>

lemma pszBase58_length [simp]: "length pszBase58 = 58" by code_simp

lemma index_of_Some: "index_of c ds = Some k \<Longrightarrow> k < length ds \<and> ds ! k = c"
  by (induction ds arbitrary: k) (auto split: if_splits)

lemma index_of_None: "index_of c ds = None \<longleftrightarrow> c \<notin> set ds"
  by (induction ds) auto

lemma index_pszBase58: "k < 58 \<Longrightarrow> index_of (pszBase58 ! k) pszBase58 = Some k"
proof -
  have "list_all (\<lambda>k. index_of (pszBase58 ! k) pszBase58 = Some k) [0..<58]" by code_simp
  then show "k < 58 \<Longrightarrow> ?thesis" by (simp add: list_all_iff)
qed

lemma pszBase58_chars: "c \<in> set pszBase58 \<Longrightarrow> c \<noteq> 0 \<and> \<not> isspace c"
proof -
  have "list_all (\<lambda>c. c \<noteq> 0 \<and> \<not> isspace c) pszBase58" by code_simp
  then show "c \<in> set pszBase58 \<Longrightarrow> ?thesis" by (simp add: list_all_iff)
qed

lemma pszBase58_one: "k < 58 \<Longrightarrow> pszBase58 ! k = 0x31 \<longleftrightarrow> k = 0"
proof -
  have "pszBase58 ! 0 = 0x31" by code_simp
  then show "k < 58 \<Longrightarrow> ?thesis" using index_pszBase58 [of k] index_pszBase58 [of 0] by auto
qed

text \<open>Text of digits.\<close>

definition digit_text :: "byte list \<Rightarrow> std_string" where "digit_text ds = map (\<lambda>b. pszBase58 ! unat b) ds"

lemma digit_text_chars: "digits_ok 58 ds \<Longrightarrow> c \<in> set (digit_text ds) \<Longrightarrow> c \<in> set pszBase58"
  by (auto simp: digit_text_def digits_ok_def list_all_iff)

lemma digit_text_exists:
  assumes "set s \<subseteq> set pszBase58"
  shows "\<exists>ds. digits_ok 58 ds \<and> digit_text ds = s"
  using assms
proof (induction s)
  case (Cons c s)
  then obtain ds where ds: "digits_ok 58 ds" "digit_text ds = s" by auto
  obtain k where k: "index_of c pszBase58 = Some k" using Cons.prems index_of_None [of c pszBase58] by auto
  then have "k < 58" "pszBase58 ! k = c" using index_of_Some [OF k] by simp_all
  then have "digits_ok 58 (of_nat k # ds) \<and> digit_text (of_nat k # ds) = c # s" using ds by (simp add: digit_text_def unat_of_nat)
  then show ?case by blast
qed (intro exI [of _ "[]"], simp add: digit_text_def)

lemma decode_loop_ok:
  assumes "digits_ok 58 ds" "buffer_ok 256 sz v st" "read_val 58 v (map unat ds) < 256 ^ sz" "r = [] \<or> isspace (hd r)"
  shows "\<exists>st'. decode_loop (digit_text ds @ r) st = Inr (st', r) \<and> buffer_ok 256 sz (read_val 58 v (map unat ds)) st'"
  using assms(1-3)
proof (induction ds arbitrary: v st)
  case Nil
  then show ?case using assms(4) by (cases r) (auto simp: digit_text_def)
next
  case (Cons d ds)
  have "58 * v + unat d \<le> read_val 58 (58 * v + unat d) (map unat ds)" by (rule read_val_ge) simp
  then have "58 * v + unat d < 256 ^ sz" using Cons.prems(3) by simp
  then obtain st' where st: "step58 256 58 (unat d) st = Inr st'" "buffer_ok 256 sz (58 * v + unat d) st'"
    using step58_ok [of 256 sz v st 58 "unat d"] Cons.prems(2) by auto
  have d: "unat d < 58" using Cons.prems(1) by simp
  then have "\<not> isspace (pszBase58 ! unat d)" using pszBase58_chars by simp
  then show ?case using st d index_pszBase58 [OF d] Cons.IH [of "58 * v + unat d" st'] Cons.prems by (simp add: digit_text_def)
qed

text \<open>A character outside the alphabet is refused.\<close>

lemma decode_loop_bad:
  assumes "digits_ok 58 ds" "buffer_ok 256 sz v st" "read_val 58 v (map unat ds) < 256 ^ sz" "c \<notin> set pszBase58" "\<not> isspace c"
  shows "decode_loop (digit_text ds @ c # r) st = Inl Base58_Invalid"
  using assms(1-3)
proof (induction ds arbitrary: v st)
  case Nil
  have "index_of c pszBase58 = None" using assms(4) index_of_None by simp
  then show ?case using assms(5) by (simp add: digit_text_def)
next
  case (Cons d ds)
  have "58 * v + unat d \<le> read_val 58 (58 * v + unat d) (map unat ds)" by (rule read_val_ge) simp
  then have "58 * v + unat d < 256 ^ sz" using Cons.prems(3) by simp
  then obtain st' where st: "step58 256 58 (unat d) st = Inr st'" "buffer_ok 256 sz (58 * v + unat d) st'"
    using step58_ok [of 256 sz v st 58 "unat d"] Cons.prems(2) by auto
  have d: "unat d < 58" using Cons.prems(1) by simp
  then have "\<not> isspace (pszBase58 ! unat d)" using pszBase58_chars by simp
  then show ?case using st d index_pszBase58 [OF d] Cons.IH [of "58 * v + unat d" st'] Cons.prems by (simp add: digit_text_def)
qed

section \<open>Decoding is the inverse of encoding\<close>

lemma read_val_less: "digits_ok base ds \<Longrightarrow> read_val base 0 (map unat ds) < base ^ length ds"
  using digits_val_less [of base "rev ds"] by (simp add: read_val_digits)

lemma EncodeBase58_spec:
  "\<exists>ds. EncodeBase58 v = Inr (replicate (length (takeWhile (\<lambda>b. b = 0) v)) 0x31 @ digit_text ds) \<and> digits_ok 58 ds \<and> (ds = [] \<or> hd ds \<noteq> 0) \<and>
     digits_val 58 (rev ds) = digits_val 256 (rev (dropWhile (\<lambda>b. b = 0) v))"
proof -
  let ?v = "dropWhile (\<lambda>b. b = 0) v" and ?n = "length (dropWhile (\<lambda>b. b = 0) v) * 138 div 100 + 1"
  have "read_val 256 0 (map unat ?v) < 58 ^ ?n" using read_val_less [of 256 ?v] encode_size [of "length ?v"] by simp
  then obtain st where st: "encode_loop ?v (replicate ?n 0, 0) = Inr st" "buffer_ok 58 ?n (read_val 256 0 (map unat ?v)) st"
    using encode_loop_ok [OF buffer_new] by (meson zero_less_numeral)
  have "EncodeBase58 v = Inr (replicate (length (takeWhile (\<lambda>b. b = 0) v)) 0x31 @ digit_text (stripped ?n st))"
    unfolding EncodeBase58_def Let_def st(1) by (cases st) (simp add: stripped_def digit_text_def)
  moreover have "digits_val 58 (rev (stripped ?n st)) = digits_val 256 (rev ?v)" using stripped_spec(2) [OF st(2)] by (simp add: read_val_digits)
  ultimately show ?thesis using stripped_spec(1,3) [OF st(2)] by blast
qed

text \<open>The parts of a string that can be decoded.\<close>

definition base58_form :: "std_string \<Rightarrow> nat \<Rightarrow> byte list \<Rightarrow> std_string \<Rightarrow> bool" where
  "base58_form s z ds r \<longleftrightarrow> dropWhile isspace (c_str s) = replicate z 0x31 @ digit_text ds @ r \<and> digits_ok 58 ds \<and> (ds = [] \<or> hd ds \<noteq> 0) \<and>
     list_all isspace r"

lemma digit_text_hd: "digits_ok 58 ds \<Longrightarrow> ds \<noteq> [] \<Longrightarrow> hd ds \<noteq> 0 \<Longrightarrow> hd (digit_text ds) \<noteq> 0x31"
  using pszBase58_one [of "unat (hd ds)"] by (cases ds) (auto simp: digit_text_def unat_eq_0)

lemma leading_ones:
  assumes "t = [] \<or> hd t \<noteq> 0x31"
  shows "takeWhile (\<lambda>c. c = 0x31) (replicate z 0x31 @ t) = replicate z 0x31" "dropWhile (\<lambda>c. c = 0x31) (replicate z 0x31 @ t) = t"
  using assms by (induction z) (cases t, auto)+

lemma decode_form:
  assumes "base58_form s z ds r"
  shows "\<exists>bs. DecodeBase58 s = Inr (replicate z 0 @ bs) \<and> (bs = [] \<or> hd bs \<noteq> 0) \<and> digits_val 256 (rev bs) = digits_val 58 (rev ds)"
proof -
  have p: "dropWhile isspace (c_str s) = replicate z 0x31 @ digit_text ds @ r" and ds: "digits_ok 58 ds" "ds = [] \<or> hd ds \<noteq> 0" and r: "list_all isspace r"
    using assms by (auto simp: base58_form_def)
  let ?t = "digit_text ds @ r" and ?n = "length (digit_text ds @ r) * 733 div 1000 + 1"
  have r': "r = [] \<or> isspace (hd r)" using r by (cases r) auto
  have "\<not> isspace 0x31" by (simp add: isspace_def)
  then have "?t = [] \<or> hd ?t \<noteq> 0x31" using digit_text_hd [OF ds(1)] ds(2) r' by (cases "ds = []") (auto simp: digit_text_def hd_append)
  note one = leading_ones [OF this]
  have "length ds \<le> length ?t" by (simp add: digit_text_def)
  then have "58 ^ length ds \<le> (58 :: nat) ^ length ?t" by (intro power_increasing) auto
  then have "read_val 58 0 (map unat ds) < 256 ^ ?n" using read_val_less [OF ds(1)] decode_size [of "length ?t"] by linarith
  then obtain st where st: "decode_loop ?t (replicate ?n 0, 0) = Inr (st, r)" "buffer_ok 256 ?n (read_val 58 0 (map unat ds)) st"
    using decode_loop_ok [OF ds(1) buffer_new _ r'] by (meson zero_less_numeral)
  have "dropWhile isspace r = []" using r by (simp add: list_all_iff)
  then have "DecodeBase58 s = Inr (replicate z 0 @ stripped ?n st)"
    unfolding DecodeBase58_def Let_def p one st(1) by (cases st) (simp add: stripped_def)
  then show ?thesis using stripped_spec(2,3) [OF st(2)] by (auto simp: read_val_digits)
qed

lemma decode_other:
  assumes "\<nexists>z ds r. base58_form s z ds r"
  shows "DecodeBase58 s = Inl Base58_Invalid"
proof -
  define p where "p = dropWhile isspace (c_str s)"
  define q where "q = dropWhile (\<lambda>c. c = 0x31) p"
  let ?n = "length q * 733 div 1000 + 1" and ?w = "takeWhile (\<lambda>c. \<not> isspace c) q" and ?r = "dropWhile (\<lambda>c. \<not> isspace c) q"
  have bound: "read_val 58 0 (map unat ds) < 256 ^ ?n" if "digits_ok 58 ds" "length ds \<le> length q" for ds
  proof -
    have "58 ^ length ds \<le> (58 :: nat) ^ length q" using that(2) by (intro power_increasing) auto
    then show ?thesis using read_val_less [OF that(1)] decode_size [of "length q"] by linarith
  qed
  have len: "length ds = length (digit_text ds)" for ds by (simp add: digit_text_def)
  show ?thesis
  proof (cases "set ?w \<subseteq> set pszBase58")
    case True
    then obtain ds where ds: "digits_ok 58 ds" "digit_text ds = ?w" using digit_text_exists by blast
    have r: "?r = [] \<or> isspace (hd ?r)" using hd_dropWhile [of "\<lambda>c. \<not> isspace c" q] by blast
    have le: "length ds \<le> length q" using ds(2) len [of ds] by (simp add: length_takeWhile_le)
    obtain st where st: "decode_loop (?w @ ?r) (replicate ?n 0, 0) = Inr (st, ?r)"
      using decode_loop_ok [OF ds(1) buffer_new [OF zero_less_numeral] bound [OF ds(1) le] r, unfolded ds(2)]
      by (elim exE conjE) (rule that)
    have "\<not> list_all isspace ?r"
    proof
      assume sp: "list_all isspace ?r"
      have o: "replicate (length (takeWhile (\<lambda>c. c = 0x31) p)) 0x31 = takeWhile (\<lambda>c. c = 0x31) p"
        by (rule replicate_length_same) (auto dest: set_takeWhileD)
      have p: "p = replicate (length (takeWhile (\<lambda>c. c = 0x31) p)) 0x31 @ ?w @ ?r"
        unfolding o takeWhile_dropWhile_id by (simp only: q_def takeWhile_dropWhile_id)
      have "ds = [] \<or> hd ds \<noteq> 0"
      proof (rule ccontr)
        assume "\<not> (ds = [] \<or> hd ds \<noteq> 0)"
        then have "?w \<noteq> []" "hd ?w = 0x31" unfolding ds(2) [symmetric] using pszBase58_one [of 0] by (auto simp: digit_text_def hd_map)
        then have "q \<noteq> []" "hd q = 0x31" by (cases q; auto split: if_splits)+
        then show False using hd_dropWhile [of "\<lambda>c. c = 0x31" p] unfolding q_def by simp
      qed
      then show False using assms p ds sp unfolding base58_form_def p_def [symmetric] by metis
    qed
    then have "dropWhile isspace ?r \<noteq> []" by (auto simp: list_all_iff)
    then show ?thesis using st unfolding DecodeBase58_def Let_def p_def [symmetric] q_def [symmetric] by (cases st) simp
  next
    case False
    then obtain a c b where w: "?w = a @ c # b" "set a \<subseteq> set pszBase58" "c \<notin> set pszBase58"
      using split_list_first_prop [of ?w "\<lambda>c. c \<notin> set pszBase58"] by blast
    then obtain ds where ds: "digits_ok 58 ds" "digit_text ds = a" using digit_text_exists by blast
    have q: "q = digit_text ds @ c # b @ ?r" using takeWhile_dropWhile_id [of "\<lambda>c. \<not> isspace c" q] w(1) ds(2) by simp
    have "c \<in> set ?w" using w(1) by simp
    then have "\<not> isspace c" by (rule set_takeWhileD [THEN conjunct2])
    have le: "length ds \<le> length q" using arg_cong [OF q, of length] len [of ds] by simp
    have "decode_loop q (replicate ?n 0, 0) = Inl Base58_Invalid"
      using decode_loop_bad [OF ds(1) buffer_new [OF zero_less_numeral] bound [OF ds(1) le] w(3) \<open>\<not> isspace c\<close>, of "b @ ?r"] q by simp
    then show ?thesis unfolding DecodeBase58_def Let_def p_def [symmetric] q_def [symmetric] by simp
  qed
qed

lemma takeWhile_zeros: "takeWhile (\<lambda>b. b = (0 :: byte)) v = replicate (length (takeWhile (\<lambda>b. b = 0) v)) 0"
  by (induction v) auto

lemma zeros_prefix:
  assumes "bs = [] \<or> hd bs \<noteq> (0 :: byte)"
  shows "length (takeWhile (\<lambda>b. b = 0) (replicate z 0 @ bs)) = z" "dropWhile (\<lambda>b. b = 0) (replicate z 0 @ bs) = bs"
  using assms by (induction z) (cases bs, auto)+

lemma encode_form:
  assumes "bs = [] \<or> hd bs \<noteq> 0" "digits_ok 58 ds" "ds = [] \<or> hd ds \<noteq> 0" "digits_val 256 (rev bs) = digits_val 58 (rev ds)"
  shows "EncodeBase58 (replicate z 0 @ bs) = Inr (replicate z 0x31 @ digit_text ds)"
proof -
  obtain es where es: "EncodeBase58 (replicate z 0 @ bs) = Inr (replicate z 0x31 @ digit_text es)" "digits_ok 58 es" "es = [] \<or> hd es \<noteq> 0"
    "digits_val 58 (rev es) = digits_val 256 (rev bs)"
    using EncodeBase58_spec [of "replicate z 0 @ bs"] unfolding zeros_prefix [OF assms(1)] by blast
  have "rev es = rev ds" by (rule digits_val_unique [of 58]) (use es assms in \<open>auto simp: last_rev\<close>)
  then show ?thesis using es(1) by simp
qed

lemma no_space_text: "digits_ok 58 ds \<Longrightarrow> dropWhile isspace (replicate z 0x31 @ digit_text ds @ r) = replicate z 0x31 @ digit_text ds @ (if z = 0 \<and> ds = [] then dropWhile isspace r else r)"
proof (cases z)
  case 0
  moreover assume "digits_ok 58 ds"
  then have "ds \<noteq> [] \<Longrightarrow> \<not> isspace (pszBase58 ! unat (hd ds))" using pszBase58_chars by (cases ds) auto
  ultimately show ?thesis by (cases ds) (auto simp: digit_text_def)
qed (simp add: isspace_def)

lemma c_str_text: "digits_ok 58 ds \<Longrightarrow> c_str (replicate z 0x31 @ digit_text ds) = replicate z 0x31 @ digit_text ds"
  unfolding c_str_def by (rule takeWhile_eq_all_conv [THEN iffD2]) (use digit_text_chars pszBase58_chars in auto)

lemma base58_inverse:
  "(\<exists>t. EncodeBase58 v = Inr t \<and> DecodeBase58 t = Inr v) \<and> DecodeBase58 s \<noteq> Inl Base58_Assert \<and>
   (DecodeBase58 s = Inr v \<longleftrightarrow> (\<exists>a t b. c_str s = a @ t @ b \<and> list_all isspace a \<and> list_all isspace b \<and> EncodeBase58 v = Inr t))"
proof -
  define z where "z = length (takeWhile (\<lambda>b. b = 0) v)"
  define bs where "bs = dropWhile (\<lambda>b. b = 0) v"
  have v: "v = replicate z 0 @ bs" unfolding z_def bs_def takeWhile_zeros [symmetric] by simp
  have bs: "bs = [] \<or> hd bs \<noteq> 0" unfolding bs_def by (rule dropWhile_zeros_hd)
  obtain ds where e: "EncodeBase58 v = Inr (replicate z 0x31 @ digit_text ds)" and ds: "digits_ok 58 ds" "ds = [] \<or> hd ds \<noteq> 0"
    "digits_val 58 (rev ds) = digits_val 256 (rev bs)" using EncodeBase58_spec [of v] unfolding z_def bs_def by blast
  have dec: "DecodeBase58 t = Inr v" if form: "base58_form t z ds r" for t r
  proof -
    obtain cs where cs: "DecodeBase58 t = Inr (replicate z 0 @ cs)" "cs = [] \<or> hd cs \<noteq> 0" "digits_val 256 (rev cs) = digits_val 58 (rev ds)"
      using decode_form [OF form] by blast
    have "rev cs = rev bs" by (rule digits_val_unique [of 256]) (use cs bs ds in \<open>auto simp: last_rev\<close>)
    then show ?thesis using cs(1) v by simp
  qed
  have t: "DecodeBase58 (replicate z 0x31 @ digit_text ds) = Inr v"
    by (rule dec [of _ "[]"]) (use ds no_space_text [OF ds(1), of z "[]"] in \<open>simp add: base58_form_def c_str_text\<close>)
  have "DecodeBase58 s = Inr v \<longleftrightarrow> (\<exists>a t b. c_str s = a @ t @ b \<and> list_all isspace a \<and> list_all isspace b \<and> EncodeBase58 v = Inr t)" (is "?L = ?R")
  proof
    assume L: ?L
    then obtain y es r where f: "base58_form s y es r" using decode_other [of s] by fastforce
    obtain cs where cs: "DecodeBase58 s = Inr (replicate y 0 @ cs)" "cs = [] \<or> hd cs \<noteq> 0" "digits_val 256 (rev cs) = digits_val 58 (rev es)"
      using decode_form [OF f] by blast
    then have "EncodeBase58 v = Inr (replicate y 0x31 @ digit_text es)" using encode_form [OF cs(2) _ _ cs(3)] f L by (auto simp: base58_form_def)
    moreover have "c_str s = takeWhile isspace (c_str s) @ (replicate y 0x31 @ digit_text es) @ r"
      using f takeWhile_dropWhile_id [of isspace "c_str s"] by (simp add: base58_form_def)
    moreover have "list_all isspace (takeWhile isspace (c_str s))" by (auto simp: list_all_iff dest: set_takeWhileD)
    ultimately show ?R using f unfolding base58_form_def by blast
  next
    assume ?R
    then obtain a b where c: "c_str s = a @ (replicate z 0x31 @ digit_text ds) @ b" "list_all isspace a" "list_all isspace b" using e by auto
    have "dropWhile isspace (c_str s) = dropWhile isspace (replicate z 0x31 @ digit_text ds @ b)" using c(1,2) by (simp add: list_all_iff dropWhile_append)
    also have "\<dots> = replicate z 0x31 @ digit_text ds @ (if z = 0 \<and> ds = [] then dropWhile isspace b else b)" by (rule no_space_text [OF ds(1)])
    finally have "base58_form s z ds (if z = 0 \<and> ds = [] then dropWhile isspace b else b)"
      using ds c(3) by (auto simp: base58_form_def list_all_iff dest: set_dropWhileD)
    then show ?L by (rule dec)
  qed
  moreover have "DecodeBase58 s \<noteq> Inl Base58_Assert" using decode_other [of s] decode_form [of s] by (cases "\<exists>z ds r. base58_form s z ds r") fastforce+
  ultimately show ?thesis using e t by blast
qed

text \<open>
  C37.  Base-58 encoding and decoding.  Both directions return on every input without failing the assertion on the carry, because the
  estimates of the buffer size are enough.  Decoding the text of a byte string gives the byte string back, and a text is decoded to a
  byte string if and only if, up to its first zero byte, it is white space, the encoding of that byte string, and white space.
\<close>

theorem base58_roundtrip:
  "(\<exists>t. EncodeBase58 v = Inr t \<and> DecodeBase58 t = Inr v) \<and> DecodeBase58 s \<noteq> Inl Base58_Assert \<and>
   (DecodeBase58 s = Inr v \<longleftrightarrow> (\<exists>a t b. c_str s = a @ t @ b \<and> list_all isspace a \<and> list_all isspace b \<and> EncodeBase58 v = Inr t))"
  by (rule base58_inverse)

section \<open>Checksums and addresses\<close>

definition EncodeBase58Check :: "byte list \<Rightarrow> base58_error + std_string" where
  "EncodeBase58Check vchIn = EncodeBase58 (vchIn @ take 4 (uint256_data (Hash vchIn)))"

definition DecodeBase58Check :: "std_string \<Rightarrow> base58_error + byte list" where
  "DecodeBase58Check psz = ebind (DecodeBase58 psz) (\<lambda>vch.
     if length vch < 4 then Inl Base58_Invalid
     else let body = take (length vch - 4) vch in
       if take 4 (uint256_data (Hash body)) \<noteq> drop (length vch - 4) vch then Inl Base58_Invalid else Inr body)"

record CBase58Data =
  vchVersion :: "byte list"
  vchData :: "byte list"

definition SetString :: "nat \<Rightarrow> std_string \<Rightarrow> base58_error + CBase58Data" where
  "SetString nVersionBytes psz = ebind (DecodeBase58Check psz) (\<lambda>vchTemp.
     if length vchTemp < nVersionBytes then Inl Base58_Invalid
     else Inr \<lparr>vchVersion = take nVersionBytes vchTemp, vchData = drop nVersionBytes vchTemp\<rparr>)"

definition Base58_ToString :: "CBase58Data \<Rightarrow> base58_error + std_string" where
  "Base58_ToString d = EncodeBase58Check (vchVersion d @ vchData d)"

datatype CTxDestination = CNoDestination | CKeyID uint160 | CScriptID uint160

record base58_prefixes =
  PUBKEY_ADDRESS :: "byte list"
  SCRIPT_ADDRESS :: "byte list"

definition main_prefixes :: base58_prefixes where "main_prefixes = \<lparr>PUBKEY_ADDRESS = [60], SCRIPT_ADDRESS = [122]\<rparr>"

fun CAvianAddress :: "base58_prefixes \<Rightarrow> CTxDestination \<Rightarrow> CBase58Data" where
  "CAvianAddress P (CKeyID i) = \<lparr>vchVersion = PUBKEY_ADDRESS P, vchData = uint160_data i\<rparr>"
| "CAvianAddress P (CScriptID i) = \<lparr>vchVersion = SCRIPT_ADDRESS P, vchData = uint160_data i\<rparr>"
| "CAvianAddress P CNoDestination = \<lparr>vchVersion = [], vchData = []\<rparr>"

definition address_IsValid :: "base58_prefixes \<Rightarrow> CBase58Data \<Rightarrow> bool" where
  "address_IsValid P a \<longleftrightarrow> length (vchData a) = 20 \<and> (vchVersion a = PUBKEY_ADDRESS P \<or> vchVersion a = SCRIPT_ADDRESS P)"

definition address_Get :: "base58_prefixes \<Rightarrow> CBase58Data \<Rightarrow> CTxDestination" where
  "address_Get P a =
     (if \<not> address_IsValid P a then CNoDestination
      else let i = uint160_of (vchData a) in
        if vchVersion a = PUBKEY_ADDRESS P then CKeyID i
        else if vchVersion a = SCRIPT_ADDRESS P then CScriptID i
        else CNoDestination)"

text \<open>The assertion inside the conversion holds, so the error of the conversion to text is out of reach.\<close>

definition EncodeDestination :: "base58_prefixes \<Rightarrow> CTxDestination \<Rightarrow> std_string" where
  "EncodeDestination P dest =
     (let addr = CAvianAddress P dest in
      if \<not> address_IsValid P addr then [] else (case Base58_ToString addr of Inr t \<Rightarrow> t | Inl _ \<Rightarrow> []))"

definition DecodeDestination :: "base58_prefixes \<Rightarrow> std_string \<Rightarrow> CTxDestination" where
  "DecodeDestination P s =
     address_Get P (case SetString 1 s of Inr a \<Rightarrow> a | Inl _ \<Rightarrow> \<lparr>vchVersion = [], vchData = []\<rparr>)"

lemma base58_encode_decode: "\<exists>t. EncodeBase58 v = Inr t \<and> DecodeBase58 t = Inr v"
  using base58_inverse [of v] by blast

lemma base58_check_inverse: "\<exists>t. EncodeBase58Check v = Inr t \<and> DecodeBase58Check t = Inr v"
proof -
  obtain t where "EncodeBase58Check v = Inr t" "DecodeBase58 t = Inr (v @ take 4 (uint256_data (Hash v)))"
    unfolding EncodeBase58Check_def using base58_encode_decode by blast
  then show ?thesis by (auto simp: DecodeBase58Check_def Let_def)
qed

lemma uint160_of_data: "uint160_of (uint160_data h) = h"
  using le_word_iff [of 20 "uint160_data h" "[]" h] by (auto simp: uint160_data_def uint160_of_def)

lemma decode_encode_destination:
  assumes "length (PUBKEY_ADDRESS P) = 1" "length (SCRIPT_ADDRESS P) = 1" "PUBKEY_ADDRESS P \<noteq> SCRIPT_ADDRESS P"
  shows "DecodeDestination P (EncodeDestination P d) = d"
proof (cases "d = CNoDestination")
  case True
  have "DecodeBase58Check [] = Inl Base58_Invalid" by code_simp
  then show ?thesis using True by (simp add: EncodeDestination_def DecodeDestination_def SetString_def address_Get_def address_IsValid_def)
next
  case False
  let ?a = "CAvianAddress P d"
  have v: "address_IsValid P ?a" "length (vchVersion ?a) = 1" using False assms by (cases d; simp add: address_IsValid_def)+
  obtain t where t: "Base58_ToString ?a = Inr t" "DecodeBase58Check t = Inr (vchVersion ?a @ vchData ?a)"
    unfolding Base58_ToString_def using base58_check_inverse by blast
  then have "EncodeDestination P d = t" "SetString 1 t = Inr ?a" using v by (auto simp: EncodeDestination_def SetString_def)
  then show ?thesis using False assms by (cases d) (auto simp: DecodeDestination_def address_Get_def address_IsValid_def uint160_of_data)
qed

text \<open>
  C38.  Addresses.  On a network whose two address prefixes are different single bytes the text of every destination is read back as that
  destination, so different destinations have different addresses.
\<close>

theorem address_roundtrip:
  assumes "length (PUBKEY_ADDRESS P) = 1" "length (SCRIPT_ADDRESS P) = 1" "PUBKEY_ADDRESS P \<noteq> SCRIPT_ADDRESS P"
  shows "DecodeDestination P (EncodeDestination P d) = d \<and> (EncodeDestination P d = EncodeDestination P e \<longleftrightarrow> d = e)"
  using decode_encode_destination [OF assms] by metis

theorem address_roundtrip_witness:
  "DecodeDestination main_prefixes (EncodeDestination main_prefixes (CKeyID 5)) = CKeyID 5 \<and>
   EncodeDestination main_prefixes (CKeyID 5) \<noteq> EncodeDestination main_prefixes (CScriptID 5)"
  using address_roundtrip [of main_prefixes "CKeyID 5" "CScriptID 5"] by (simp add: main_prefixes_def)

end
