(* ===== verification/Standard.thy ===== *)
theory Standard
  imports SigHash Base58
begin

text \<open>
  Standard scripts: \<open>Solver\<close> and the conversions between scripts and destinations in \<^verbatim>\<open>src/script/standard.cpp\<close>.  A template is the
  list of its opcodes; \<open>None\<close> stands for the return value \<open>false\<close>.
\<close>

definition small_integer :: "opcodetype \<Rightarrow> bool" where
  "small_integer opcode \<longleftrightarrow> opcode = OP_0 \<or> (OP_1 \<le> opcode \<and> opcode \<le> OP_16)"

text \<open>One step of the comparison with a template, after the reads: the new solutions, or \<open>None\<close> for \<open>break\<close>.\<close>

definition match_item :: "opcodetype \<Rightarrow> opcodetype \<Rightarrow> valtype \<Rightarrow> valtype list \<Rightarrow> valtype list option" where
  "match_item opcode2 opcode1 vch1 vSolutions =
     (if opcode2 = OP_PUBKEY then
        if length vch1 < 33 \<or> length vch1 > 65 then None else Some (vSolutions @ [vch1])
      else if opcode2 = OP_PUBKEYHASH then
        if length vch1 \<noteq> 20 then None else Some (vSolutions @ [vch1])
      else if opcode2 = OP_SMALLINTEGER then
        if small_integer opcode1 then map_option (\<lambda>n. vSolutions @ [[of_nat n]]) (DecodeOP_N opcode1) else None
      else if opcode1 \<noteq> opcode2 \<or> vch1 \<noteq> [] then None
      else Some vSolutions)"

function pubkeys_loop :: "CScript \<Rightarrow> opcodetype \<Rightarrow> valtype \<Rightarrow> valtype list \<Rightarrow> CScript \<times> opcodetype \<times> valtype \<times> valtype list" where
  "pubkeys_loop pc opcode vch vSolutions =
     (if 33 \<le> length vch \<and> length vch \<le> 65 then
        case GetOp2 pc of (fRet, pc', opcode', vch') \<Rightarrow>
          if \<not> fRet then (pc', opcode', vch', vSolutions @ [vch])
          else pubkeys_loop pc' opcode' vch' (vSolutions @ [vch])
      else (pc, opcode, vch, vSolutions))"
  by pat_completeness auto
termination
  by (relation "measure (\<lambda>(pc, _). length pc)") (auto dest!: GetOp2_shorter [OF sym])

declare pubkeys_loop.simps [simp del]

fun match_template :: "opcodetype list \<Rightarrow> CScript \<Rightarrow> valtype list \<Rightarrow> valtype list option" where
  "match_template [] pc vSolutions = (if pc = [] then Some vSolutions else None)"
| "match_template (opcode2 # tplate) pc vSolutions =
     (case GetOp2 pc of (fRet, pc', opcode1, vch1) \<Rightarrow>
        if \<not> fRet then None
        else if opcode2 = OP_PUBKEYS then
          (case pubkeys_loop pc' opcode1 vch1 vSolutions of (pc', opcode1, vch1, vSolutions) \<Rightarrow>
             case tplate of
               [] \<Rightarrow> None
             | opcode2 # tplate \<Rightarrow>
                 (case match_item opcode2 opcode1 vch1 vSolutions of
                    None \<Rightarrow> None
                  | Some vSolutions \<Rightarrow> match_template tplate pc' vSolutions))
        else (case match_item opcode2 opcode1 vch1 vSolutions of
                None \<Rightarrow> None
              | Some vSolutions \<Rightarrow> match_template tplate pc' vSolutions))"

definition mTemplates :: "(txnouttype \<times> opcodetype list) list" where
  "mTemplates =
     [(TX_PUBKEY, [OP_PUBKEY, OP_CHECKSIG]),
      (TX_PUBKEYHASH, [OP_DUP, OP_HASH160, OP_PUBKEYHASH, OP_EQUALVERIFY, OP_CHECKSIG]),
      (TX_MULTISIG, [OP_SMALLINTEGER, OP_PUBKEYS, OP_SMALLINTEGER, OP_CHECKMULTISIG])]"

fun scan_templates :: "(txnouttype \<times> opcodetype list) list \<Rightarrow> CScript \<Rightarrow> (txnouttype \<times> valtype list) option" where
  "scan_templates [] script1 = None"
| "scan_templates ((ty, tplate) # ts) script1 =
     (case match_template tplate script1 [] of
        None \<Rightarrow> scan_templates ts script1
      | Some vSolutions \<Rightarrow>
          if ty = TX_MULTISIG then
            let m = unat (hd (hd vSolutions)); n = unat (hd (last vSolutions)) in
            if m < 1 \<or> n < 1 \<or> m > n \<or> length vSolutions - 2 \<noteq> n then None else Some (ty, vSolutions)
          else Some (ty, vSolutions))"

definition Solver :: "CScript \<Rightarrow> (txnouttype \<times> valtype list) option" where
  "Solver s =
     (if IsPayToScriptHash s then Some (TX_SCRIPTHASH, [take 20 (drop 2 s)])
      else case IsAssetScript s of
        Some (nType, _, _) \<Rightarrow> Some (nType, [take 20 (drop 3 s)])
      | None \<Rightarrow>
          (case IsWitnessProgram s of
             Some (witnessversion, witnessprogram) \<Rightarrow>
               if witnessversion = 0 \<and> length witnessprogram = 20 then Some (TX_WITNESS_V0_KEYHASH, [witnessprogram])
               else if witnessversion = 0 \<and> length witnessprogram = 32 then Some (TX_WITNESS_V0_SCRIPTHASH, [witnessprogram])
               else None
           | None \<Rightarrow>
               if length s \<ge> 1 \<and> unat (s ! 0) = OP_RETURN \<and> IsPushOnly (drop 1 s) then Some (TX_NULL_DATA, [])
               else if length s \<ge> 1 \<and> unat (s ! 0) = OP_AVN_ASSET \<and> IsPushOnly (drop 1 s) then
                 Some (TX_RESTRICTED_ASSET_DATA, if length s \<ge> 23 \<and> unat (s ! 1) \<noteq> OP_RESERVED then [take 20 (drop 2 s)] else [])
               else scan_templates mTemplates s))"

definition ExtractDestination :: "CScript \<Rightarrow> CTxDestination option" where
  "ExtractDestination s =
     (case Solver s of
        None \<Rightarrow> None
      | Some (whichType, vSolutions) \<Rightarrow>
          if whichType = TX_PUBKEY then map_option (\<lambda>k. CKeyID (Hash160 k)) (CPubKey (hd vSolutions))
          else if whichType = TX_PUBKEYHASH then Some (CKeyID (uint160_of (hd vSolutions)))
          else if whichType = TX_SCRIPTHASH then Some (CScriptID (uint160_of (hd vSolutions)))
          else if whichType = TX_NEW_ASSET \<or> whichType = TX_REISSUE_ASSET \<or> whichType = TX_TRANSFER_ASSET then
            Some (CKeyID (uint160_of (hd vSolutions)))
          else if whichType = TX_RESTRICTED_ASSET_DATA \<and> vSolutions \<noteq> [] then Some (CKeyID (uint160_of (hd vSolutions)))
          else None)"

fun GetScriptForDestination :: "CTxDestination \<Rightarrow> CScript" where
  "GetScriptForDestination CNoDestination = []"
| "GetScriptForDestination (CKeyID keyID) =
     push_opcode OP_DUP @ push_opcode OP_HASH160 @ push_data (uint160_data keyID) @ push_opcode OP_EQUALVERIFY @ push_opcode OP_CHECKSIG"
| "GetScriptForDestination (CScriptID scriptID) =
     push_opcode OP_HASH160 @ push_data (uint160_data scriptID) @ push_opcode OP_EQUAL"

fun GetScriptForNullAssetDataDestination :: "CTxDestination \<Rightarrow> CScript" where
  "GetScriptForNullAssetDataDestination CNoDestination = []"
| "GetScriptForNullAssetDataDestination (CKeyID keyID) = push_opcode OP_AVN_ASSET @ push_data (uint160_data keyID)"
| "GetScriptForNullAssetDataDestination (CScriptID scriptID) = push_opcode OP_AVN_ASSET @ push_data (uint160_data scriptID)"

definition IsValidDestination :: "CTxDestination \<Rightarrow> bool" where "IsValidDestination dest \<longleftrightarrow> dest \<noteq> CNoDestination"

section \<open>Scripts of destinations\<close>

lemma key_script: "GetScriptForDestination (CKeyID k) = [0x76, 0xa9, 0x14] @ uint160_data k @ [0x88, 0xac]"
  by (simp add: push_opcode_def push_data_def)

lemma script_script: "GetScriptForDestination (CScriptID k) = [0xa9, 0x14] @ uint160_data k @ [0x87]"
  by (simp add: push_opcode_def push_data_def)

lemma key_script_solved:
  assumes "length h = 20"
  shows "Solver ([0x76, 0xa9, 0x14] @ h @ [0x88, 0xac]) = Some (TX_PUBKEYHASH, [h])"
proof -
  have p: "match_template [OP_PUBKEY, OP_CHECKSIG] ([0x76, 0xa9, 0x14] @ h @ [0x88, 0xac]) [] = None"
    by (simp add: GetOp2_def match_item_def)
  have "match_template [OP_DUP, OP_HASH160, OP_PUBKEYHASH, OP_EQUALVERIFY, OP_CHECKSIG] ([0x76, 0xa9, 0x14] @ h @ [0x88, 0xac]) [] = Some [h]"
    using assms by (simp add: GetOp2_def match_item_def push_size_def)
  then show ?thesis using p assms by (simp add: Solver_def IsPayToScriptHash_def IsAssetScript_def IsWitnessProgram_def mTemplates_def)
qed

lemma script_script_solved: "length h = 20 \<Longrightarrow> Solver ([0xa9, 0x14] @ h @ [0x87]) = Some (TX_SCRIPTHASH, [h])"
  by (simp add: Solver_def IsPayToScriptHash_def nth_append)

lemma ExtractDestination_script: "d \<noteq> CNoDestination \<Longrightarrow> ExtractDestination (GetScriptForDestination d) = Some d"
proof (cases d)
  case (CKeyID k)
  then show ?thesis using key_script_solved [of "uint160_data k"] unfolding key_script by (simp add: ExtractDestination_def key_script uint160_of_data del: GetScriptForDestination.simps)
next
  case (CScriptID k)
  then show ?thesis using script_script_solved [of "uint160_data k"] by (simp add: ExtractDestination_def script_script uint160_of_data del: GetScriptForDestination.simps)
qed simp

end
