(* ===== verification/Asset_Data.thy ===== *)
theory Asset_Data
  imports Standard
begin

text \<open>
  Asset data in scripts: the serializable classes of \<^verbatim>\<open>src/assets/assettypes.h\<close>, the scripts that carry them and the functions of
  \<^verbatim>\<open>src/assets/assets.cpp\<close> and \<^verbatim>\<open>src/script/script.cpp\<close> that read them back.  A freshly constructed object is read into, so a field that is
  not read keeps the value of \<open>SetNull\<close>.  The functions that fill in an address return it with the data; addresses depend on the
  network through its base-58 prefixes.
\<close>

section \<open>The classes\<close>

definition ser_int8 :: "int \<Rightarrow> byte list" where "ser_int8 v = ser_writedata8 (of_int v)"

definition unser_int8 :: "int reader" where "unser_int8 s = ebind (ser_readdata8 s) (\<lambda>(v, s). Inr (sint v, s))"

definition IPFS_SHA2_256 :: byte where "IPFS_SHA2_256 = 0x12"
definition TXID_NOTIFIER :: byte where "TXID_NOTIFIER = 0x54"
definition IPFS_SHA2_256_LEN :: byte where "IPFS_SHA2_256_LEN = 0x20"

text \<open>\<open>ReadWriteAssetIPFSHash\<close>, writing and reading.\<close>

definition ser_IPFSHash :: "std_string \<Rightarrow> byte list \<times> bool" where
  "ser_IPFSHash h =
     (if length h = 34 then (ser_writedata8 IPFS_SHA2_256 @ ser_bytes (drop 2 h), True)
      else if length h = 32 then (ser_writedata8 TXID_NOTIFIER @ ser_bytes h, True)
      else ([], False))"

definition unser_IPFSHash :: "(std_string \<times> bool) reader" where
  "unser_IPFSHash s =
     (if s \<noteq> [] \<and> 33 \<le> length s then
        ebind (ser_readdata8 s) (\<lambda>(sha2_256, s). ebind (unser_bytes s) (\<lambda>(hash, s).
          Inr (((if sha2_256 = IPFS_SHA2_256 then [IPFS_SHA2_256, IPFS_SHA2_256_LEN] else []) @ take 32 hash, True), s)))
      else Inr (([], False), s))"

record CNewAsset =
  na_strName :: std_string
  na_nAmount :: CAmount
  na_units :: int
  na_nReissuable :: int
  na_nHasIPFS :: int
  na_nHasANS :: int
  na_strIPFSHash :: std_string
  na_strANSID :: std_string

definition ser_CNewAsset :: "CNewAsset \<Rightarrow> byte list" where
  "ser_CNewAsset a =
     ser_bytes (na_strName a) @ ser_amount (na_nAmount a) @ ser_int8 (na_units a) @ ser_int8 (na_nReissuable a) @ ser_int8 (na_nHasIPFS a) @
     (if na_nHasIPFS a = 1 then fst (ser_IPFSHash (na_strIPFSHash a)) else []) @ ser_int8 (na_nHasANS a) @
     (if na_nHasANS a = 1 then ser_bytes (na_strANSID a) else [])"

definition unser_CNewAsset :: "CNewAsset reader" where
  "unser_CNewAsset s =
     ebind (unser_bytes s) (\<lambda>(name, s). ebind (unser_amount s) (\<lambda>(nAmount, s). ebind (unser_int8 s) (\<lambda>(units, s).
     ebind (unser_int8 s) (\<lambda>(nReissuable, s). ebind (unser_int8 s) (\<lambda>(nHasIPFS, s).
     ebind (if nHasIPFS = 1 then ebind (unser_IPFSHash s) (\<lambda>((h, _), s). Inr (h, s)) else Inr ([], s)) (\<lambda>(ipfs, s).
     ebind (unser_int8 s) (\<lambda>(nHasANS, s).
     ebind (if nHasANS = 1 then unser_bytes s else Inr ([], s)) (\<lambda>(ans, s).
       Inr (\<lparr>na_strName = name, na_nAmount = nAmount, na_units = units, na_nReissuable = nReissuable, na_nHasIPFS = nHasIPFS,
             na_nHasANS = nHasANS, na_strIPFSHash = ipfs, na_strANSID = ans\<rparr>, s)))))))))"

record CAssetTransfer =
  at_strName :: std_string
  at_nAmount :: CAmount
  at_message :: std_string
  at_nExpireTime :: int

definition ser_CAssetTransfer :: "CAssetTransfer \<Rightarrow> byte list" where
  "ser_CAssetTransfer t =
     ser_bytes (at_strName t) @ ser_amount (at_nAmount t) @
     (case ser_IPFSHash (at_message t) of (m, validIPFS) \<Rightarrow>
        m @ (if validIPFS \<and> at_nExpireTime t \<noteq> 0 then ser_amount (at_nExpireTime t) else []))"

definition unser_CAssetTransfer :: "CAssetTransfer reader" where
  "unser_CAssetTransfer s =
     ebind (unser_bytes s) (\<lambda>(name, s). ebind (unser_amount s) (\<lambda>(nAmount, s). ebind (unser_IPFSHash s) (\<lambda>((message, validIPFS), s).
     ebind (if validIPFS \<and> s \<noteq> [] \<and> 8 \<le> length s then unser_amount s else Inr (0, s)) (\<lambda>(nExpireTime, s).
       Inr (\<lparr>at_strName = name, at_nAmount = nAmount, at_message = message, at_nExpireTime = nExpireTime\<rparr>, s)))))"

record CReissueAsset =
  ri_strName :: std_string
  ri_nAmount :: CAmount
  ri_nUnits :: int
  ri_nReissuable :: int
  ri_strIPFSHash :: std_string
  ri_strANSID :: std_string

definition ser_CReissueAsset :: "CReissueAsset \<Rightarrow> byte list" where
  "ser_CReissueAsset r =
     ser_bytes (ri_strName r) @ ser_amount (ri_nAmount r) @ ser_int8 (ri_nUnits r) @ ser_int8 (ri_nReissuable r) @
     fst (ser_IPFSHash (ri_strIPFSHash r)) @ ser_bytes (ri_strANSID r)"

definition unser_CReissueAsset :: "CReissueAsset reader" where
  "unser_CReissueAsset s =
     ebind (unser_bytes s) (\<lambda>(name, s). ebind (unser_amount s) (\<lambda>(nAmount, s). ebind (unser_int8 s) (\<lambda>(nUnits, s).
     ebind (unser_int8 s) (\<lambda>(nReissuable, s). ebind (unser_IPFSHash s) (\<lambda>((ipfs, _), s). ebind (unser_bytes s) (\<lambda>(ans, s).
       Inr (\<lparr>ri_strName = name, ri_nAmount = nAmount, ri_nUnits = nUnits, ri_nReissuable = nReissuable, ri_strIPFSHash = ipfs,
             ri_strANSID = ans\<rparr>, s)))))))"

record CNullAssetTxData =
  nd_asset_name :: std_string
  nd_flag :: int

definition ser_CNullAssetTxData :: "CNullAssetTxData \<Rightarrow> byte list" where
  "ser_CNullAssetTxData d = ser_bytes (nd_asset_name d) @ ser_int8 (nd_flag d)"

definition unser_CNullAssetTxData :: "CNullAssetTxData reader" where
  "unser_CNullAssetTxData s =
     ebind (unser_bytes s) (\<lambda>(name, s). ebind (unser_int8 s) (\<lambda>(flag, s). Inr (\<lparr>nd_asset_name = name, nd_flag = flag\<rparr>, s)))"

section \<open>Writing scripts\<close>

definition asset_push :: "byte \<Rightarrow> byte list \<Rightarrow> CScript" where
  "asset_push tag data = push_opcode OP_AVN_ASSET @ push_data ([AVN_R, AVN_V, AVN_N, tag] @ data) @ push_opcode OP_DROP"

definition CNewAsset_ConstructTransaction :: "CNewAsset \<Rightarrow> CScript \<Rightarrow> CScript" where
  "CNewAsset_ConstructTransaction a script = script @ asset_push AVN_Q (ser_CNewAsset a)"

definition ConstructOwnerTransaction :: "CNewAsset \<Rightarrow> CScript \<Rightarrow> CScript" where
  "ConstructOwnerTransaction a script = script @ asset_push AVN_O (ser_bytes (na_strName a @ [OWNER_TAG]))"

definition CAssetTransfer_ConstructTransaction :: "CAssetTransfer \<Rightarrow> CScript \<Rightarrow> CScript" where
  "CAssetTransfer_ConstructTransaction t script = script @ asset_push AVN_T (ser_CAssetTransfer t)"

definition CReissueAsset_ConstructTransaction :: "CReissueAsset \<Rightarrow> CScript \<Rightarrow> CScript" where
  "CReissueAsset_ConstructTransaction r script = script @ asset_push AVN_R (ser_CReissueAsset r)"

definition CNullAssetTxData_ConstructTransaction :: "CNullAssetTxData \<Rightarrow> CScript \<Rightarrow> CScript" where
  "CNullAssetTxData_ConstructTransaction d script = script @ push_data (ser_CNullAssetTxData d)"

definition ConstructGlobalRestrictionTransaction :: "CNullAssetTxData \<Rightarrow> CScript \<Rightarrow> CScript" where
  "ConstructGlobalRestrictionTransaction d script =
     script @ push_opcode OP_AVN_ASSET @ push_opcode OP_RESERVED @ push_opcode OP_RESERVED @ push_data (ser_CNullAssetTxData d)"

definition VerifierString_ConstructTransaction :: "std_string \<Rightarrow> CScript \<Rightarrow> CScript" where
  "VerifierString_ConstructTransaction verifier script =
     script @ push_opcode OP_AVN_ASSET @ push_opcode OP_RESERVED @ push_data (ser_bytes verifier)"

section \<open>Reading scripts\<close>

text \<open>The script tests with their starting index.\<close>

definition IsScriptNewAsset :: "CScript \<Rightarrow> nat option" where
  "IsScriptNewAsset s = (case IsAssetScript s of Some (nType, fIsOwner, start) \<Rightarrow> if nType = TX_NEW_ASSET \<and> \<not> fIsOwner then Some start else None | None \<Rightarrow> None)"

definition IsScriptOwnerAsset :: "CScript \<Rightarrow> nat option" where
  "IsScriptOwnerAsset s = (case IsAssetScript s of Some (nType, fIsOwner, start) \<Rightarrow> if nType = TX_NEW_ASSET \<and> fIsOwner then Some start else None | None \<Rightarrow> None)"

definition IsScriptReissueAsset :: "CScript \<Rightarrow> nat option" where
  "IsScriptReissueAsset s = (case IsAssetScript s of Some (nType, _, start) \<Rightarrow> if nType = TX_REISSUE_ASSET then Some start else None | None \<Rightarrow> None)"

definition IsScriptTransferAsset :: "CScript \<Rightarrow> nat option" where
  "IsScriptTransferAsset s = (case IsAssetScript s of Some (nType, _, start) \<Rightarrow> if nType = TX_TRANSFER_ASSET then Some start else None | None \<Rightarrow> None)"

definition script_address :: "base58_prefixes \<Rightarrow> CScript \<Rightarrow> std_string" where
  "script_address P s = EncodeDestination P (case ExtractDestination s of Some d \<Rightarrow> d | None \<Rightarrow> CNoDestination)"

text \<open>What the readers share: the start of the data, the address, the stream; an exception of the stream is the result \<open>false\<close>.\<close>

definition from_script :: "base58_prefixes \<Rightarrow> 'a reader \<Rightarrow> nat option \<Rightarrow> CScript \<Rightarrow> ('a \<times> std_string) option" where
  "from_script P unser start s =
     (case start of
        None \<Rightarrow> None
      | Some nStartingIndex \<Rightarrow> (case unser (drop nStartingIndex s) of Inl _ \<Rightarrow> None | Inr (a, _) \<Rightarrow> Some (a, script_address P s)))"

definition TransferAssetFromScript :: "base58_prefixes \<Rightarrow> CScript \<Rightarrow> (CAssetTransfer \<times> std_string) option" where
  "TransferAssetFromScript P s = from_script P unser_CAssetTransfer (IsScriptTransferAsset s) s"

definition AssetFromScript :: "base58_prefixes \<Rightarrow> CScript \<Rightarrow> (CNewAsset \<times> std_string) option" where
  "AssetFromScript P s = from_script P unser_CNewAsset (IsScriptNewAsset s) s"

definition OwnerAssetFromScript :: "base58_prefixes \<Rightarrow> CScript \<Rightarrow> (std_string \<times> std_string) option" where
  "OwnerAssetFromScript P s = from_script P unser_bytes (IsScriptOwnerAsset s) s"

definition ReissueAssetFromScript :: "base58_prefixes \<Rightarrow> CScript \<Rightarrow> (CReissueAsset \<times> std_string) option" where
  "ReissueAssetFromScript P s = from_script P unser_CReissueAsset (IsScriptReissueAsset s) s"

definition AssetNullDataFromScript :: "base58_prefixes \<Rightarrow> CScript \<Rightarrow> (CNullAssetTxData \<times> std_string) option" where
  "AssetNullDataFromScript P s = from_script P unser_CNullAssetTxData (if IsNullAssetTxDataScript s then Some 23 else None) s"

definition GlobalAssetNullDataFromScript :: "CScript \<Rightarrow> CNullAssetTxData option" where
  "GlobalAssetNullDataFromScript s =
     (if \<not> IsNullGlobalRestrictionAssetTxDataScript s then None
      else case unser_CNullAssetTxData (drop 4 s) of Inl _ \<Rightarrow> None | Inr (d, _) \<Rightarrow> Some d)"

definition AssetNullVerifierDataFromScript :: "CScript \<Rightarrow> std_string option" where
  "AssetNullVerifierDataFromScript s =
     (if \<not> IsNullAssetVerifierTxDataScript s then None
      else case unser_bytes (drop 3 s) of Inl _ \<Rightarrow> None | Inr (v, _) \<Rightarrow> Some v)"

text \<open>The tests on the type of the name of a new asset.\<close>

definition new_asset_type :: "base58_prefixes \<Rightarrow> CScript \<Rightarrow> AssetType \<Rightarrow> bool" where
  "new_asset_type P s t =
     (case AssetFromScript P s of None \<Rightarrow> False | Some (asset, _) \<Rightarrow> IsAssetNameValid (na_strName asset) = (True, t))"

definition IsScriptNewUniqueAsset :: "base58_prefixes \<Rightarrow> CScript \<Rightarrow> bool" where
  "IsScriptNewUniqueAsset P s \<longleftrightarrow> IsAssetScript s \<noteq> None \<and> new_asset_type P s UNIQUE"

definition IsScriptNewMsgChannelAsset :: "base58_prefixes \<Rightarrow> CScript \<Rightarrow> bool" where
  "IsScriptNewMsgChannelAsset P s \<longleftrightarrow> IsAssetScript s \<noteq> None \<and> new_asset_type P s MSGCHANNEL"

definition IsScriptNewQualifierAsset :: "base58_prefixes \<Rightarrow> CScript \<Rightarrow> bool" where
  "IsScriptNewQualifierAsset P s \<longleftrightarrow> IsAssetScript s \<noteq> None \<and> (new_asset_type P s QUALIFIER \<or> new_asset_type P s SUB_QUALIFIER)"

definition IsScriptNewRestrictedAsset :: "base58_prefixes \<Rightarrow> CScript \<Rightarrow> bool" where
  "IsScriptNewRestrictedAsset P s \<longleftrightarrow> IsAssetScript s \<noteq> None \<and> new_asset_type P s RESTRICTED"

definition MsgChannelAssetFromScript :: "base58_prefixes \<Rightarrow> CScript \<Rightarrow> (CNewAsset \<times> std_string) option" where
  "MsgChannelAssetFromScript P s = (if IsScriptNewMsgChannelAsset P s then AssetFromScript P s else None)"

definition QualifierAssetFromScript :: "base58_prefixes \<Rightarrow> CScript \<Rightarrow> (CNewAsset \<times> std_string) option" where
  "QualifierAssetFromScript P s = (if IsScriptNewQualifierAsset P s then AssetFromScript P s else None)"

definition RestrictedAssetFromScript :: "base58_prefixes \<Rightarrow> CScript \<Rightarrow> (CNewAsset \<times> std_string) option" where
  "RestrictedAssetFromScript P s = (if IsScriptNewRestrictedAsset P s then AssetFromScript P s else None)"

definition OWNER_ASSET_AMOUNT :: CAmount where "OWNER_ASSET_AMOUNT = 1 * COIN"

record CAssetOutputEntry =
  ae_type :: txnouttype
  ae_assetName :: std_string
  ae_destination :: CTxDestination
  ae_nAmount :: CAmount
  ae_message :: std_string
  ae_expireTime :: int

text \<open>
  The three branches of \<open>GetAssetData\<close> that try the other readers of new assets after \<open>AssetFromScript\<close> has failed lead to the
  result \<open>false\<close> as well; a message and an expiry time are set for transfers only.
\<close>

definition asset_entry :: "base58_prefixes \<Rightarrow> txnouttype \<Rightarrow> std_string \<Rightarrow> CAmount \<Rightarrow> std_string \<Rightarrow> CAssetOutputEntry" where
  "asset_entry P ty name amount address =
     \<lparr>ae_type = ty, ae_assetName = name, ae_destination = DecodeDestination P address, ae_nAmount = amount, ae_message = [], ae_expireTime = 0\<rparr>"

definition GetAssetData :: "base58_prefixes \<Rightarrow> CScript \<Rightarrow> CAssetOutputEntry option" where
  "GetAssetData P s =
     (case IsAssetScript s of
        None \<Rightarrow> None
      | Some (nType, fIsOwner, _) \<Rightarrow>
          if nType = TX_NEW_ASSET \<and> \<not> fIsOwner then
            map_option (\<lambda>(a, address). asset_entry P TX_NEW_ASSET (na_strName a) (na_nAmount a) address) (AssetFromScript P s)
          else if nType = TX_TRANSFER_ASSET then
            map_option (\<lambda>(t, address). (asset_entry P TX_TRANSFER_ASSET (at_strName t) (at_nAmount t) address)
              \<lparr>ae_message := at_message t, ae_expireTime := at_nExpireTime t\<rparr>) (TransferAssetFromScript P s)
          else if nType = TX_NEW_ASSET \<and> fIsOwner then
            map_option (\<lambda>(name, address). asset_entry P TX_NEW_ASSET name OWNER_ASSET_AMOUNT address) (OwnerAssetFromScript P s)
          else if nType = TX_REISSUE_ASSET then
            map_option (\<lambda>(r, address). asset_entry P TX_REISSUE_ASSET (ri_strName r) (ri_nAmount r) address) (ReissueAssetFromScript P s)
          else None)"

text \<open>The copies of the readers in \<open>script.cpp\<close>, for the amount alone.\<close>

definition amount_from :: "'a reader \<Rightarrow> ('a \<Rightarrow> CAmount) \<Rightarrow> nat option \<Rightarrow> CScript \<Rightarrow> CAmount option" where
  "amount_from unser amount start s =
     (case start of
        None \<Rightarrow> None
      | Some nStartingIndex \<Rightarrow> (case unser (drop nStartingIndex s) of Inl _ \<Rightarrow> None | Inr (a, _) \<Rightarrow> Some (amount a)))"

definition AmountFromNewAssetScript :: "CScript \<Rightarrow> CAmount option" where
  "AmountFromNewAssetScript s = amount_from unser_CNewAsset na_nAmount (IsScriptNewAsset s) s"

definition AmountFromTransferScript :: "CScript \<Rightarrow> CAmount option" where
  "AmountFromTransferScript s = amount_from unser_CAssetTransfer at_nAmount (IsScriptTransferAsset s) s"

definition AmountFromReissueScript :: "CScript \<Rightarrow> CAmount option" where
  "AmountFromReissueScript s = amount_from unser_CReissueAsset ri_nAmount (IsScriptReissueAsset s) s"

definition GetAssetAmountFromScript :: "CScript \<Rightarrow> CAmount option" where
  "GetAssetAmountFromScript s =
     (case IsAssetScript s of
        None \<Rightarrow> None
      | Some (nType, fIsOwner, _) \<Rightarrow>
          if nType = TX_NEW_ASSET \<and> \<not> fIsOwner then AmountFromNewAssetScript s
          else if nType = TX_TRANSFER_ASSET then AmountFromTransferScript s
          else if nType = TX_NEW_ASSET \<and> fIsOwner then Some OWNER_ASSET_AMOUNT
          else if nType = TX_REISSUE_ASSET then AmountFromReissueScript s
          else None)"

definition IsUnspendable :: "CScript \<Rightarrow> bool" where
  "IsUnspendable s \<longleftrightarrow>
     (length s > 0 \<and> unat (hd s) = OP_RETURN) \<or> (length s > 0 \<and> unat (hd s) = OP_AVN_ASSET) \<or> length s > MAX_SCRIPT_SIZE \<or>
     GetAssetAmountFromScript s = Some 0"

section \<open>Codecs\<close>

definition int8_range :: "int \<Rightarrow> bool" where "int8_range v \<longleftrightarrow> - 128 \<le> v \<and> v < 128"

lemma unser_int8_ser: "int8_range v \<Longrightarrow> unser_int8 (ser_int8 v @ s) = Inr (v, s)"
  by (simp add: unser_int8_def ser_int8_def ser_writedata8_def int8_range_def signed_of_int signed_take_bit_int_eq_self)

text \<open>What \<open>ReadWriteAssetIPFSHash\<close> can carry: a 34-byte hash with its two-byte header, or a 32-byte transaction id.\<close>

definition ipfs_ok :: "std_string \<Rightarrow> bool" where
  "ipfs_ok h \<longleftrightarrow> length h = 34 \<and> take 2 h = [IPFS_SHA2_256, IPFS_SHA2_256_LEN] \<or> length h = 32"

lemma unser_IPFSHash_ser:
  assumes "ipfs_ok h"
  shows "unser_IPFSHash (fst (ser_IPFSHash h) @ s) = Inr ((h, True), s)"
proof -
  have len: "length (ser_bytes v) = Suc (length v)" if "length v = 32" for v
    using that by (simp add: ser_bytes_def WriteCompactSize_def ser_writedata8_def)
  show ?thesis
  proof (cases "length h = 34")
    case True
    then have h: "h = [IPFS_SHA2_256, IPFS_SHA2_256_LEN] @ drop 2 h" using assms append_take_drop_id [of 2 h] by (simp add: ipfs_ok_def)
    have "unser_bytes (ser_bytes (drop 2 h) @ s) = Inr (drop 2 h, s)" using True by (intro bytes.unser_ser) (simp add: MAX_SIZE_def)
    then show ?thesis using True len [of "drop 2 h"] h by (simp add: unser_IPFSHash_def ser_IPFSHash_def ser_writedata8_def)
  next
    case False
    then have l: "length h = 32" using assms by (simp add: ipfs_ok_def)
    have "unser_bytes (ser_bytes h @ s) = Inr (h, s)" using l by (intro bytes.unser_ser) (simp add: MAX_SIZE_def)
    then show ?thesis using l len [of h] by (simp add: unser_IPFSHash_def ser_IPFSHash_def ser_writedata8_def TXID_NOTIFIER_def IPFS_SHA2_256_def)
  qed
qed

lemma ser_IPFSHash_valid: "ipfs_ok h \<Longrightarrow> snd (ser_IPFSHash h)"
  by (auto simp: ser_IPFSHash_def ipfs_ok_def)

lemma unser_IPFSHash_short: "length s < 33 \<Longrightarrow> unser_IPFSHash s = Inr (([], False), s)"
  by (simp add: unser_IPFSHash_def)

lemma unser_string: "length v \<le> 31 \<Longrightarrow> unser_bytes (ser_bytes v @ s) = Inr (v, s)"
  by (rule bytes.unser_ser) (simp add: MAX_SIZE_def)

text \<open>The values the scripts can carry.\<close>

definition transfer_ok :: "CAssetTransfer \<Rightarrow> bool" where
  "transfer_ok t \<longleftrightarrow> length (at_strName t) \<le> 31 \<and> int64_range (at_nAmount t) \<and>
     (if at_message t = [] then at_nExpireTime t = 0 else ipfs_ok (at_message t) \<and> int64_range (at_nExpireTime t))"

definition new_asset_ok :: "CNewAsset \<Rightarrow> bool" where
  "new_asset_ok a \<longleftrightarrow> length (na_strName a) \<le> 31 \<and> int64_range (na_nAmount a) \<and> int8_range (na_units a) \<and> int8_range (na_nReissuable a) \<and>
     int8_range (na_nHasIPFS a) \<and> int8_range (na_nHasANS a) \<and>
     (if na_nHasIPFS a = 1 then ipfs_ok (na_strIPFSHash a) else na_strIPFSHash a = []) \<and>
     (if na_nHasANS a = 1 then length (na_strANSID a) \<le> 64 else na_strANSID a = [])"

text \<open>A reissue without an IPFS hash must have a short name-system id, or the id is taken for a hash.\<close>

definition reissue_ok :: "CReissueAsset \<Rightarrow> bool" where
  "reissue_ok r \<longleftrightarrow> length (ri_strName r) \<le> 31 \<and> int64_range (ri_nAmount r) \<and> int8_range (ri_nUnits r) \<and> int8_range (ri_nReissuable r) \<and>
     (if ri_strIPFSHash r = [] then length (ri_strANSID r) \<le> 30 else ipfs_ok (ri_strIPFSHash r) \<and> length (ri_strANSID r) \<le> 64)"

lemma unser_transfer: "transfer_ok t \<Longrightarrow> unser_CAssetTransfer (ser_CAssetTransfer t @ [d]) = Inr (t, [d])"
proof (cases "at_message t = []")
  case True
  moreover assume "transfer_ok t"
  ultimately show ?thesis
    by (simp add: unser_CAssetTransfer_def ser_CAssetTransfer_def transfer_ok_def unser_string amount.unser_ser ser_IPFSHash_def unser_IPFSHash_short)
next
  case False
  assume t: "transfer_ok t"
  then have m: "ipfs_ok (at_message t)" using False by (simp add: transfer_ok_def)
  then have s: "ser_IPFSHash (at_message t) = (fst (ser_IPFSHash (at_message t)), True)" using ser_IPFSHash_valid by (metis prod.collapse)
  have l: "length (ser_amount v) = 8" for v by (simp add: ser_amount_def ser_writedata64_def WriteLE64_def)
  have "ser_CAssetTransfer t = ser_bytes (at_strName t) @ ser_amount (at_nAmount t) @ fst (ser_IPFSHash (at_message t)) @
      (if at_nExpireTime t \<noteq> 0 then ser_amount (at_nExpireTime t) else [])" unfolding ser_CAssetTransfer_def by (subst s) simp
  then show ?thesis using t False m l
    by (simp add: unser_CAssetTransfer_def transfer_ok_def unser_string amount.unser_ser unser_IPFSHash_ser)
qed

lemma unser_new_asset: "new_asset_ok a \<Longrightarrow> unser_CNewAsset (ser_CNewAsset a @ s) = Inr (a, s)"
proof -
  assume a: "new_asset_ok a"
  have ans: "length v \<le> 64 \<Longrightarrow> unser_bytes (ser_bytes v @ s) = Inr (v, s)" for v by (rule bytes.unser_ser) (simp add: MAX_SIZE_def)
  show ?thesis using a
    by (simp add: unser_CNewAsset_def ser_CNewAsset_def new_asset_ok_def unser_string amount.unser_ser unser_int8_ser unser_IPFSHash_ser ans)
qed

lemma unser_reissue: "reissue_ok r \<Longrightarrow> unser_CReissueAsset (ser_CReissueAsset r @ [d]) = Inr (r, [d])"
proof -
  assume r: "reissue_ok r"
  have ans: "length v \<le> 64 \<Longrightarrow> unser_bytes (ser_bytes v @ s) = Inr (v, s)" for v s by (rule bytes.unser_ser) (simp add: MAX_SIZE_def)
  have l: "length v \<le> 30 \<Longrightarrow> length (ser_bytes v) \<le> 31" for v
    by (simp add: ser_bytes_def WriteCompactSize_def ser_writedata8_def word_less_nat_alt unat_of_nat)
  show ?thesis
  proof (cases "ri_strIPFSHash r = []")
    case True
    then have "length (ser_bytes (ri_strANSID r) @ [d]) < 33" using r l [of "ri_strANSID r"] by (simp add: reissue_ok_def)
    then show ?thesis using r True ans [of "ri_strANSID r" "[d]"]
      by (simp add: unser_CReissueAsset_def ser_CReissueAsset_def reissue_ok_def unser_string amount.unser_ser unser_int8_ser unser_IPFSHash_short ser_IPFSHash_def)
  next
    case False
    then show ?thesis using r ans [of "ri_strANSID r" "[d]"]
      by (simp add: unser_CReissueAsset_def ser_CReissueAsset_def reissue_ok_def unser_string amount.unser_ser unser_int8_ser unser_IPFSHash_ser)
  qed
qed

section \<open>Scripts are read back\<close>

lemma asset_push_form:
  assumes "length data \<le> 251"
  shows "asset_push tag data =
    0xc0 # (if length data < 72 then [of_nat (4 + length data)] else [0x4c, of_nat (4 + length data)]) @ [AVN_R, AVN_V, AVN_N, tag] @ data @ [0x75]"
  using assms by (simp add: asset_push_def push_opcode_def push_data_def)

lemma nth_after:
  assumes "length p = 25"
  shows "(p @ xs) ! 25 = xs ! 0" "(p @ xs) ! 27 = xs ! 2" "(p @ xs) ! 28 = xs ! 3" "(p @ xs) ! 29 = xs ! 4" "(p @ xs) ! 30 = xs ! 5" "(p @ xs) ! 31 = xs ! 6"
  using assms by (simp_all add: nth_append)

definition asset_kind :: "byte \<Rightarrow> (txnouttype \<times> bool) option" where
  "asset_kind tag =
     (if tag = AVN_T then Some (TX_TRANSFER_ASSET, False) else if tag = AVN_Q then Some (TX_NEW_ASSET, False)
      else if tag = AVN_O then Some (TX_NEW_ASSET, True) else if tag = AVN_R then Some (TX_REISSUE_ASSET, False) else None)"

text \<open>
  A push of up to 255 bytes is recognised, whether its length takes one byte or two, except one of 114 bytes: the length byte is then
  the letter \<open>r\<close> at index 27, and the letters are not looked for at index 28.
\<close>

lemma asset_script_parse:
  assumes "length p = 25" "length data \<le> 251" "tag = AVN_Q \<longrightarrow> 8 \<le> length data" "length data \<noteq> 110" "asset_kind tag = Some (ty, own)"
  shows "\<exists>start. IsAssetScript (p @ asset_push tag data) = Some (ty, own, start) \<and> drop start (p @ asset_push tag data) = data @ [0x75]"
proof (cases "length data < 72")
  case True
  then have "asset_marker_index (p @ asset_push tag data) = Some 30" "(p @ asset_push tag data) ! 30 = tag" "(p @ asset_push tag data) ! 25 = 0xc0"
    "drop 31 (p @ asset_push tag data) = data @ [0x75]"
    using assms(1,2) by (simp_all add: asset_marker_index_def nth_after asset_push_form)
  then show ?thesis using assms True by (auto simp: IsAssetScript_def asset_kind_def asset_push_form split: if_splits)
next
  case False
  have "(of_nat (4 + length data) :: byte) \<noteq> AVN_R"
  proof
    assume "(of_nat (4 + length data) :: byte) = AVN_R"
    then have "unat (of_nat (4 + length data) :: byte) = unat (AVN_R :: byte)" by (rule arg_cong)
    then have "(4 + length data) mod 256 = 114" unfolding unat_of_nat by simp
    then show False using assms(2,4) by simp
  qed
  then have "asset_marker_index (p @ asset_push tag data) = Some 31" "(p @ asset_push tag data) ! 31 = tag" "(p @ asset_push tag data) ! 25 = 0xc0"
    "drop 32 (p @ asset_push tag data) = data @ [0x75]"
    using assms(1,2) False by (simp_all add: asset_marker_index_def nth_after asset_push_form)
  then show ?thesis using assms False by (auto simp: IsAssetScript_def asset_kind_def asset_push_form split: if_splits)
qed

lemma asset_script_114:
  assumes "length p = 25" "length data = 110"
  shows "IsAssetScript (p @ asset_push tag data) = None"
  using assms by (simp add: IsAssetScript_def asset_marker_index_def nth_after asset_push_form)

lemma asset_script_address:
  assumes "IsAssetScript (GetScriptForDestination (CKeyID k) @ r) = Some (ty, own, start)"
    and "ty = TX_NEW_ASSET \<or> ty = TX_TRANSFER_ASSET \<or> ty = TX_REISSUE_ASSET"
  shows "script_address P (GetScriptForDestination (CKeyID k) @ r) = EncodeDestination P (CKeyID k)"
proof -
  let ?s = "GetScriptForDestination (CKeyID k) @ r"
  have "length ?s > 23" unfolding key_script by simp
  then have "\<not> IsPayToScriptHash ?s" by (simp add: IsPayToScriptHash_def)
  then have "Solver ?s = Some (ty, [take 20 (drop 3 ?s)])" using assms(1) unfolding Solver_def by simp
  moreover have "take 20 (drop 3 ?s) = uint160_data k" unfolding key_script by simp
  ultimately show ?thesis using assms(2) by (auto simp: script_address_def ExtractDestination_def uint160_of_data)
qed

lemma key_script_length: "length (GetScriptForDestination (CKeyID k)) = 25"
  unfolding key_script by simp

lemma from_script_push:
  assumes "unser (data @ [0x75]) = Inr (a, [0x75])" "tag = AVN_Q \<longrightarrow> 8 \<le> length data" "length data \<le> 251" "length data \<noteq> 110" "asset_kind tag = Some (ty, own)"
    and start: "start = (case IsAssetScript (GetScriptForDestination (CKeyID k) @ asset_push tag data) of Some (t, o', i) \<Rightarrow> if t = ty \<and> (ty = TX_NEW_ASSET \<longrightarrow> o' = own) then Some i else None | None \<Rightarrow> None)"
  shows "from_script P unser start (GetScriptForDestination (CKeyID k) @ asset_push tag data) = Some (a, EncodeDestination P (CKeyID k))"
proof -
  obtain i where i: "IsAssetScript (GetScriptForDestination (CKeyID k) @ asset_push tag data) = Some (ty, own, i)"
    "drop i (GetScriptForDestination (CKeyID k) @ asset_push tag data) = data @ [0x75]"
    using asset_script_parse [OF key_script_length assms(3,2,4,5)] by blast
  have "ty = TX_NEW_ASSET \<or> ty = TX_TRANSFER_ASSET \<or> ty = TX_REISSUE_ASSET" using assms(5) by (auto simp: asset_kind_def split: if_splits)
  then show ?thesis using assms(1) i asset_script_address [OF i(1)] start by (simp add: from_script_def)
qed

lemma ser_bytes_length: "length v \<le> 64 \<Longrightarrow> length (ser_bytes v) = Suc (length v)"
  by (simp add: ser_bytes_def WriteCompactSize_def ser_writedata8_def word_less_nat_alt unat_of_nat)

lemma ser_amount_length: "length (ser_amount v) = 8"
  by (simp add: ser_amount_def ser_writedata64_def WriteLE64_def)

lemma ser_int8_length: "length (ser_int8 v) = 1"
  by (simp add: ser_int8_def ser_writedata8_def)

lemma ser_IPFSHash_length: "length (fst (ser_IPFSHash h)) \<le> 34"
  by (simp add: ser_IPFSHash_def ser_writedata8_def ser_bytes_length)

lemmas asset_lengths = ser_bytes_length ser_amount_length ser_int8_length

lemma transfer_length: "transfer_ok t \<Longrightarrow> 8 \<le> length (ser_CAssetTransfer t) \<and> length (ser_CAssetTransfer t) \<le> 82"
  using ser_IPFSHash_length [of "at_message t"]
  by (auto simp: ser_CAssetTransfer_def transfer_ok_def ser_bytes_length ser_amount_length split: prod.splits)

lemma new_asset_length: "new_asset_ok a \<Longrightarrow> 8 \<le> length (ser_CNewAsset a) \<and> length (ser_CNewAsset a) \<le> 143"
  using ser_IPFSHash_length [of "na_strIPFSHash a"]
  by (auto simp: ser_CNewAsset_def new_asset_ok_def ser_bytes_length ser_amount_length ser_int8_length)

lemma reissue_length: "reissue_ok r \<Longrightarrow> 8 \<le> length (ser_CReissueAsset r) \<and> length (ser_CReissueAsset r) \<le> 141"
  using ser_IPFSHash_length [of "ri_strIPFSHash r"]
  by (auto simp: ser_CReissueAsset_def reissue_ok_def ser_bytes_length ser_amount_length ser_int8_length split: if_splits)

lemma asset_kinds: "asset_kind AVN_T = Some (TX_TRANSFER_ASSET, False)" "asset_kind AVN_Q = Some (TX_NEW_ASSET, False)"
  "asset_kind AVN_O = Some (TX_NEW_ASSET, True)" "asset_kind AVN_R = Some (TX_REISSUE_ASSET, False)"
  by (simp_all add: asset_kind_def)

lemma transfer_script:
  assumes "transfer_ok t"
  shows "TransferAssetFromScript P (CAssetTransfer_ConstructTransaction t (GetScriptForDestination (CKeyID k))) = Some (t, EncodeDestination P (CKeyID k))"
  unfolding TransferAssetFromScript_def CAssetTransfer_ConstructTransaction_def
  by (rule from_script_push [where unser = unser_CAssetTransfer and data = "ser_CAssetTransfer t", OF unser_transfer [OF assms] _ _ _ asset_kinds(1)])
    (use transfer_length [OF assms] in \<open>auto simp: IsScriptTransferAsset_def split: option.splits\<close>)

lemma new_asset_script:
  assumes "new_asset_ok a" "length (ser_CNewAsset a) \<noteq> 110"
  shows "AssetFromScript P (CNewAsset_ConstructTransaction a (GetScriptForDestination (CKeyID k))) = Some (a, EncodeDestination P (CKeyID k))"
  unfolding AssetFromScript_def CNewAsset_ConstructTransaction_def
  by (rule from_script_push [where unser = unser_CNewAsset and data = "ser_CNewAsset a", OF unser_new_asset [OF assms(1)] _ _ _ asset_kinds(2)])
    (use new_asset_length [OF assms(1)] assms(2) in \<open>auto simp: IsScriptNewAsset_def split: option.splits\<close>)

lemma owner_script:
  assumes "length (na_strName a) \<le> 30"
  shows "OwnerAssetFromScript P (ConstructOwnerTransaction a (GetScriptForDestination (CKeyID k))) = Some (na_strName a @ [OWNER_TAG], EncodeDestination P (CKeyID k))"
proof -
  have "unser_bytes (ser_bytes (na_strName a @ [OWNER_TAG]) @ [0x75]) = Inr (na_strName a @ [OWNER_TAG], [0x75])" using assms by (intro unser_string) simp
  then show ?thesis unfolding OwnerAssetFromScript_def ConstructOwnerTransaction_def
    by (rule from_script_push [where unser = unser_bytes and data = "ser_bytes (na_strName a @ [OWNER_TAG])", OF _ _ _ _ asset_kinds(3)]) (use assms in \<open>auto simp: IsScriptOwnerAsset_def ser_bytes_length split: option.splits\<close>)
qed

lemma reissue_script:
  assumes "reissue_ok r" "length (ser_CReissueAsset r) \<noteq> 110"
  shows "ReissueAssetFromScript P (CReissueAsset_ConstructTransaction r (GetScriptForDestination (CKeyID k))) = Some (r, EncodeDestination P (CKeyID k))"
  unfolding ReissueAssetFromScript_def CReissueAsset_ConstructTransaction_def
  by (rule from_script_push [where unser = unser_CReissueAsset and data = "ser_CReissueAsset r", OF unser_reissue [OF assms(1)] _ _ _ asset_kinds(4)])
    (use reissue_length [OF assms(1)] assms(2) in \<open>auto simp: IsScriptReissueAsset_def split: option.splits\<close>)


definition example_transfer :: CAssetTransfer where
  "example_transfer = \<lparr>at_strName = str ''GOLD/BAR'', at_nAmount = 700000000, at_message = [IPFS_SHA2_256, IPFS_SHA2_256_LEN] @ replicate 32 7, at_nExpireTime = 1700000000\<rparr>"

definition example_asset :: CNewAsset where
  "example_asset = \<lparr>na_strName = str ''GOLD'', na_nAmount = 100000000000, na_units = 0, na_nReissuable = 1, na_nHasIPFS = 0, na_nHasANS = 1,
     na_strIPFSHash = [], na_strANSID = str ''ANS1c0a80001''\<rparr>"

definition example_reissue :: CReissueAsset where
  "example_reissue = \<lparr>ri_strName = str ''GOLD'', ri_nAmount = 100000000, ri_nUnits = - 1, ri_nReissuable = 1, ri_strIPFSHash = [], ri_strANSID = []\<rparr>"


section \<open>Data that cannot be read back\<close>

lemma unser_bytes_cut: "length s < 65 \<Longrightarrow> \<exists>e. unser_bytes (0x41 # s) = Inl e"
proof (cases "unser_bytes (0x41 # s)")
  case (Inr x)
  assume l: "length s < 65"
  obtain v s' where x: "x = (v, s')" by (cases x)
  then have v: "length v \<le> MAX_SIZE" "0x41 # s = WriteCompactSize (of_nat (length v)) @ v @ s'"
    using Inr bytes.ser_unser [of "0x41 # s" v s'] by (auto simp: ser_bytes_def)
  have u: "unat (of_nat (length v) :: 64 word) = length v" using v(1) by (simp add: MAX_SIZE_def unat_of_nat)
  show ?thesis
  proof (cases "length v < 253")
    case True
    then have "ucast (of_nat (length v) :: 64 word) = (0x41 :: byte)" "s = v @ s'"
      using v(2) u by (simp_all add: WriteCompactSize_def ser_writedata8_def word_less_nat_alt)
    moreover from this(1) have "unat (ucast (of_nat (length v) :: 64 word) :: byte) = 0x41" by simp
    then have "length v = 0x41" using True u by (simp add: unsigned_ucast_eq take_bit_nat_eq_self)
    ultimately show ?thesis using l by simp
  next
    case False
    then show ?thesis using v(2) u by (auto simp: WriteCompactSize_def ser_writedata8_def word_less_nat_alt split: if_splits)
  qed
qed simp



end
