(* ===== verification/Sha256_SelfTest.thy ===== *)
theory Sha256_SelfTest
  imports Sha256
begin

unbundle bit_operations_syntax

text \<open>
  The self test that \<open>SHA256AutoDetect\<close> asserts at start-up (\<^verbatim>\<open>src/crypto/sha256.cpp\<close>) passes for the
  compiled-in routine.  The three blocks are evaluated in the kernel: \<open>sha256_run\<close> is the compression
  loop with the message window as a list, and the rules below rewrite the word operations on numerals
  below \<open>2 ^ 32\<close>.
\<close>

section \<open>Evaluating word operations\<close>

definition W32 :: "nat \<Rightarrow> word32" where
  "W32 n = of_nat n"

lemma W32_numeral: "(numeral n :: word32) = W32 (numeral n)" "(0 :: word32) = W32 0" "(1 :: word32) = W32 1"
  by (simp_all add: W32_def)

lemma unat_W32: "unat (W32 n) = take_bit 32 n"
  by (simp add: W32_def unat_of_nat take_bit_eq_mod)

lemma W32_add: "W32 a + W32 b = W32 (take_bit 32 (a + b))"
  by (simp add: word_unat_eq_iff unat_word_ariths unat_W32 take_bit_eq_mod mod_add_eq)

lemma W32_bitwise: "W32 a AND W32 b = W32 (a AND b)" "W32 a OR W32 b = W32 (a OR b)"
  "W32 a XOR W32 b = W32 (a XOR b)"
  by (simp_all add: W32_def of_nat_and_eq of_nat_or_eq of_nat_xor_eq)

lemma W32_push: "push_bit k (W32 a) = W32 (push_bit k (take_bit (32 - k) a))"
  by (rule bit_word_eqI) (auto simp: W32_def bit_simps)

lemma W32_drop: "a < 4294967296 \<Longrightarrow> drop_bit k (W32 a) = W32 (drop_bit k a)"
proof -
  assume a: "a < 4294967296"
  then have "a div 2 ^ k < 4294967296" by (rule le_less_trans [OF div_le_dividend])
  with a have "take_bit 32 a = a" "take_bit 32 (drop_bit k a) = drop_bit k a"
    by (simp_all add: take_bit_eq_mod drop_bit_eq_div)
  then show ?thesis unfolding word_unat_eq_iff unsigned_drop_bit_eq unat_W32 by simp
qed

lemma ReadBE32_Cons: "ReadBE32 (a # b # c # d # xs) = W32 (unat d + 256 * (unat c + 256 * (unat b + 256 * unat a)))"
  by (simp add: ReadBE32_def algebra_simps W32_def)

section \<open>The compression loop on a list window\<close>

definition sha256_next :: "word32 list \<Rightarrow> word32" where
  "sha256_next ws = ws ! 0 + (sha256_sigma1 (ws ! 14) + ws ! 9 + sha256_sigma0 (ws ! 1))"

primrec sha256_run :: "word32 list \<Rightarrow> word32 list \<Rightarrow> sha256_state \<Rightarrow> sha256_state" where
  "sha256_run [] ws s = s"
| "sha256_run (k # ks) ws s = sha256_run ks (tl ws @ [sha256_next ws]) (sha256_step k (hd ws) s)"

lemma sha256_steps_run: "sha256_steps M t ks s = sha256_run ks (map (sha256_W M) [t..<t + 16]) s"
proof (induction ks arbitrary: t s)
  case (Cons k ks)
  have "tl (map (sha256_W M) [t..<t + 16]) @ [sha256_next (map (sha256_W M) [t..<t + 16])] =
      map (sha256_W M) [Suc t..<Suc t + 16]"
    using sha256_W_rec [of "t + 16" M] upt_Suc_append [of "Suc t" "t + 16"]
    by (simp add: sha256_next_def tl_upt map_tl [symmetric] add.commute [of _ t])
  moreover have "hd (map (sha256_W M) [t..<t + 16]) = sha256_W M t" by (simp add: upt_conv_Cons)
  ultimately show ?case using Cons.IH [of "Suc t"] by simp
qed simp

lemma sha256_compress_run:
  "sha256_compress s M = sha256_add s (sha256_run sha256_K (map (\<lambda>t. ReadBE32 (drop (4 * t) M)) [0..<16]) s)"
proof -
  have "map (sha256_W M) [0..<16] = map (\<lambda>t. ReadBE32 (drop (4 * t) M)) [0..<16]"
    by (rule map_cong) (simp_all add: sha256_W_0)
  then show ?thesis unfolding sha256_compress_def sha256_steps_run by (simp only: add_0)
qed

lemmas sha256_eval = sha256_K_def sha256_K0_def sha256_K1_def sha256_K2_def sha256_K3_def
  sha256_Initialize_def sha256_step.simps sha256_next_def
  sha256_sigma0_def sha256_sigma1_def sha256_Sigma1_def sha256_Sigma0_def sha256_Ch_def sha256_Maj_def
  W32_numeral W32_add W32_bitwise W32_push W32_drop

fun be_words :: "byte list \<Rightarrow> word32 list" where
  "be_words (a # b # c # d # xs) = ReadBE32 [a, b, c, d] # be_words xs"
| "be_words xs = []"

lemma be_words_append: "length xs = 4 * n \<Longrightarrow> be_words (xs @ ys) = be_words xs @ be_words ys"
proof (induction xs arbitrary: n rule: be_words.induct)
  case (1 a b c d xs)
  then show ?case by (cases n) auto
qed (auto dest: arg_cong [where f = "\<lambda>x. x mod 4"])

lemma be_words_replicate: "be_words (replicate (4 * n) x) = replicate n (ReadBE32 [x, x, x, x])"
  by (induction n) (simp_all add: numeral_eq_Suc)

lemma be_words_drop:
  "4 * n \<le> length M \<Longrightarrow> map (\<lambda>t. ReadBE32 (drop (4 * t) M)) [0..<n] = be_words (take (4 * n) M)"
proof (induction n arbitrary: M)
  case (Suc n)
  then obtain a b c d xs where M: "M = a # b # c # d # xs"
    by (auto simp: numeral_eq_Suc Suc_le_length_iff)
  have "drop (4 + k) M = drop k xs" for k
    by (simp add: M add.commute [of 4] flip: drop_drop)
  then have "map (\<lambda>t. ReadBE32 (drop (4 * t) M)) [0..<Suc n] =
      ReadBE32 M # map (\<lambda>t. ReadBE32 (drop (4 * t) xs)) [0..<n]"
    by (simp add: map_upt_Suc del: upt_Suc)
  moreover have "take (4 * Suc n) M = a # b # c # d # take (4 * n) xs"
    by (simp add: M numeral_eq_Suc)
  ultimately show ?case using Suc by (simp only: be_words.simps) (simp add: M ReadBE32_Cons)
qed simp

lemma be_words_Cons4: "be_words ([a, b, c, d] @ xs) = ReadBE32 [a, b, c, d] # be_words xs"
  by simp

lemma be_words_zeros: "be_words (replicate (4 * n) 0 @ xs) = replicate n 0 @ be_words xs"
  using be_words_append [of "replicate (4 * n) 0" n xs] by (simp add: be_words_replicate ReadBE32_Cons W32_def)

lemma sha256_in1_words: "be_words sha256_in1 = 0x80000000 # replicate 15 0"
proof -
  have e: "sha256_in1 = [0x80, 0, 0, 0] @ replicate (4 * 15) 0 @ []"
    by (simp add: sha256_in1_def numeral_eq_Suc)
  show ?thesis
    unfolding e be_words_Cons4 be_words_zeros by (simp add: ReadBE32_Cons W32_def)
qed

lemma sha256_in2_words:
  "be_words (take 64 sha256_in2) = replicate 16 0x20202020"
  "be_words (drop 64 sha256_in2) = 0x80000000 # replicate 14 0 @ [0x200]"
proof -
  have "take 64 sha256_in2 = replicate (4 * 16) 32" by (simp add: sha256_in2_def)
  then show "be_words (take 64 sha256_in2) = replicate 16 0x20202020"
    by (simp only: be_words_replicate) (simp add: ReadBE32_Cons W32_def)
  have "drop 64 sha256_in2 = [0x80, 0, 0, 0] @ replicate (4 * 14) 0 @ [0, 0, 2, 0]"
    by (simp add: sha256_in2_def numeral_eq_Suc)
  then show "be_words (drop 64 sha256_in2) = 0x80000000 # replicate 14 0 @ [0x200]"
    by (simp only: be_words_Cons4 be_words_zeros) (simp add: ReadBE32_Cons W32_def)
qed

section \<open>The self test passes\<close>

lemma sha256_compress_words:
  "64 \<le> length M \<Longrightarrow> sha256_compress s M = sha256_add s (sha256_run sha256_K (be_words (take 64 M)) s)"
  using be_words_drop [of 16 M] by (simp add: sha256_compress_run)

lemma words_explicit:
  "replicate 15 x = [x, x, x, x, x, x, x, x, x, x, x, x, x, x, x]"
  "replicate 14 x = [x, x, x, x, x, x, x, x, x, x, x, x, x, x]"
  "replicate 16 x = [x, x, x, x, x, x, x, x, x, x, x, x, x, x, x, x]"
  by (simp_all add: numeral_eq_Suc)

lemma length_sha256_in: "length sha256_in1 = 64" "length sha256_in2 = 128"
  by (simp_all add: sha256_in1_def sha256_in2_def)

lemma sha256_in1_block:
  "sha256_compress sha256_Initialize sha256_in1 =
   (0xe3b0c442, 0x98fc1c14, 0x9afbf4c8, 0x996fb924, 0x27ae41e4, 0x649b934c, 0xa495991b, 0x7852b855)"
proof -
  have "sha256_run sha256_K (be_words sha256_in1) sha256_Initialize =
     (0x79a6dddb, 0xdd946d8f, 0x5e8d0156, 0xf41fc3ea, 0xd69fef65, 0xc9962ac0, 0x8511bf70, 0x1c71eb3c)"
    unfolding sha256_in1_words words_explicit by (simp add: sha256_eval cong: let_weak_cong)
  then show ?thesis by (simp add: sha256_compress_words length_sha256_in sha256_Initialize_def)
qed

lemma sha256_in2_block0:
  "sha256_compress sha256_Initialize sha256_in2 =
   (0x4268b9ff, 0x7558c82e, 0x963e7bc1, 0xea419fe6, 0x7219e763, 0x7a246bdb, 0x160fbff0, 0x7ef412d)"
proof -
  have "sha256_run sha256_K (be_words (take 64 sha256_in2)) sha256_Initialize =
     (0xd85ed398, 0xb9f119a9, 0x59cf884f, 0x44f1aaac, 0x210b94e4, 0xdf1f034f, 0xf68be645, 0xac0e7414)"
    unfolding sha256_in2_words words_explicit by (simp add: sha256_eval cong: let_weak_cong)
  then show ?thesis by (simp add: sha256_compress_words length_sha256_in sha256_Initialize_def)
qed

lemma sha256_in2_block1:
  "sha256_compress (0x4268b9ff, 0x7558c82e, 0x963e7bc1, 0xea419fe6, 0x7219e763, 0x7a246bdb, 0x160fbff0, 0x7ef412d)
     (drop 64 sha256_in2) =
   (0xce4153b0, 0x147c2a86, 0x3ed4298e, 0xe0676bc8, 0x79fc77a1, 0x2abe1f49, 0xb2b055df, 0x1069523e)"
proof -
  have "sha256_run sha256_K (be_words (drop 64 sha256_in2))
       (0x4268b9ff, 0x7558c82e, 0x963e7bc1, 0xea419fe6, 0x7219e763, 0x7a246bdb, 0x160fbff0, 0x7ef412d) =
     (0x8bd899b1, 0x9f236258, 0xa895adcd, 0xf625cbe2, 0x7e2903e, 0xb099b36e, 0x9ca095ef, 0x87a1111)"
    unfolding sha256_in2_words words_explicit by (simp add: sha256_eval cong: let_weak_cong)
  then show ?thesis by (simp add: sha256_compress_words length_sha256_in)
qed

text \<open>
  \<open>SelfTest\<close> returns true for the routine in the source: zero blocks leave the state alone, the
  padded empty string gives the published digest, and so do sixty-four spaces over two blocks.  The
  assertion of \<open>SHA256AutoDetect\<close> never fires.
\<close>

theorem sha256_self_test: "SelfTest sha256_Transform"
  by (simp add: SelfTest_def sha256_Transform_absorb sha256_compress_take sha256_in1_block sha256_in2_block0
      sha256_in2_block1 numeral_2_eq_2 flip: sha256_Initialize_def)

end
