(* ===== verification/Spec2Isabelle.thy ===== *)
theory Spec2Isabelle
  imports Verify Headers Asset_Data Sha256_SelfTest
begin

text \<open>
  A verification library for the Avian node (\<^verbatim>\<open>src/src\<close>, C++), a Bitcoin-derived full node with an
  asset layer.

  \<^bold>\<open>Parts and theories.\<close>
  \<^item> \<open>Avian_Prelude\<close>: bytes, the error monad, little-endian arithmetic.
  \<^item> \<open>Serialize\<close>: \<^verbatim>\<open>serialize.h\<close>, the reading side of \<open>CDataStream\<close> in \<^verbatim>\<open>streams.h\<close>, \<^verbatim>\<open>crypto/common.h\<close>.
  \<^item> \<open>Hasher\<close>, \<open>Sha256\<close>, \<open>Sha256_SelfTest\<close>, \<open>Sha1\<close>, \<open>Ripemd160\<close>, \<open>Hash\<close>: \<^verbatim>\<open>crypto/sha256.cpp\<close>,
    \<^verbatim>\<open>crypto/sha1.cpp\<close>, \<^verbatim>\<open>crypto/ripemd160.cpp\<close>, \<^verbatim>\<open>hash.h\<close>, \<^verbatim>\<open>hash.cpp\<close>.
  \<^item> \<open>Opcodes\<close>, \<open>Script_Num\<close>, \<open>Script\<close>: \<^verbatim>\<open>script/script.h\<close>, \<^verbatim>\<open>script/script.cpp\<close>.
  \<^item> \<open>Interpreter\<close>: \<open>EvalScript\<close> and the encoding checks of \<^verbatim>\<open>script/interpreter.cpp\<close>.
\<close>

end
